(* ===== verification/Prelude.thy ===== *)
theory Prelude
  imports Complex_Main "HOL-Library.AList" "HOL-Library.List_Lexorder" "HOL-Library.Char_ord"
begin

text \<open>
  What every component shares: the error monad that models exceptions, Python dictionaries as
  association lists in insertion order, the idioms for duplicates and for sorted sets that the
  source repeats, and the collections of rewrite rules that carry the component proofs.

  A function that can raise returns \<open>'e + 'a\<close>: \<open>Inl\<close> is the raised exception, \<open>Inr\<close> the
  returned value. A dictionary is an association list with distinct keys; the library's
  \<open>AList.update\<close> overwrites a key in place and appends a new key at the end, as Python does.
\<close>

named_theorems frame_simps \<open>fields an operation leaves unchanged\<close>
named_theorems py_chars \<open>character classes of the strings the code builds\<close>

section \<open>Exceptions as sums\<close>

definition bind_res :: "'e + 'a \<Rightarrow> ('a \<Rightarrow> 'e + 'b) \<Rightarrow> 'e + 'b" where
  "bind_res m f = (case m of Inl e \<Rightarrow> Inl e | Inr x \<Rightarrow> f x)"

definition check :: "bool \<Rightarrow> 'e \<Rightarrow> 'e + unit" where
  "check ok e = (if ok then Inr () else Inl e)"

fun mapM :: "('a \<Rightarrow> 'e + 'b) \<Rightarrow> 'a list \<Rightarrow> 'e + 'b list" where
  "mapM f [] = Inr []"
| "mapM f (x # xs) = bind_res (f x) (\<lambda>y. bind_res (mapM f xs) (\<lambda>ys. Inr (y # ys)))"

lemma bind_res_simps [simp]:
  "bind_res (Inl e) f = Inl e"
  "bind_res (Inr x) f = f x"
  by (simp_all add: bind_res_def)

lemma bind_res_eq_Inr [simp]:
  "bind_res m f = Inr y \<longleftrightarrow> (\<exists>x. m = Inr x \<and> f x = Inr y)"
  by (cases m) simp_all

lemma bind_res_eq_Inl:
  "bind_res m f = Inl e \<longleftrightarrow> m = Inl e \<or> (\<exists>x. m = Inr x \<and> f x = Inl e)"
  by (cases m) simp_all

lemma bind_res_cong [fundef_cong]:
  assumes "r = s" and "\<And>v. s = Inr v \<Longrightarrow> k v = l v"
  shows "bind_res r k = bind_res s l"
  using assms by (cases s) simp_all

lemma check_eq_Inr [simp]: "check ok e = Inr u \<longleftrightarrow> ok"
  by (simp add: check_def)

lemma check_eq_Inl [simp]: "check ok e = Inl e' \<longleftrightarrow> \<not> ok \<and> e' = e"
  by (auto simp: check_def)

lemma mapM_eq_Inr: "mapM f xs = Inr ys \<longleftrightarrow> list_all2 (\<lambda>x y. f x = Inr y) xs ys"
proof (induction xs arbitrary: ys)
  case Nil
  then show ?case by auto
next
  case (Cons x xs)
  then show ?case by (cases ys) auto
qed

lemma mapM_eq_Inl_ex: "mapM f xs = Inl e \<Longrightarrow> \<exists>x \<in> set xs. f x = Inl e"
  by (induction xs) (auto simp: bind_res_eq_Inl)

lemma mapM_mem: "mapM f xs = Inr ys \<Longrightarrow> y \<in> set ys \<Longrightarrow> \<exists>x \<in> set xs. f x = Inr y"
  by (induction xs arbitrary: ys) auto

lemma mapM_total: "(\<And>x. x \<in> set xs \<Longrightarrow> f x = Inr (g x)) \<Longrightarrow> mapM f xs = Inr (map g xs)"
  by (induction xs) auto

text \<open>Exceptions over a state that survives them: what had happened when the exception was raised is kept.\<close>

definition bind_st :: "('e + 'a) \<times> 's \<Rightarrow> ('a \<Rightarrow> 's \<Rightarrow> ('e + 'b) \<times> 's) \<Rightarrow> ('e + 'b) \<times> 's" where
  "bind_st m f = (case m of (Inl e, s) \<Rightarrow> (Inl e, s) | (Inr x, s) \<Rightarrow> f x s)"

lemma bind_st_simps [simp]:
  "bind_st (Inl e, s) f = (Inl e, s)"
  "bind_st (Inr x, s) f = f x s"
  by (simp_all add: bind_st_def)

lemma bind_st_cong [fundef_cong]:
  assumes "m = n" and "\<And>x s. n = (Inr x, s) \<Longrightarrow> f x s = g x s"
  shows "bind_st m f = bind_st n g"
  using assms by (auto simp: bind_st_def split: prod.splits sum.splits)

lemma bind_st_Inr:
  "bind_st m f = (Inr y, t) \<longleftrightarrow> (\<exists>x s. m = (Inr x, s) \<and> f x s = (Inr y, t))"
  by (auto simp: bind_st_def split: prod.splits sum.splits)

lemma bind_st_Inl:
  "bind_st m f = (Inl e, t) \<longleftrightarrow> m = (Inl e, t) \<or> (\<exists>x s. m = (Inr x, s) \<and> f x s = (Inl e, t))"
  by (auto simp: bind_st_def split: prod.splits sum.splits)

text \<open>A relation between the states before and after that every step keeps, the whole keeps.\<close>

lemma bind_st_state:
  assumes "bind_st m f = (r, t)" "P (snd m)" "\<And>x s. m = (Inr x, s) \<Longrightarrow> P s \<Longrightarrow> P (snd (f x s))"
  shows "P t"
  using assms by (cases m; cases "fst m") auto

section \<open>Dictionaries\<close>

type_synonym ('k, 'v) pydict = "('k \<times> 'v) list"

text \<open>
  The interface the clients of a dictionary use. Everything proved from the two laws holds of
  any store that has them; the association lists of the model are interpreted below.
\<close>

lemma map_of_rev_distinct: "distinct (map fst ps) \<Longrightarrow> map_of (rev ps) = map_of ps"
  by (rule map_of_inject_set [THEN iffD2]) (simp_all add: rev_map [symmetric])

locale dict_store =
  fixes empty :: 'd
    and get :: "'d \<Rightarrow> 'k \<Rightarrow> 'v option"
    and put :: "'k \<Rightarrow> 'v \<Rightarrow> 'd \<Rightarrow> 'd"
  assumes get_empty: "get empty k = None"
    and get_put: "get (put k v d) k' = (if k' = k then Some v else get d k')"
begin

lemma get_fold:
  "get (fold (\<lambda>(k, v). put k v) ps d) k
   = (case map_of (rev ps) k of None \<Rightarrow> get d k | Some v \<Rightarrow> Some v)"
  by (induction ps arbitrary: d) (auto simp: get_put map_add_def split: option.splits)

lemma get_fold_empty: "get (fold (\<lambda>(k, v). put k v) ps empty) = map_of (rev ps)"
  by (rule ext) (simp add: get_fold get_empty split: option.splits)

lemma get_fold_distinct:
  assumes "distinct (map fst ps)"
  shows "get (fold (\<lambda>(k, v). put k v) ps empty) = map_of ps"
  using assms by (simp add: get_fold_empty map_of_rev_distinct)

end

locale counter_store = dict_store empty get put
  for empty :: 'd and get :: "'d \<Rightarrow> 'k \<Rightarrow> nat option" and put
begin

lemma count_fold:
  "get (fold (\<lambda>k d. put k ((case get d k of None \<Rightarrow> 0 | Some n \<Rightarrow> n) + 1) d) ks d) k
   = (if k \<in> set ks
      then Some ((case get d k of None \<Rightarrow> 0 | Some n \<Rightarrow> n) + count_list ks k)
      else get d k)"
  by (induction ks arbitrary: d) (auto simp: get_put count_list_0_iff)

lemma count_fold_empty:
  "get (fold (\<lambda>k d. put k ((case get d k of None \<Rightarrow> 0 | Some n \<Rightarrow> n) + 1) d) ks empty) k
   = (if k \<in> set ks then Some (count_list ks k) else None)"
  using count_fold [of ks empty k] by (simp add: get_empty split: if_splits)

end

definition dict_of :: "('k \<times> 'v) list \<Rightarrow> ('k, 'v) pydict" where
  "dict_of ps = fold (\<lambda>(k, v). AList.update k v) ps []"

definition count_dict :: "'k list \<Rightarrow> ('k, nat) pydict" where
  "count_dict ks =
     fold (\<lambda>k d. AList.update k ((case map_of d k of None \<Rightarrow> 0 | Some n \<Rightarrow> n) + 1) d) ks []"

interpretation alist: dict_store "[]" map_of AList.update
  by unfold_locales (simp_all add: update_conv')

interpretation alist_count: counter_store "[]" map_of AList.update
  by unfold_locales

lemma map_of_dict_of: "map_of (dict_of ps) = map_of (rev ps)"
  unfolding dict_of_def by (rule alist.get_fold_empty)

lemma map_of_dict_of_distinct: "distinct (map fst ps) \<Longrightarrow> map_of (dict_of ps) = map_of ps"
  unfolding dict_of_def by (rule alist.get_fold_distinct)

lemma map_of_count_dict: "k \<in> set ks \<Longrightarrow> map_of (count_dict ks) k = Some (count_list ks k)"
  unfolding count_dict_def using alist_count.count_fold_empty [of ks k] by simp

lemma distinct_fold_update:
  "distinct (map fst d) \<Longrightarrow> distinct (map fst (fold (\<lambda>(k, v). AList.update k v) ps d))"
  by (induction ps arbitrary: d) (auto simp: distinct_update)

lemma distinct_dict_of [simp]: "distinct (map fst (dict_of ps))"
  by (simp add: dict_of_def distinct_fold_update)

lemma dict_of_distinct_id: "distinct (map fst ps) \<Longrightarrow> dict_of ps = ps"
proof -
  have "distinct (map fst (d @ ps)) \<Longrightarrow> fold (\<lambda>(k, v). AList.update k v) ps d = d @ ps" for d
  proof (induction ps arbitrary: d)
    case Nil
    then show ?case by simp
  next
    case (Cons p ps)
    obtain k v where p: "p = (k, v)" by (cases p)
    have "k \<notin> fst ` set d" using Cons.prems p by auto
    then have "AList.update k v d = d @ [(k, v)]"
      by (induction d) auto
    then show ?case using Cons.prems Cons.IH [of "d @ [(k, v)]"] p by simp
  qed
  from this [of "[]"] show "distinct (map fst ps) \<Longrightarrow> dict_of ps = ps"
    by (simp add: dict_of_def)
qed

lemma map_of_filter_distinct:
  "distinct (map fst d) \<Longrightarrow>
     map_of (filter P d) k = (case map_of d k of Some v \<Rightarrow> if P (k, v) then Some v else None | None \<Rightarrow> None)"
  by (induction d) (auto simp: map_of_eq_None_iff split: option.splits)

lemma dom_map_of_update [simp]: "dom (map_of (AList.update k v d)) = insert k (dom (map_of d))"
  by (simp add: update_conv')

section \<open>Duplicates and sorted sets\<close>

text \<open>
  \<open>{i for i in ids if ids.count(i) > 1}\<close>, kept as a list, and \<open>sorted\<close> of a set given as
  a list of its elements.
\<close>

definition duplicates :: "'a list \<Rightarrow> 'a list" where
  "duplicates xs = filter (\<lambda>x. count_list xs x > 1) xs"

definition sorted_set :: "('a :: linorder) list \<Rightarrow> 'a list" where
  "sorted_set xs = sort (remdups xs)"

lemma count_list_Cons_le_1:
  "count_list (x # xs) x \<le> 1 \<longleftrightarrow> x \<notin> set xs"
  by (simp add: count_list_0_iff)

lemma count_list_le_1_distinct: "(\<forall>x \<in> set xs. count_list xs x \<le> 1) \<longleftrightarrow> distinct xs"
proof (induction xs)
  case Nil
  then show ?case by simp
next
  case (Cons x xs)
  show ?case
  proof (cases "x \<in> set xs")
    case True
    then have "\<not> count_list (x # xs) x \<le> 1"
      by (simp only: count_list_Cons_le_1 not_not)
    with True show ?thesis by auto
  next
    case False
    then have "count_list (x # xs) x \<le> 1"
      by (simp only: count_list_Cons_le_1 not_False_eq_True)
    moreover from False have "y \<in> set xs \<Longrightarrow> count_list (x # xs) y = count_list xs y" for y
      by auto
    ultimately show ?thesis using Cons.IH False by auto
  qed
qed

lemma duplicates_Nil [simp]: "duplicates xs = [] \<longleftrightarrow> distinct xs"
  by (auto simp: duplicates_def filter_empty_conv not_less count_list_le_1_distinct [symmetric])

lemma set_duplicates: "x \<in> set (duplicates xs) \<longleftrightarrow> count_list xs x > 1"
proof -
  have "1 < count_list xs x \<Longrightarrow> x \<in> set xs"
    by (rule ccontr) (simp add: count_list_0_iff [THEN iffD2])
  then show ?thesis by (auto simp: duplicates_def)
qed

lemma sorted_sorted_set [simp]: "sorted (sorted_set xs)"
  by (simp add: sorted_set_def)

lemma distinct_sorted_set [simp]: "distinct (sorted_set xs)"
  by (simp add: sorted_set_def)

lemma set_sorted_set [simp]: "set (sorted_set xs) = set xs"
  by (simp add: sorted_set_def)

lemma sorted_set_Nil [simp]: "sorted_set xs = [] \<longleftrightarrow> xs = []"
  by (metis set_empty set_sorted_set)

lemma sort_Nil_iff [simp]: "sort xs = [] \<longleftrightarrow> xs = []"
  by (cases "xs = []") (auto dest: arg_cong [where f = length])

lemma sorted_set_cong: "set xs = set ys \<Longrightarrow> sorted_set xs = sorted_set ys"
  by (rule sorted_distinct_set_unique) simp_all

lemma map_of_map_key: "distinct (map f xs) \<Longrightarrow> x \<in> set xs \<Longrightarrow> map_of (map (\<lambda>x. (f x, g x)) xs) (f x) = Some (g x)"
  by (rule map_of_is_SomeI) (auto simp: comp_def)

lemma map_of_map_key_None: "k \<notin> f ` set xs \<Longrightarrow> map_of (map (\<lambda>x. (f x, g x)) xs) k = None"
  by (induction xs) auto

lemma map_of_key_ex:
  assumes "k \<in> set (map fst ps)"
  obtains v where "map_of ps k = Some v" "(k, v) \<in> set ps"
  using assms by (cases "map_of ps k") (auto simp: map_of_eq_None_iff dest: map_of_SomeD)

lemma map_of_inj_values:
  assumes "distinct (map snd ps)" "map_of ps k = Some v" "map_of ps k' = Some v"
  shows "k = k'"
proof -
  have "(k, v) \<in> set ps" "(k', v) \<in> set ps" using assms(2,3) by (auto dest: map_of_SomeD)
  then show ?thesis using assms(1) by (metis distinct_map inj_onD prod.inject snd_conv)
qed

lemma fold_invariant_simple:
  assumes "\<And>x a. P a \<Longrightarrow> x \<in> set xs \<Longrightarrow> P (f x a)" "P a"
  shows "P (fold f xs a)"
  using assms by (induction xs arbitrary: a) auto

end
