(* ===== verification/PyStr.thy ===== *)
theory PyStr
  imports Prelude
begin

text \<open>
  The \<open>str\<close> operations of the source. A Python string is a sequence of code points; the model's
  \<open>string\<close> is a list of 8-bit characters, read as the code points 0 to 255 (Latin-1), so
  \<open>length\<close>, slicing, comparison and \<open>lower\<close> agree with Python on that range (\<open>lower\<close> maps it
  into itself). Bytes are lists of the same type, read as byte values: \<open>utf8_encode\<close> is
  \<open>str.encode()\<close>, which turns a code point above 127 into two bytes.
\<close>

section \<open>Characters\<close>

abbreviation code :: "char \<Rightarrow> nat" where
  "code c \<equiv> of_char c"

definition is_lower_ascii :: "char \<Rightarrow> bool" where
  "is_lower_ascii c = (97 \<le> code c \<and> code c \<le> 122)"

definition is_upper_ascii :: "char \<Rightarrow> bool" where
  "is_upper_ascii c = (65 \<le> code c \<and> code c \<le> 90)"

definition is_digit_ascii :: "char \<Rightarrow> bool" where
  "is_digit_ascii c = (48 \<le> code c \<and> code c \<le> 57)"

definition lower_char :: "char \<Rightarrow> char" where
  "lower_char c =
     (if is_upper_ascii c \<or> (192 \<le> code c \<and> code c \<le> 222 \<and> code c \<noteq> 215)
      then char_of (code c + 32) else c)"

text \<open>
  \<open>upper\<close> leaves Latin-1 for \<open>\<mu>\<close> (181) and \<open>\"y\<close> (255), which the model keeps, and turns
  sharp s (223) into two letters. The source applies it to HTTP methods only, to look them up in
  a table of ASCII names.
\<close>

definition upper_char :: "char \<Rightarrow> string" where
  "upper_char c =
     (if is_lower_ascii c \<or> (224 \<le> code c \<and> code c \<le> 254 \<and> code c \<noteq> 247)
      then [char_of (code c - 32)]
      else if code c = 223 then ''SS'' else [c])"

definition is_space :: "char \<Rightarrow> bool" where
  "is_space c = ((9 \<le> code c \<and> code c \<le> 13) \<or> (28 \<le> code c \<and> code c \<le> 32)
                 \<or> code c = 133 \<or> code c = 160)"

lemma code_inject: "code c = code d \<longleftrightarrow> c = d"
  by simp

lemma code_less: "code c < 256"
  by (metis of_char_mod_256 mod_less_divisor zero_less_numeral)

section \<open>Strings\<close>

definition str_lower :: "string \<Rightarrow> string" where
  "str_lower s = map lower_char s"

definition str_upper :: "string \<Rightarrow> string" where
  "str_upper s = concat (map upper_char s)"

definition starts_with :: "string \<Rightarrow> string \<Rightarrow> bool" where
  "starts_with p s = (take (length p) s = p)"

definition ends_with :: "string \<Rightarrow> string \<Rightarrow> bool" where
  "ends_with p s = (length p \<le> length s \<and> drop (length s - length p) s = p)"

definition str_lstrip_chars :: "(char \<Rightarrow> bool) \<Rightarrow> string \<Rightarrow> string" where
  "str_lstrip_chars P s = dropWhile P s"

definition str_rstrip_chars :: "(char \<Rightarrow> bool) \<Rightarrow> string \<Rightarrow> string" where
  "str_rstrip_chars P s = rev (dropWhile P (rev s))"

definition str_strip_chars :: "(char \<Rightarrow> bool) \<Rightarrow> string \<Rightarrow> string" where
  "str_strip_chars P s = str_rstrip_chars P (str_lstrip_chars P s)"

definition str_strip :: "string \<Rightarrow> string" where
  "str_strip s = str_strip_chars is_space s"

fun str_join :: "string \<Rightarrow> string list \<Rightarrow> string" where
  "str_join sep [] = []"
| "str_join sep [s] = s"
| "str_join sep (s # t # ss) = s @ sep @ str_join sep (t # ss)"

text \<open>\<open>s.replace(old, new)\<close>, left to right and without overlap; the source's \<open>old\<close> is never empty.\<close>

function str_replace :: "string \<Rightarrow> string \<Rightarrow> string \<Rightarrow> string" where
  "str_replace old new [] = []"
| "str_replace old new (c # cs) =
     (if old \<noteq> [] \<and> starts_with old (c # cs)
      then new @ str_replace old new (drop (length old) (c # cs))
      else c # str_replace old new cs)"
  by pat_completeness auto
termination
  by (relation "measure (\<lambda>(old, new, s). length s)") (auto simp: neq_Nil_conv)

text \<open>\<open>str.splitlines\<close> as far as the source uses it: the first line, or a default.\<close>

definition is_line_break :: "char \<Rightarrow> bool" where
  "is_line_break c = ((10 \<le> code c \<and> code c \<le> 13) \<or> (28 \<le> code c \<and> code c \<le> 30) \<or> code c = 133)"

definition first_line_or :: "string \<Rightarrow> string \<Rightarrow> string" where
  "first_line_or s dflt = (if s = [] then dflt else takeWhile (\<lambda>c. \<not> is_line_break c) s)"

section \<open>Numbers\<close>

definition digit_char :: "nat \<Rightarrow> char" where
  "digit_char n = char_of (48 + n)"

fun nat_str :: "nat \<Rightarrow> string" where
  "nat_str n = (if n < 10 then [digit_char n] else nat_str (n div 10) @ [digit_char (n mod 10)])"

declare nat_str.simps [simp del]

definition int_str :: "int \<Rightarrow> string" where
  "int_str i = (if i < 0 then ''-'' @ nat_str (nat (- i)) else nat_str (nat i))"

definition hex_lower :: "nat \<Rightarrow> char" where
  "hex_lower n = (if n < 10 then char_of (48 + n) else char_of (87 + n))"

definition hex_upper :: "nat \<Rightarrow> char" where
  "hex_upper n = (if n < 10 then char_of (48 + n) else char_of (55 + n))"

section \<open>Bytes, percent-encoding\<close>

definition utf8_char :: "char \<Rightarrow> string" where
  "utf8_char c =
     (if code c < 128 then [c]
      else [char_of (192 + code c div 64), char_of (128 + code c mod 64)])"

definition utf8_encode :: "string \<Rightarrow> string" where
  "utf8_encode s = concat (map utf8_char s)"

definition is_unreserved :: "char \<Rightarrow> bool" where
  "is_unreserved c =
     (is_lower_ascii c \<or> is_upper_ascii c \<or> is_digit_ascii c \<or> c \<in> set ''_.-~'')"

definition percent :: "char \<Rightarrow> string" where
  "percent b = [CHR ''%'', hex_upper (code b div 16), hex_upper (code b mod 16)]"

definition quote_byte :: "char \<Rightarrow> string" where
  "quote_byte b = (if is_unreserved b then [b] else percent b)"

text \<open>\<open>urllib.parse.quote(s, safe="")\<close> and \<open>quote_plus(s)\<close>.\<close>

definition quote :: "string \<Rightarrow> string" where
  "quote s = concat (map quote_byte (utf8_encode s))"

definition quote_plus_byte :: "char \<Rightarrow> string" where
  "quote_plus_byte b = (if b = CHR '' '' then ''+'' else quote_byte b)"

definition quote_plus :: "string \<Rightarrow> string" where
  "quote_plus s = concat (map quote_plus_byte (utf8_encode s))"

definition urlencode :: "(string \<times> string) list \<Rightarrow> string" where
  "urlencode ps = str_join ''&'' (map (\<lambda>(k, v). quote_plus k @ ''='' @ quote_plus v) ps)"

section \<open>repr of a string\<close>

definition repr_char :: "char \<Rightarrow> char \<Rightarrow> string" where
  "repr_char q c =
     (if c = q \<or> c = CHR 0x5C then [CHR 0x5C, c]
      else if code c = 10 then [CHR 0x5C, CHR ''n'']
      else if code c = 13 then [CHR 0x5C, CHR ''r'']
      else if code c = 9 then [CHR 0x5C, CHR ''t'']
      else if code c < 32 \<or> (127 \<le> code c \<and> code c \<le> 160) \<or> code c = 173
      then [CHR 0x5C, CHR ''x'', hex_lower (code c div 16), hex_lower (code c mod 16)]
      else [c])"

definition str_repr :: "string \<Rightarrow> string" where
  "str_repr s =
     (let q = (if CHR 0x27 \<in> set s \<and> CHR 0x22 \<notin> set s then CHR 0x22 else CHR 0x27)
      in q # concat (map (repr_char q) s) @ [q])"

section \<open>Facts about the string functions\<close>

lemma starts_with_iff: "starts_with p s \<longleftrightarrow> (\<exists>t. s = p @ t)"
  by (auto simp: starts_with_def) (metis append_take_drop_id)

lemma starts_with_append [simp]: "starts_with p (p @ t)"
  by (simp add: starts_with_def)

lemma set_str_replace: "set (str_replace old new s) \<subseteq> set s \<union> set new"
proof (induction old new s rule: str_replace.induct)
  case (2 old new c cs)
  then show ?case
    using set_drop_subset [of "length old" "c # cs"] by auto
qed simp

lemma set_strip_chars: "set (str_strip_chars P s) \<subseteq> set s"
  by (auto simp: str_strip_chars_def str_rstrip_chars_def str_lstrip_chars_def
      dest!: set_dropWhileD)

lemma nat_str_digits: "set (nat_str n) \<subseteq> {c. is_digit_ascii c}"
proof (induction n rule: nat_str.induct)
  case (1 n)
  then show ?case
    by (subst nat_str.simps) (auto simp: is_digit_ascii_def digit_char_def of_char_of)
qed

lemma nat_str_not_Nil [simp]: "nat_str n \<noteq> []"
  by (subst nat_str.simps) simp

lemma int_str_not_Nil [simp]: "int_str i \<noteq> []"
  by (simp add: int_str_def)

subsection \<open>Percent-encoding\<close>

lemma hex_upper_alnum: "n < 16 \<Longrightarrow> is_digit_ascii (hex_upper n) \<or> is_upper_ascii (hex_upper n)"
  by (auto simp: hex_upper_def is_digit_ascii_def is_upper_ascii_def of_char_of)

lemma code_div_16: "code c div 16 < 16" "code c mod 16 < 16"
  using code_less [of c] by (auto intro: less_mult_imp_div_less)

lemma is_unreserved_alnum: "is_digit_ascii c \<or> is_upper_ascii c \<Longrightarrow> is_unreserved c"
  by (auto simp: is_unreserved_def)

lemma percent_chars: "c \<in> set (percent b) \<Longrightarrow> is_unreserved c \<or> c = CHR ''%''"
  using is_unreserved_alnum [OF hex_upper_alnum [OF code_div_16(1) [of b]]]
    is_unreserved_alnum [OF hex_upper_alnum [OF code_div_16(2) [of b]]]
  by (auto simp: percent_def)

lemma quote_byte_chars: "c \<in> set (quote_byte b) \<Longrightarrow> is_unreserved c \<or> c = CHR ''%''"
  by (auto simp: quote_byte_def split: if_splits dest: percent_chars)

lemma quote_chars [py_chars]: "c \<in> set (quote s) \<Longrightarrow> is_unreserved c \<or> c = CHR ''%''"
  by (auto simp: quote_def dest: quote_byte_chars)

lemma quote_plus_chars [py_chars]:
  "c \<in> set (quote_plus s) \<Longrightarrow> is_unreserved c \<or> c \<in> {CHR ''%'', CHR ''+''}"
  by (auto simp: quote_plus_def quote_plus_byte_def split: if_splits dest: quote_byte_chars)

lemma not_unreserved:
  "\<not> is_unreserved (CHR ''/'')" "\<not> is_unreserved (CHR ''?'')" "\<not> is_unreserved (CHR ''#'')"
  "\<not> is_unreserved (CHR ''%'')" "\<not> is_unreserved (CHR 0x7B)" "\<not> is_unreserved (CHR 0x7D)"
  "\<not> is_unreserved (CHR ''&'')" "\<not> is_unreserved (CHR ''='')" "\<not> is_unreserved (CHR ''+'')"
  "\<not> is_unreserved (CHR '' '')"
  by (simp_all add: is_unreserved_def is_lower_ascii_def is_upper_ascii_def is_digit_ascii_def)

lemma quote_byte_not_Nil [simp]: "quote_byte b \<noteq> []"
  by (simp add: quote_byte_def percent_def)

lemma utf8_char_not_Nil [simp]: "utf8_char c \<noteq> []"
  by (simp add: utf8_char_def)

lemma quote_Nil_iff [simp]: "quote s = [] \<longleftrightarrow> s = []"
proof (cases s)
  case (Cons c cs)
  then show ?thesis by (cases "utf8_char c") (auto simp: quote_def utf8_encode_def)
qed (simp add: quote_def utf8_encode_def)

text \<open>A reference decoder: what a server does with a percent-encoded segment or query value.\<close>

definition hex_val :: "char \<Rightarrow> nat" where
  "hex_val c = (if is_digit_ascii c then code c - 48 else code c - 55)"

fun unquote :: "string \<Rightarrow> string" where
  "unquote (c # h # l # cs) =
     (if c = CHR ''%'' then char_of (16 * hex_val h + hex_val l) # unquote cs
      else c # unquote (h # l # cs))"
| "unquote cs = cs"

fun unquote_plus :: "string \<Rightarrow> string" where
  "unquote_plus (c # h # l # cs) =
     (if c = CHR ''%'' then char_of (16 * hex_val h + hex_val l) # unquote_plus cs
      else (if c = CHR ''+'' then CHR '' '' else c) # unquote_plus (h # l # cs))"
| "unquote_plus cs = map (\<lambda>c. if c = CHR ''+'' then CHR '' '' else c) cs"

lemma hex_val_hex_upper: "n < 16 \<Longrightarrow> hex_val (hex_upper n) = n"
  by (auto simp: hex_val_def hex_upper_def is_digit_ascii_def of_char_of)

lemma unquote_Cons: "c \<noteq> CHR ''%'' \<Longrightarrow> unquote (c # cs) = c # unquote cs"
  by (cases cs rule: unquote.cases) auto

lemma unquote_plus_Cons:
  "c \<noteq> CHR ''%'' \<Longrightarrow> unquote_plus (c # cs) = (if c = CHR ''+'' then CHR '' '' else c) # unquote_plus cs"
  by (cases cs rule: unquote.cases) auto

lemma hex_recombine: "char_of (16 * hex_val (hex_upper (code b div 16)) + hex_val (hex_upper (code b mod 16))) = b"
  by (simp add: hex_val_hex_upper code_div_16)

lemma unquote_percent: "unquote (percent b @ cs) = b # unquote cs"
  by (simp add: percent_def hex_recombine)

lemma unquote_plus_percent: "unquote_plus (percent b @ cs) = b # unquote_plus cs"
  by (simp add: percent_def hex_recombine)

lemma unquote_quote_byte: "unquote (quote_byte b @ cs) = b # unquote cs"
  using not_unreserved(4) unquote_Cons [of b cs]
  by (cases "is_unreserved b") (auto simp: quote_byte_def unquote_percent)

lemma unquote_plus_quote_plus_byte: "unquote_plus (quote_plus_byte b @ cs) = b # unquote_plus cs"
proof (cases "is_unreserved b")
  case True
  then have "b \<noteq> CHR ''%''" "b \<noteq> CHR ''+''" "b \<noteq> CHR '' ''"
    using not_unreserved by metis+
  then show ?thesis using True by (simp add: quote_plus_byte_def quote_byte_def unquote_plus_Cons)
next
  case False
  then show ?thesis
    using unquote_plus_Cons [of "CHR ''+''" cs]
    by (simp add: quote_plus_byte_def quote_byte_def unquote_plus_percent)
qed

lemma unquote_concat: "unquote (concat (map quote_byte bs) @ cs) = bs @ unquote cs"
  by (induction bs) (simp_all add: unquote_quote_byte)

lemma unquote_quote: "unquote (quote s) = utf8_encode s"
  using unquote_concat [of "utf8_encode s" "[]"] by (simp add: quote_def)

lemma unquote_plus_concat: "unquote_plus (concat (map quote_plus_byte bs) @ cs) = bs @ unquote_plus cs"
  by (induction bs) (simp_all add: unquote_plus_quote_plus_byte)

lemma unquote_plus_quote_plus: "unquote_plus (quote_plus s) = utf8_encode s"
  using unquote_plus_concat [of "utf8_encode s" "[]"] by (simp add: quote_plus_def)

fun utf8_decode :: "string \<Rightarrow> string" where
  "utf8_decode [] = []"
| "utf8_decode [b] = [b]"
| "utf8_decode (b # d # bs) =
     (if code b < 128 then b # utf8_decode (d # bs)
      else char_of ((code b - 192) * 64 + (code d - 128)) # utf8_decode bs)"

lemma utf8_decode_Cons: "code b < 128 \<Longrightarrow> utf8_decode (b # bs) = b # utf8_decode bs"
  by (cases bs) auto

lemma utf8_decode_char: "utf8_decode (utf8_char c @ bs) = c # utf8_decode bs"
proof (cases "code c < 128")
  case True
  then show ?thesis by (simp add: utf8_char_def utf8_decode_Cons)
next
  case False
  have "code c div 64 < 4" using code_less [of c] by (auto intro: less_mult_imp_div_less)
  then have "192 + code c div 64 < 256" "128 + code c mod 64 < 256" by auto
  then show ?thesis using False by (simp add: utf8_char_def of_char_of)
qed

lemma utf8_decode_encode: "utf8_decode (utf8_encode s) = s"
  by (induction s) (simp_all add: utf8_encode_def utf8_decode_char)

lemma utf8_encode_inject [simp]: "utf8_encode s = utf8_encode t \<longleftrightarrow> s = t"
  by (metis utf8_decode_encode)

lemma quote_inject: "quote s = quote t \<longleftrightarrow> s = t"
  by (metis unquote_quote utf8_encode_inject)

lemma quote_unreserved: "\<forall>c \<in> set s. is_unreserved c \<Longrightarrow> quote s = s"
proof -
  have small: "is_unreserved c \<Longrightarrow> utf8_char c = [c]" for c
    by (auto simp: is_unreserved_def is_lower_ascii_def is_upper_ascii_def is_digit_ascii_def
        utf8_char_def)
  show "\<forall>c \<in> set s. is_unreserved c \<Longrightarrow> quote s = s"
    by (induction s) (simp_all add: quote_def utf8_encode_def small quote_byte_def)
qed

section \<open>Splitting\<close>

text \<open>\<open>s.split()\<close>: the maximal runs of characters that are not white space.\<close>

lemma dropWhile_shorter [termination_simp]: "length (dropWhile P s) < Suc (length s)"
  by (simp add: length_dropWhile_le le_imp_less_Suc)

fun str_words :: "string \<Rightarrow> string list" where
  "str_words [] = []"
| "str_words (c # cs) =
     (if is_space c then str_words cs
      else (c # takeWhile (\<lambda>d. \<not> is_space d) cs) # str_words (dropWhile (\<lambda>d. \<not> is_space d) cs))"

text \<open>\<open>s.partition(c)\<close> and \<open>s.split(c)\<close> at one character, \<open>s.rpartition(c)[2]\<close>.\<close>

definition before_char :: "char \<Rightarrow> string \<Rightarrow> string" where
  "before_char c s = takeWhile (\<lambda>d. d \<noteq> c) s"

definition after_char :: "char \<Rightarrow> string \<Rightarrow> string" where
  "after_char c s = tl (dropWhile (\<lambda>d. d \<noteq> c) s)"

definition after_last_char :: "char \<Rightarrow> string \<Rightarrow> string" where
  "after_last_char c s = rev (takeWhile (\<lambda>d. d \<noteq> c) (rev s))"

fun split_char :: "char \<Rightarrow> string \<Rightarrow> string list" where
  "split_char c [] = [[]]"
| "split_char c (d # ds) =
     (if d = c then [] # split_char c ds
      else (case split_char c ds of [] \<Rightarrow> [[d]] | p # ps \<Rightarrow> (d # p) # ps))"

lemma before_after_char: "c \<in> set s \<Longrightarrow> s = before_char c s @ c # after_char c s"
  by (induction s) (auto simp: before_char_def after_char_def)

lemma split_char_not_Nil [simp]: "split_char c s \<noteq> []"
  by (cases s) (auto split: list.splits)

lemma str_join_split_char: "str_join [c] (split_char c s) = s"
proof (induction s)
  case (Cons d ds)
  then show ?case by (cases "split_char c ds"; cases "tl (split_char c ds)") auto
qed simp

section \<open>int of a string\<close>

text \<open>White space around, a sign, decimal digits, single underscores between digits. (Latin-1 has no decimal
  digits but the ASCII ones; the limit of 4300 digits is not modelled.)\<close>

fun dec_digits :: "nat \<Rightarrow> string \<Rightarrow> nat option" where
  "dec_digits acc [] = Some acc"
| "dec_digits acc (c # cs) =
     (if is_digit_ascii c then dec_digits (10 * acc + (code c - 48)) cs
      else if c = CHR ''_'' \<and> cs \<noteq> [] \<and> is_digit_ascii (hd cs) then dec_digits acc cs
      else None)"

definition dec_number :: "string \<Rightarrow> nat option" where
  "dec_number s = (if s \<noteq> [] \<and> is_digit_ascii (hd s) then dec_digits 0 s else None)"

definition py_int_str :: "string \<Rightarrow> int option" where
  "py_int_str s =
     (let t = str_strip s
      in if starts_with ''-'' t then map_option (\<lambda>n. - int n) (dec_number (tl t))
         else if starts_with ''+'' t then map_option int (dec_number (tl t))
         else map_option int (dec_number t))"

end
