(* ===== verification/Operations.thy ===== *)
theory Operations
  imports PyJson
begin

text \<open>
  The operation domain model (\<open>operations.py\<close>): pure data. Every discovered or configured upstream
  call is an \<open>operation\<close>; its \<open>binding\<close> is a closed union over the protocols. The literal fields
  \<open>protocol\<close> are the constructors of \<open>binding\<close>.
\<close>

datatype effect = READ_ONLY | IDEMPOTENT_WRITE | ACTION

datatype sensitivity = NORMAL | SENSITIVE

datatype param_location = PATH | QUERY | HEADER

datatype body_mode = FLATTEN | SINGLE_ARG

datatype param_style = FORM

primrec effect_value :: "effect \<Rightarrow> string" where
  "effect_value READ_ONLY = ''read_only''"
| "effect_value IDEMPOTENT_WRITE = ''idempotent_write''"
| "effect_value ACTION = ''action''"

primrec location_value :: "param_location \<Rightarrow> string" where
  "location_value PATH = ''path''"
| "location_value QUERY = ''query''"
| "location_value HEADER = ''header''"

record parameter =
  p_arg :: string
  p_location :: param_location
  p_wire_name :: string
  p_required :: bool
  p_schema :: jobj
  p_style :: param_style
  p_explode :: bool

record body_spec =
  b_content_type :: string
  b_schema :: jobj
  b_mode :: body_mode

record http_binding =
  hb_method :: string
  hb_path :: string
  hb_parameters :: "parameter list"
  hb_body :: "body_spec option"

record gql_variable =
  v_name :: string
  v_graphql_type :: string
  v_required :: bool

record graphql_binding =
  gb_operation_type :: string
  gb_document :: string
  gb_variables :: "gql_variable list"

datatype binding = Http http_binding | GraphQl graphql_binding

record operation =
  op_id :: string
  op_upstream :: string
  op_name :: string
  op_title :: string
  op_description :: string
  op_group_tags :: "string list"
  op_effect :: effect
  op_sensitivity :: sensitivity
  op_input_schema :: jobj
  op_binding :: binding
  op_meta :: jobj

lemma effect_value_inject [simp]: "effect_value a = effect_value b \<longleftrightarrow> a = b"
  by (cases a; cases b) simp_all

lemma location_value_inject [simp]: "location_value a = location_value b \<longleftrightarrow> a = b"
  by (cases a; cases b) simp_all

text \<open>Members of a \<open>StrEnum\<close> compare as the strings they are.\<close>

instantiation effect :: linorder
begin

definition less_eq_effect :: "effect \<Rightarrow> effect \<Rightarrow> bool" where
  "less_eq_effect a b \<longleftrightarrow> effect_value a \<le> effect_value b"

definition less_effect :: "effect \<Rightarrow> effect \<Rightarrow> bool" where
  "less_effect a b \<longleftrightarrow> effect_value a < effect_value b"

instance
  by standard (auto simp: less_eq_effect_def less_effect_def intro: le_neq_trans)

end

text \<open>A concrete operation, for the examples the theories evaluate.\<close>

definition sample_op :: "string \<Rightarrow> operation" where
  "sample_op oid =
     \<lparr>op_id = oid, op_upstream = ''u'', op_name = [], op_title = [], op_description = [],
      op_group_tags = [], op_effect = READ_ONLY, op_sensitivity = NORMAL, op_input_schema = [],
      op_binding = GraphQl \<lparr>gb_operation_type = ''query'', gb_document = [], gb_variables = []\<rparr>, op_meta = []\<rparr>"

end
