(* ===== verification/Flatten.thy ===== *)
theory Flatten
  imports Operations
begin

text \<open>
  From a binding to a flat tool schema (\<open>sources/flatten.py\<close>): the reconciliation of path
  placeholders with path parameters, the renaming of colliding arguments, and the schema itself.
  \<open>NotADict\<close> and \<open>NotIterable\<close> are the \<open>TypeError\<close> that \<open>dict(v)\<close> and \<open>list.extend(v)\<close> raise on a
  schema whose \<open>properties\<close> or \<open>required\<close> is not what JSON Schema asks for; every other constructor
  is a \<open>FlattenError\<close>. (\<open>dict\<close> also accepts a list of pairs, which counts as \<open>NotADict\<close> here.)
\<close>

datatype flatten_error =
    UnsupportedContentType string
  | RepeatedPlaceholders "string list"
  | OptionalPathParameter string string
  | SharedWireName string string string
  | UnmatchedPlaceholders "string list"
  | UnplacedParameters "string list"
  | ArgumentCollision string string string
  | NotADict json
  | NotIterable json

definition SUPPORTED_CONTENT_TYPES :: "string list" where
  "SUPPORTED_CONTENT_TYPES = [''application/json'']"

definition BODY_ARG :: string where
  "BODY_ARG = ''body''"

definition DROPPED_BODY_KEYWORDS :: "string list" where
  "DROPPED_BODY_KEYWORDS =
     [''oneOf'', ''anyOf'', ''allOf'', ''not'', ''if'', ''then'', ''else'', ''additionalProperties'',
      ''unevaluatedProperties'', ''patternProperties'', ''propertyNames'', ''dependentRequired'',
      ''dependentSchemas'', ''minProperties'', ''maxProperties'']"

section \<open>Helpers\<close>

fun py_dict :: "json \<Rightarrow> flatten_error + jobj" where
  "py_dict (JObj d) = Inr d"
| "py_dict (JList []) = Inr []"
| "py_dict v = Inl (NotADict v)"

fun py_iter :: "json \<Rightarrow> flatten_error + json list" where
  "py_iter (JList vs) = Inr vs"
| "py_iter (JObj d) = Inr (map (\<lambda>(k, _). JStr k) d)"
| "py_iter (JStr s) = Inr (map (\<lambda>c. JStr [c]) s)"
| "py_iter v = Inl (NotIterable v)"

definition body_properties :: "body_spec \<Rightarrow> flatten_error + jobj option" where
  "body_properties body =
     (if b_mode body = SINGLE_ARG then Inr None
      else if jget (b_schema body) ''type'' JNull \<noteq> JStr ''object'' then Inr None
      else bind_res (py_dict (jget (b_schema body) ''properties'' (JObj []))) (\<lambda>d. Inr (Some d)))"

definition check_content_type :: "body_spec option \<Rightarrow> flatten_error + unit" where
  "check_content_type body =
     (case body of
        None \<Rightarrow> Inr ()
      | Some b \<Rightarrow> check (b_content_type b \<in> set SUPPORTED_CONTENT_TYPES)
                    (UnsupportedContentType (b_content_type b)))"

section \<open>The path template\<close>

abbreviation not_brace :: "char \<Rightarrow> bool" where
  "not_brace c \<equiv> c \<noteq> CHR 0x7B \<and> c \<noteq> CHR 0x7D"

lemma dropWhile_rest_shorter [termination_simp]:
  "dropWhile P cs = d # rest \<Longrightarrow> length rest < Suc (length cs)"
  by (metis length_Cons length_dropWhile_le le_imp_less_Suc less_SucI Suc_le_eq)

text \<open>\<open>_PLACEHOLDER.findall(path)\<close> with \<open>\{([^{}]*)\}\<close>.\<close>

fun placeholders :: "string \<Rightarrow> string list" where
  "placeholders [] = []"
| "placeholders (c # cs) =
     (if c = CHR 0x7B
      then (case dropWhile not_brace cs of
              [] \<Rightarrow> placeholders cs
            | d # rest \<Rightarrow>
                if d = CHR 0x7D then takeWhile not_brace cs # placeholders rest
                else placeholders cs)
      else placeholders cs)"

fun declare_path_params :: "parameter list \<Rightarrow> (string, string) pydict \<Rightarrow> flatten_error + (string, string) pydict" where
  "declare_path_params [] declared = Inr declared"
| "declare_path_params (p # ps) declared =
     (if p_location p \<noteq> PATH then declare_path_params ps declared
      else if \<not> p_required p then Inl (OptionalPathParameter (p_arg p) (p_wire_name p))
      else case map_of declared (p_wire_name p) of
          Some other \<Rightarrow> Inl (SharedWireName other (p_arg p) (p_wire_name p))
        | None \<Rightarrow> declare_path_params ps (AList.update (p_wire_name p) (p_arg p) declared))"

definition check_path_template :: "http_binding \<Rightarrow> flatten_error + unit" where
  "check_path_template binding =
     (let phs = placeholders (hb_path binding);
          repeated = sorted_set (duplicates phs)
      in if repeated \<noteq> [] then Inl (RepeatedPlaceholders repeated)
         else
           bind_res (declare_path_params (hb_parameters binding) []) (\<lambda>declared.
           let unmatched = sorted_set (filter (\<lambda>h. h \<notin> fst ` set declared) phs)
           in if unmatched \<noteq> [] then Inl (UnmatchedPlaceholders unmatched)
              else
                let unplaced = sort (map snd (filter (\<lambda>(w, _). w \<notin> set phs) declared))
                in if unplaced \<noteq> [] then Inl (UnplacedParameters unplaced) else Inr ()))"

definition unsupported_body_keywords :: "body_spec option \<Rightarrow> flatten_error + string list" where
  "unsupported_body_keywords body =
     (case body of
        None \<Rightarrow> Inr []
      | Some b \<Rightarrow>
          bind_res (body_properties b) (\<lambda>props.
          case props of
            None \<Rightarrow> Inr []
          | Some _ \<Rightarrow> Inr (filter (jhas (b_schema b)) DROPPED_BODY_KEYWORDS)))"

section \<open>Argument names\<close>

definition body_names :: "body_spec option \<Rightarrow> flatten_error + string list" where
  "body_names body =
     (case body of
        None \<Rightarrow> Inr []
      | Some b \<Rightarrow>
          bind_res (body_properties b) (\<lambda>props.
          case props of None \<Rightarrow> Inr [BODY_ARG] | Some d \<Rightarrow> Inr (remdups (map fst d))))"

definition rename_param :: "(string, nat) pydict \<Rightarrow> parameter \<Rightarrow> parameter" where
  "rename_param counts p =
     (if (case map_of counts (p_arg p) of None \<Rightarrow> False | Some n \<Rightarrow> n > 1)
      then p\<lparr>p_arg := location_value (p_location p) @ ''_'' @ p_arg p\<rparr> else p)"

fun check_params :: "parameter list \<Rightarrow> (string, string) pydict \<Rightarrow> flatten_error + (string, string) pydict" where
  "check_params [] seen = Inr seen"
| "check_params (p # ps) seen =
     (case map_of seen (p_arg p) of
        Some other \<Rightarrow> Inl (ArgumentCollision (p_arg p) other (location_value (p_location p)))
      | None \<Rightarrow> check_params ps (AList.update (p_arg p) (location_value (p_location p)) seen))"

fun check_body_names :: "string list \<Rightarrow> (string, string) pydict \<Rightarrow> flatten_error + (string, string) pydict" where
  "check_body_names [] seen = Inr seen"
| "check_body_names (n # ns) seen =
     (case map_of seen n of
        Some other \<Rightarrow> Inl (ArgumentCollision n other ''body'')
      | None \<Rightarrow> check_body_names ns (AList.update n ''body'' seen))"

definition resolve_arg_names :: "http_binding \<Rightarrow> flatten_error + http_binding" where
  "resolve_arg_names binding =
     bind_res (check_content_type (hb_body binding)) (\<lambda>_.
     bind_res (body_names (hb_body binding)) (\<lambda>names.
     let counts = count_dict (map p_arg (hb_parameters binding) @ names);
         renamed = map (rename_param counts) (hb_parameters binding)
     in bind_res (check_params renamed []) (\<lambda>seen.
        bind_res (check_body_names (sort names) seen) (\<lambda>_.
        Inr (binding\<lparr>hb_parameters := renamed\<rparr>)))))"

section \<open>The input schema\<close>

definition finish_schema :: "jobj \<Rightarrow> json list \<Rightarrow> jobj" where
  "finish_schema props req =
     [(''type'', JStr ''object''), (''properties'', JObj props)]
     @ (if req \<noteq> [] then [(''required'', JList req)] else [])"

definition build_input_schema :: "http_binding \<Rightarrow> flatten_error + jobj" where
  "build_input_schema binding =
     bind_res (resolve_arg_names binding) (\<lambda>resolved.
     let props0 = dict_of (map (\<lambda>p. (p_arg p, JObj (p_schema p))) (hb_parameters resolved));
         req0 = map (\<lambda>p. JStr (p_arg p)) (filter p_required (hb_parameters resolved))
     in case hb_body resolved of
          None \<Rightarrow> Inr (finish_schema props0 req0)
        | Some b \<Rightarrow>
            bind_res (body_properties b) (\<lambda>bp.
            case bp of
              None \<Rightarrow> Inr (finish_schema (AList.update BODY_ARG (JObj (b_schema b)) props0) (req0 @ [JStr BODY_ARG]))
            | Some d \<Rightarrow>
                bind_res (py_iter (jget (b_schema b) ''required'' (JList []))) (\<lambda>more.
                Inr (finish_schema (fold (\<lambda>(k, v). AList.update k v) d props0) (req0 @ more)))))"

section \<open>Path templates\<close>

abbreviation path_params :: "http_binding \<Rightarrow> parameter list" where
  "path_params b \<equiv> filter (\<lambda>p. p_location p = PATH) (hb_parameters b)"

text \<open>The declarative reading of the check.\<close>

definition template_ok :: "http_binding \<Rightarrow> bool" where
  "template_ok b \<longleftrightarrow>
     distinct (placeholders (hb_path b))
     \<and> (\<forall>p \<in> set (path_params b). p_required p)
     \<and> distinct (map p_wire_name (path_params b))
     \<and> set (placeholders (hb_path b)) = p_wire_name ` set (path_params b)"

lemma declare_path_params_Cons:
  "declare_path_params (p # ps) declared = Inr declared' \<longleftrightarrow>
     (if p_location p \<noteq> PATH then declare_path_params ps declared = Inr declared'
      else p_required p \<and> p_wire_name p \<notin> dom (map_of declared)
        \<and> declare_path_params ps (AList.update (p_wire_name p) (p_arg p) declared) = Inr declared')"
  by (auto split: option.splits)

lemma declare_path_params_Inr:
  "declare_path_params ps declared = Inr declared' \<longleftrightarrow>
     (\<forall>p \<in> set ps. p_location p = PATH \<longrightarrow> p_required p)
     \<and> distinct (map p_wire_name (filter (\<lambda>p. p_location p = PATH) ps))
     \<and> p_wire_name ` set (filter (\<lambda>p. p_location p = PATH) ps) \<inter> dom (map_of declared) = {}
     \<and> declared' = fold (\<lambda>p. AList.update (p_wire_name p) (p_arg p)) (filter (\<lambda>p. p_location p = PATH) ps) declared"
proof (induction ps arbitrary: declared)
  case (Cons p ps)
  show ?case
    unfolding declare_path_params_Cons Cons.IH by (cases "p_location p = PATH") auto
qed auto

lemma fst_fold_update:
  "fst ` set (fold (\<lambda>p. AList.update (f p) (g p)) ps d) = fst ` set d \<union> f ` set ps"
  unfolding dom_map_of_conv_image_fst [symmetric] by (induction ps arbitrary: d) simp_all

lemma check_path_template_iff: "check_path_template b = Inr u \<longleftrightarrow> template_ok b"
proof -
  let ?phs = "placeholders (hb_path b)"
  show ?thesis
  proof (cases "\<exists>declared. declare_path_params (hb_parameters b) [] = Inr declared")
    case True
    then obtain declared where d: "declare_path_params (hb_parameters b) [] = Inr declared" by blast
    then have spec: "\<forall>p \<in> set (path_params b). p_required p" "distinct (map p_wire_name (path_params b))"
      and keys: "fst ` set declared = p_wire_name ` set (path_params b)"
      by (auto simp: declare_path_params_Inr fst_fold_update)
    have "filter (\<lambda>h. h \<notin> fst ` set declared) ?phs = [] \<longleftrightarrow> set ?phs \<subseteq> fst ` set declared"
      by (auto simp: filter_empty_conv)
    moreover have "filter (\<lambda>(w, _). w \<notin> set ?phs) declared = [] \<longleftrightarrow> fst ` set declared \<subseteq> set ?phs"
      by (auto simp: filter_empty_conv)
    ultimately show ?thesis
      using spec keys by (auto simp: check_path_template_def Let_def d template_ok_def)
  next
    case False
    then have "\<not> template_ok b"
      by (auto simp: declare_path_params_Inr template_ok_def)
    with False show ?thesis by (auto simp: check_path_template_def Let_def)
  qed
qed

section \<open>Arguments\<close>

lemma rename_param_frame [frame_simps, simp]:
  "p_location (rename_param c p) = p_location p"
  "p_wire_name (rename_param c p) = p_wire_name p"
  "p_required (rename_param c p) = p_required p"
  "p_schema (rename_param c p) = p_schema p"
  "p_style (rename_param c p) = p_style p"
  "p_explode (rename_param c p) = p_explode p"
  by (simp_all add: rename_param_def)

lemma check_params_Inr:
  "check_params ps seen = Inr seen' \<Longrightarrow>
     distinct (map p_arg ps) \<and> p_arg ` set ps \<inter> dom (map_of seen) = {}
     \<and> dom (map_of seen') = dom (map_of seen) \<union> p_arg ` set ps"
proof (induction ps arbitrary: seen)
  case (Cons p ps)
  then have "map_of seen (p_arg p) = None"
    and "check_params ps (AList.update (p_arg p) (location_value (p_location p)) seen) = Inr seen'"
    by (auto split: option.splits)
  with Cons.IH [of "AList.update (p_arg p) (location_value (p_location p)) seen"] show ?case
    by auto
qed simp

lemma check_body_names_Inr:
  "check_body_names ns seen = Inr seen' \<Longrightarrow> set ns \<inter> dom (map_of seen) = {}"
proof (induction ns arbitrary: seen)
  case (Cons n ns)
  then have "map_of seen n = None"
    and "check_body_names ns (AList.update n ''body'' seen) = Inr seen'"
    by (auto split: option.splits)
  with Cons.IH [of "AList.update n ''body'' seen"] show ?case
    by auto
qed simp

lemma resolve_arg_names_Inr:
  assumes "resolve_arg_names b = Inr r"
  obtains names counts where
    "body_names (hb_body b) = Inr names"
    "counts = count_dict (map p_arg (hb_parameters b) @ names)"
    "r = b\<lparr>hb_parameters := map (rename_param counts) (hb_parameters b)\<rparr>"
    "distinct (map p_arg (hb_parameters r))"
    "p_arg ` set (hb_parameters r) \<inter> set names = {}"
    "check_content_type (hb_body b) = Inr ()"
proof -
  obtain names seen seen' where n: "body_names (hb_body b) = Inr names"
    and ct: "check_content_type (hb_body b) = Inr ()"
    and c1: "check_params (map (rename_param (count_dict (map p_arg (hb_parameters b) @ names))) (hb_parameters b)) [] = Inr seen"
    and c2: "check_body_names (sort names) seen = Inr seen'"
    and r: "r = b\<lparr>hb_parameters := map (rename_param (count_dict (map p_arg (hb_parameters b) @ names))) (hb_parameters b)\<rparr>"
    using assms by (auto simp: resolve_arg_names_def Let_def)
  from check_params_Inr [OF c1] check_body_names_Inr [OF c2]
  have "distinct (map p_arg (hb_parameters r))" "p_arg ` set (hb_parameters r) \<inter> set names = {}"
    by (auto simp: r)
  then show thesis using that [OF n refl r] ct by blast
qed

lemma check_params_complete:
  "distinct (map p_arg ps) \<Longrightarrow> p_arg ` set ps \<inter> dom (map_of seen) = {} \<Longrightarrow> \<exists>seen'. check_params ps seen = Inr seen'"
proof (induction ps arbitrary: seen)
  case (Cons p ps)
  then have "\<exists>seen'. check_params ps (AList.update (p_arg p) (location_value (p_location p)) seen) = Inr seen'"
    by (intro Cons.IH) auto
  moreover have "map_of seen (p_arg p) = None" using Cons.prems(2) by auto
  ultimately show ?case by simp
qed simp

lemma check_body_names_complete:
  "distinct ns \<Longrightarrow> set ns \<inter> dom (map_of seen) = {} \<Longrightarrow> \<exists>seen'. check_body_names ns seen = Inr seen'"
proof (induction ns arbitrary: seen)
  case (Cons n ns)
  then have "\<exists>seen'. check_body_names ns (AList.update n ''body'' seen) = Inr seen'" by (intro Cons.IH) auto
  moreover have "map_of seen n = None" using Cons.prems(2) by auto
  ultimately show ?case by simp
qed simp

text \<open>Resolved names need no further renaming.\<close>

lemma resolve_arg_names_idem:
  assumes "resolve_arg_names b = Inr r"
  shows "resolve_arg_names r = Inr r"
proof -
  obtain names counts where n: "body_names (hb_body b) = Inr names" and r: "r = b\<lparr>hb_parameters := map (rename_param counts) (hb_parameters b)\<rparr>"
    and d: "distinct (map p_arg (hb_parameters r))" "p_arg ` set (hb_parameters r) \<inter> set names = {}"
    and c: "check_content_type (hb_body b) = Inr ()"
    using assms by (rule resolve_arg_names_Inr)
  have body: "hb_body r = hb_body b" by (simp add: r)
  have dn: "distinct names" using n by (auto simp: body_names_def bind_res_eq_Inr split: option.splits)
  let ?all = "map p_arg (hb_parameters r) @ names"
  have "distinct ?all" using d dn by auto
  then have one: "\<forall>a \<in> set ?all. count_list ?all a \<le> 1" by (simp only: count_list_le_1_distinct)
  have "rename_param (count_dict ?all) p = p" if "p \<in> set (hb_parameters r)" for p
  proof -
    have m: "p_arg p \<in> set ?all" using that by simp
    then have "\<not> count_list ?all (p_arg p) > 1" using one by (meson not_less)
    then show ?thesis unfolding rename_param_def map_of_count_dict [OF m] by simp
  qed
  then have same: "map (rename_param (count_dict ?all)) (hb_parameters r) = hb_parameters r" by (rule map_idI)
  obtain seen where s: "check_params (hb_parameters r) [] = Inr seen"
    using check_params_complete [OF d(1), of "[]"] by auto
  have "dom (map_of seen) = p_arg ` set (hb_parameters r)" using check_params_Inr [OF s] by simp
  then obtain seen' where "check_body_names (sort names) seen = Inr seen'"
    using check_body_names_complete [of "sort names" seen] dn d(2) by auto
  then show ?thesis using s same n c by (simp add: resolve_arg_names_def body)
qed

lemma resolve_arg_names_frame:
  assumes "resolve_arg_names b = Inr r"
  shows "hb_method r = hb_method b" "hb_path r = hb_path b" "hb_body r = hb_body b"
    and "map p_wire_name (hb_parameters r) = map p_wire_name (hb_parameters b)"
    and "map p_location (hb_parameters r) = map p_location (hb_parameters b)"
    and "map p_required (hb_parameters r) = map p_required (hb_parameters b)"
  using assms by (rule resolve_arg_names_Inr, simp add: comp_def)+

lemma resolve_arg_names_params:
  assumes "resolve_arg_names b = Inr r"
  shows "\<exists>c. hb_parameters r = map (rename_param c) (hb_parameters b)"
  using assms by (rule resolve_arg_names_Inr) (auto intro: exI)

lemma filter_location_wire:
  "map p_location ps = map p_location qs \<Longrightarrow> map p_wire_name ps = map p_wire_name qs \<Longrightarrow>
   map p_wire_name (filter (\<lambda>p. p_location p = PATH) ps) = map p_wire_name (filter (\<lambda>p. p_location p = PATH) qs)"
proof (induction ps arbitrary: qs)
  case (Cons p ps)
  then show ?case by (cases qs) auto
qed simp

text \<open>Renaming arguments does not disturb the template: the wire names are what it is about.\<close>

lemma resolve_keeps_template:
  assumes "template_ok b" "resolve_arg_names b = Inr r"
  shows "template_ok r"
proof -
  note f = resolve_arg_names_frame [OF assms(2)]
  have w: "map p_wire_name (path_params r) = map p_wire_name (path_params b)"
    by (rule filter_location_wire) (rule f)+
  then have "p_wire_name ` set (path_params r) = p_wire_name ` set (path_params b)"
    by (metis list.set_map)
  moreover have "\<forall>p \<in> set (path_params r). p_required p"
  proof -
    obtain c where "hb_parameters r = map (rename_param c) (hb_parameters b)"
      using resolve_arg_names_params [OF assms(2)] by blast
    then show ?thesis using assms(1) by (auto simp: template_ok_def)
  qed
  ultimately show ?thesis using assms(1) f(2) w by (simp add: template_ok_def)
qed

section \<open>Properties\<close>

text \<open>The path-template check accepts exactly the templates in which every placeholder occurs once and
  is the wire name of one path parameter, every path parameter is required and has a placeholder,
  and no two path parameters share a wire name.\<close>

theorem check_path_template_exact:
  "check_path_template b = Inr () \<longleftrightarrow>
     distinct (placeholders (hb_path b))
     \<and> (\<forall>p \<in> set (path_params b). p_required p)
     \<and> distinct (map p_wire_name (path_params b))
     \<and> set (placeholders (hb_path b)) = p_wire_name ` set (path_params b)"
  by (simp add: check_path_template_iff template_ok_def)

definition sample_path_binding :: http_binding where
  "sample_path_binding =
     \<lparr>hb_method = ''GET'', hb_path = ''/a/{id}'',
      hb_parameters = [\<lparr>p_arg = ''id'', p_location = PATH, p_wire_name = ''id'', p_required = True,
                        p_schema = [], p_style = FORM, p_explode = False\<rparr>,
                       \<lparr>p_arg = ''id'', p_location = QUERY, p_wire_name = ''id'', p_required = False,
                        p_schema = [], p_style = FORM, p_explode = True\<rparr>],
      hb_body = None\<rparr>"

theorem check_path_template_exact_witness: "check_path_template sample_path_binding = Inr ()"
  unfolding check_path_template_exact by (simp add: sample_path_binding_def)

text \<open>Resolving argument names makes them unambiguous and touches nothing else: distinct from each other
  and from every body argument, while method, path, body, and the wire name, location and
  requiredness of every parameter stay as declared, in order.\<close>

theorem resolve_arg_names_unambiguous:
  assumes "resolve_arg_names b = Inr r"
  shows "distinct (map p_arg (hb_parameters r))
         \<and> (\<exists>names. body_names (hb_body b) = Inr names \<and> p_arg ` set (hb_parameters r) \<inter> set names = {})
         \<and> hb_method r = hb_method b \<and> hb_path r = hb_path b \<and> hb_body r = hb_body b
         \<and> map p_wire_name (hb_parameters r) = map p_wire_name (hb_parameters b)
         \<and> map p_location (hb_parameters r) = map p_location (hb_parameters b)
         \<and> map p_required (hb_parameters r) = map p_required (hb_parameters b)"
  using resolve_arg_names_frame [OF assms] by (rule_tac resolve_arg_names_Inr [OF assms]) blast

theorem resolve_arg_names_unambiguous_witness: "distinct [''path_id'', ''query_id'']"
proof -
  have r: "resolve_arg_names sample_path_binding = Inr (sample_path_binding\<lparr>hb_parameters :=
      [\<lparr>p_arg = ''path_id'', p_location = PATH, p_wire_name = ''id'', p_required = True,
        p_schema = [], p_style = FORM, p_explode = False\<rparr>,
       \<lparr>p_arg = ''query_id'', p_location = QUERY, p_wire_name = ''id'', p_required = False,
        p_schema = [], p_style = FORM, p_explode = True\<rparr>]\<rparr>)"
    by code_simp
  show ?thesis using resolve_arg_names_unambiguous [OF r] by simp
qed

end
