(* ===== verification/BuildRequest.thy ===== *)
theory BuildRequest
  imports Flatten
begin

text \<open>
  The pure half of the HTTP transport (\<open>transports/http.py\<close>): from validated arguments to a prepared
  request. This is where model-supplied values become a URL, headers and a body. \<open>BadSchema\<close> is the
  \<open>TypeError\<close> of iterating a \<open>properties\<close> or \<open>required\<close> that is not iterable; the other
  constructors are the messages of \<open>RequestBuildError\<close>.
\<close>

record credential =
  cred_header :: string
  cred_value :: string

record prepared_request =
  req_method :: string
  req_url :: string
  req_headers :: "(string, string) pydict"
  req_body :: "string option"

datatype build_error =
    EmptyPathValue string
  | MissingArgument string
  | HeaderInjection string
  | BadSchema flatten_error

section \<open>Definitions\<close>

definition encode_path_value :: "string \<Rightarrow> json \<Rightarrow> build_error + string" where
  "encode_path_value arg value =
     (let text = py_str value in if text = [] then Inl (EmptyPathValue arg) else Inr (quote text))"

definition query_pairs :: "string \<Rightarrow> json \<Rightarrow> bool \<Rightarrow> (string \<times> string) list" where
  "query_pairs arg value explode =
     (case value of
        JList vs \<Rightarrow>
          (let items = map py_str vs
           in if explode then map (\<lambda>v. (arg, v)) items else [(arg, str_join '','' items)])
      | JBool b \<Rightarrow> [(arg, if b then ''true'' else ''false'')]
      | _ \<Rightarrow> [(arg, py_str value)])"

definition check_header_value :: "string \<Rightarrow> string \<Rightarrow> build_error + string" where
  "check_header_value name value =
     (if CHR 0x0D \<in> set value \<or> CHR 0x0A \<in> set value then Inl (HeaderInjection name) else Inr value)"

definition join_url :: "string \<Rightarrow> string \<Rightarrow> string" where
  "join_url base_url path =
     str_rstrip_chars (\<lambda>c. c = CHR ''/'') base_url @ ''/''
     @ str_lstrip_chars (\<lambda>c. c = CHR ''/'') path"

record request_parts =
  rp_path :: string
  rp_query :: "(string \<times> string) list"
  rp_headers :: "(string, string) pydict"

definition add_param :: "jobj \<Rightarrow> parameter \<Rightarrow> request_parts \<Rightarrow> build_error + request_parts" where
  "add_param arguments param parts =
     (case map_of arguments (p_arg param) of
        None \<Rightarrow> if p_required param then Inl (MissingArgument (p_arg param)) else Inr parts
      | Some value \<Rightarrow>
          (case p_location param of
             PATH \<Rightarrow>
               bind_res (encode_path_value (p_arg param) value) (\<lambda>enc.
               Inr (parts\<lparr>rp_path := str_replace (''{'' @ p_wire_name param @ ''}'') enc (rp_path parts)\<rparr>))
           | QUERY \<Rightarrow>
               Inr (parts\<lparr>rp_query := rp_query parts
                             @ query_pairs (p_wire_name param) value (p_explode param)\<rparr>)
           | HEADER \<Rightarrow>
               bind_res (check_header_value (p_wire_name param) (py_str value)) (\<lambda>h.
               Inr (parts\<lparr>rp_headers := AList.update (p_wire_name param) h (rp_headers parts)\<rparr>))))"

fun add_params :: "jobj \<Rightarrow> parameter list \<Rightarrow> request_parts \<Rightarrow> build_error + request_parts" where
  "add_params arguments [] parts = Inr parts"
| "add_params arguments (p # ps) parts =
     bind_res (add_param arguments p parts) (\<lambda>parts'. add_params arguments ps parts')"

definition lift_schema :: "flatten_error + 'a \<Rightarrow> build_error + 'a" where
  "lift_schema r = (case r of Inl e \<Rightarrow> Inl (BadSchema e) | Inr x \<Rightarrow> Inr x)"

fun check_required :: "jobj \<Rightarrow> jobj \<Rightarrow> json list \<Rightarrow> build_error + unit" where
  "check_required arguments body_fields [] = Inr ()"
| "check_required arguments body_fields (name # names) =
     (case name of
        JStr n \<Rightarrow>
          if \<not> jhas arguments n \<or> \<not> jhas body_fields n then Inl (MissingArgument n)
          else check_required arguments body_fields names
      | _ \<Rightarrow> Inl (MissingArgument (py_str name)))"

definition build_body :: "body_spec option \<Rightarrow> jobj \<Rightarrow> build_error + json option" where
  "build_body body arguments =
     (case body of
        None \<Rightarrow> Inr None
      | Some b \<Rightarrow>
          if b_mode b = SINGLE_ARG \<or> jget (b_schema b) ''type'' JNull \<noteq> JStr ''object''
          then (case map_of arguments ''body'' of
                  None \<Rightarrow> Inl (MissingArgument ''body'')
                | Some v \<Rightarrow> Inr (Some v))
          else
            bind_res (lift_schema (py_iter (jget (b_schema b) ''properties'' (JObj [])))) (\<lambda>declared.
            let body_fields = filter (\<lambda>(k, v). JStr k \<in> set declared) arguments
            in bind_res (lift_schema (py_iter (jget (b_schema b) ''required'' (JList [])))) (\<lambda>required.
               bind_res (check_required arguments body_fields required) (\<lambda>_.
               Inr (Some (JObj body_fields))))))"

definition build_request ::
    "http_binding \<Rightarrow> string \<Rightarrow> jobj \<Rightarrow> credential option \<Rightarrow> build_error + prepared_request" where
  "build_request binding base_url arguments credential =
     bind_res (add_params arguments (hb_parameters binding)
                 \<lparr>rp_path = hb_path binding, rp_query = [], rp_headers = []\<rparr>) (\<lambda>parts.
     bind_res (build_body (hb_body binding) arguments) (\<lambda>body.
     let headers1 = (case hb_body binding of
                       None \<Rightarrow> rp_headers parts
                     | Some b \<Rightarrow> AList.update ''Content-Type'' (b_content_type b) (rp_headers parts));
         url = join_url base_url (rp_path parts)
               @ (if rp_query parts \<noteq> [] then ''?'' @ urlencode (rp_query parts) else []);
         headers2 = (case credential of
                       None \<Rightarrow> headers1
                     | Some c \<Rightarrow> AList.update (cred_header c) (cred_value c) headers1)
     in Inr \<lparr>req_method = hb_method binding, req_url = url, req_headers = headers2,
             req_body = map_option (\<lambda>v. utf8_encode (json_dumps v)) body\<rparr>))"

section \<open>Path templates as segments\<close>

text \<open>
  A path whose braces all belong to placeholders is a list of segments. Filling every hole at once
  is the specification of the loop's successive \<open>str.replace\<close> calls.
\<close>

datatype segment = LitSeg string | Hole string

primrec render_segment :: "segment \<Rightarrow> string" where
  "render_segment (LitSeg s) = s"
| "render_segment (Hole h) = CHR 0x7B # h @ [CHR 0x7D]"

definition render :: "segment list \<Rightarrow> string" where
  "render segs = concat (map render_segment segs)"

fun parse_template :: "string \<Rightarrow> segment list option" where
  "parse_template [] = Some []"
| "parse_template (c # cs) =
     (if c = CHR 0x7B
      then (case dropWhile not_brace cs of
              [] \<Rightarrow> None
            | d # rest \<Rightarrow>
                if d = CHR 0x7D
                then map_option (Cons (Hole (takeWhile not_brace cs))) (parse_template rest)
                else None)
      else if c = CHR 0x7D then None
      else map_option (Cons (LitSeg [c])) (parse_template cs))"

definition no_brace :: "string \<Rightarrow> bool" where
  "no_brace s = list_all not_brace s"

primrec wf_segment :: "segment \<Rightarrow> bool" where
  "wf_segment (LitSeg s) = no_brace s"
| "wf_segment (Hole h) = no_brace h"

primrec fill_segment :: "(string \<Rightarrow> string) \<Rightarrow> segment \<Rightarrow> string" where
  "fill_segment f (LitSeg s) = s"
| "fill_segment f (Hole h) = f h"

definition fill :: "(string \<Rightarrow> string) \<Rightarrow> segment list \<Rightarrow> string" where
  "fill f segs = concat (map (fill_segment f) segs)"

primrec subst_segment :: "(string \<rightharpoonup> string) \<Rightarrow> segment \<Rightarrow> segment" where
  "subst_segment m (LitSeg s) = LitSeg s"
| "subst_segment m (Hole h) = (case m h of None \<Rightarrow> Hole h | Some v \<Rightarrow> LitSeg v)"

definition holes :: "segment list \<Rightarrow> string list" where
  "holes segs = concat (map (\<lambda>s. case s of Hole h \<Rightarrow> [h] | LitSeg _ \<Rightarrow> []) segs)"

lemma render_simps [simp]:
  "render [] = []" "render (LitSeg s # segs) = s @ render segs"
  "render (Hole h # segs) = CHR 0x7B # h @ CHR 0x7D # render segs"
  by (simp_all add: render_def)

lemma holes_simps [simp]:
  "holes [] = []" "holes (LitSeg s # segs) = holes segs" "holes (Hole h # segs) = h # holes segs"
  by (simp_all add: holes_def)

lemma no_brace_simps [simp]:
  "no_brace []" "no_brace (c # cs) \<longleftrightarrow> not_brace c \<and> no_brace cs"
  "no_brace (s @ t) \<longleftrightarrow> no_brace s \<and> no_brace t"
  by (auto simp: no_brace_def)

lemma no_brace_takeWhile: "no_brace (takeWhile not_brace cs)"
  by (induction cs) auto

lemma parse_template_render:
  "parse_template s = Some segs \<Longrightarrow> render segs = s \<and> list_all wf_segment segs"
proof (induction s arbitrary: segs rule: parse_template.induct)
  case (2 c cs)
  show ?case
  proof (cases "c = CHR 0x7B")
    case True
    then obtain rest segs' where d: "dropWhile not_brace cs = CHR 0x7D # rest"
      and p: "parse_template rest = Some segs'" and s: "segs = Hole (takeWhile not_brace cs) # segs'"
      using "2.prems" by (auto split: list.splits if_splits)
    have "cs = takeWhile not_brace cs @ CHR 0x7D # rest"
      by (metis d takeWhile_dropWhile_id)
    then show ?thesis
      using "2.IH"(1) [OF True d _ p] True s no_brace_takeWhile by simp
  next
    case False
    then show ?thesis using "2.prems" "2.IH"(2) by (auto split: if_splits)
  qed
qed simp

lemma takeWhile_no_brace: "no_brace h \<Longrightarrow> takeWhile not_brace (h @ CHR 0x7D # t) = h"
  by (induction h) auto

lemma dropWhile_no_brace: "no_brace h \<Longrightarrow> dropWhile not_brace (h @ CHR 0x7D # t) = CHR 0x7D # t"
  by (induction h) auto

lemma placeholders_skip: "no_brace s \<Longrightarrow> placeholders (s @ t) = placeholders t"
  by (induction s) auto

lemma placeholders_render: "list_all wf_segment segs \<Longrightarrow> placeholders (render segs) = holes segs"
proof (induction segs)
  case (Cons s segs)
  then show ?case
    by (cases s) (simp_all add: placeholders_skip takeWhile_no_brace dropWhile_no_brace)
qed simp

lemma wf_holes: "list_all wf_segment segs \<Longrightarrow> h \<in> set (holes segs) \<Longrightarrow> no_brace h"
proof (induction segs)
  case (Cons s segs)
  then show ?case by (cases s) auto
qed simp

subsection \<open>One replacement\<close>

abbreviation braced :: "string \<Rightarrow> string" where
  "braced h \<equiv> CHR 0x7B # h @ [CHR 0x7D]"

lemma replace_skip: "no_brace s \<Longrightarrow> str_replace (braced h) v (s @ t) = s @ str_replace (braced h) v t"
  by (induction s) (auto simp: starts_with_def)

lemma braced_prefix:
  assumes "no_brace g" "no_brace h" "g @ CHR 0x7D # t = h @ CHR 0x7D # u"
  shows "g = h"
  by (metis assms takeWhile_no_brace)

lemma replace_other:
  assumes "no_brace g" "no_brace h" "g \<noteq> h"
  shows "str_replace (braced h) v (CHR 0x7B # g @ CHR 0x7D # t) = CHR 0x7B # g @ CHR 0x7D # str_replace (braced h) v t"
proof -
  have "\<not> starts_with (braced h) (CHR 0x7B # g @ CHR 0x7D # t)"
    using braced_prefix [OF assms(1,2)] assms(3) by (auto simp: starts_with_iff)
  then have "str_replace (braced h) v (CHR 0x7B # g @ CHR 0x7D # t)
      = CHR 0x7B # str_replace (braced h) v (g @ CHR 0x7D # t)"
    by simp
  also have "str_replace (braced h) v (g @ CHR 0x7D # t) = g @ str_replace (braced h) v (CHR 0x7D # t)"
    by (rule replace_skip [OF assms(1)])
  also have "str_replace (braced h) v (CHR 0x7D # t) = CHR 0x7D # str_replace (braced h) v t"
    by (simp add: starts_with_def)
  finally show ?thesis .
qed

lemma replace_same:
  "str_replace (braced h) v (CHR 0x7B # h @ CHR 0x7D # t) = v @ str_replace (braced h) v t"
  by (simp add: starts_with_def)

lemma replace_render:
  assumes "list_all wf_segment segs" "no_brace h"
  shows "str_replace (braced h) v (render segs) = render (map (subst_segment [h \<mapsto> v]) segs)"
  using assms(1)
proof (induction segs)
  case (Cons s segs)
  show ?case
  proof (cases s)
    case (LitSeg l)
    then show ?thesis using Cons by (simp add: replace_skip)
  next
    case (Hole g)
    then show ?thesis
      using Cons assms(2) by (cases "g = h") (simp_all add: replace_other replace_same del: str_replace.simps)
  qed
qed simp

lemma subst_subst:
  "subst_segment n (subst_segment m s) = subst_segment (n ++ m) s"
  by (cases s) (auto simp: map_add_def split: option.splits)

lemma wf_subst: "wf_segment s \<Longrightarrow> (\<And>h v. m h = Some v \<Longrightarrow> no_brace v) \<Longrightarrow> wf_segment (subst_segment m s)"
  by (cases s) (auto split: option.splits)

lemma render_subst_total:
  assumes "\<And>h. h \<in> set (holes segs) \<Longrightarrow> m h = Some (f h)"
  shows "render (map (subst_segment m) segs) = fill f segs"
  using assms
proof (induction segs)
  case (Cons s segs)
  then show ?case by (cases s) (auto simp: fill_def)
qed (simp add: fill_def)

section \<open>What the parameter loop computes\<close>

primrec path_map :: "jobj \<Rightarrow> parameter list \<Rightarrow> string \<rightharpoonup> string" where
  "path_map arguments [] = Map.empty"
| "path_map arguments (p # ps) =
     (if p_location p = PATH
      then (case map_of arguments (p_arg p) of
              None \<Rightarrow> path_map arguments ps
            | Some v \<Rightarrow> (path_map arguments ps)(p_wire_name p \<mapsto> quote (py_str v)))
      else path_map arguments ps)"

lemma path_map_Some:
  "path_map arguments ps w = Some x \<Longrightarrow>
   \<exists>p v. p \<in> set ps \<and> p_location p = PATH \<and> p_wire_name p = w
     \<and> map_of arguments (p_arg p) = Some v \<and> x = quote (py_str v)"
  by (induction ps) (auto split: if_splits option.splits)

lemma path_map_lookup:
  assumes "p \<in> set ps" "p_location p = PATH" "map_of arguments (p_arg p) = Some v"
    and "distinct (map p_wire_name (filter (\<lambda>p. p_location p = PATH) ps))"
  shows "path_map arguments ps (p_wire_name p) = Some (quote (py_str v))"
  using assms
proof (induction ps)
  case (Cons q qs)
  show ?case
  proof (cases "p = q")
    case True
    then show ?thesis using Cons.prems by simp
  next
    case False
    then have "p \<in> set qs" using Cons.prems(1) by simp
    moreover from this have "p_location q = PATH \<Longrightarrow> p_wire_name q \<noteq> p_wire_name p"
      using Cons.prems(2,4) by auto
    ultimately show ?thesis
      using Cons by (cases "p_location q = PATH") (auto split: option.splits)
  qed
qed simp

lemma quote_no_brace: "no_brace (quote s)"
  using quote_chars [of _ s] not_unreserved by (auto simp: no_brace_def list_all_iff)

lemma path_map_no_brace: "path_map arguments ps w = Some x \<Longrightarrow> no_brace x"
  by (auto dest!: path_map_Some simp: quote_no_brace)

lemma add_param_path:
  assumes "add_param arguments p parts = Inr parts'" "rp_path parts = render segs"
    and "list_all wf_segment segs" "p_location p = PATH \<Longrightarrow> no_brace (p_wire_name p)"
  shows "rp_path parts' = render (map (subst_segment (path_map arguments [p])) segs)"
proof -
  have id: "map (subst_segment Map.empty) segs = segs"
    by (rule map_idI) (metis subst_segment.simps segment.exhaust option.simps(4))
  show ?thesis
    using assms replace_render [OF assms(3), of "p_wire_name p"]
    by (auto simp: add_param_def encode_path_value_def id Let_def
        split: option.splits param_location.splits if_splits)
qed

lemma add_params_path:
  assumes "add_params arguments ps parts = Inr parts'" "rp_path parts = render segs"
    and "list_all wf_segment segs" "\<And>p. p \<in> set ps \<Longrightarrow> p_location p = PATH \<Longrightarrow> no_brace (p_wire_name p)"
  shows "rp_path parts' = render (map (subst_segment (path_map arguments ps)) segs)"
  using assms
proof (induction ps arbitrary: parts segs)
  case Nil
  have "map (subst_segment Map.empty) segs = segs"
    by (rule map_idI) (metis subst_segment.simps segment.exhaust option.simps(4))
  then show ?case using Nil by simp
next
  case (Cons p ps)
  let ?segs = "map (subst_segment (path_map arguments [p])) segs"
  obtain parts1 where p1: "add_param arguments p parts = Inr parts1"
    and p2: "add_params arguments ps parts1 = Inr parts'"
    using Cons.prems(1) by auto
  have r1: "rp_path parts1 = render ?segs"
    by (rule add_param_path [OF p1 Cons.prems(2,3)]) (use Cons.prems(4) in simp)
  have w1: "list_all wf_segment ?segs"
    using Cons.prems(3)
    by (auto simp: list_all_iff simp del: path_map.simps intro!: wf_subst dest: path_map_no_brace)
  have m: "path_map arguments ps ++ path_map arguments [p] = path_map arguments (p # ps)"
    by (auto simp: map_add_def fun_eq_iff split: option.splits)
  show ?case
    using Cons.IH [OF p2 r1 w1] Cons.prems(4) by (simp add: comp_def subst_subst m del: path_map.simps)
qed

lemma add_params_required:
  assumes "add_params arguments ps parts = Inr parts'" "p \<in> set ps" "p_required p"
  shows "\<exists>v. map_of arguments (p_arg p) = Some v"
  using assms
proof (induction ps arbitrary: parts)
  case (Cons q qs)
  then show ?case by (auto simp: add_param_def split: option.splits)
qed simp

lemma add_params_path_value:
  assumes "add_params arguments ps parts = Inr parts'" "p \<in> set ps" "p_location p = PATH"
    and "map_of arguments (p_arg p) = Some v"
  shows "py_str v \<noteq> []"
  using assms
proof (induction ps arbitrary: parts)
  case (Cons q qs)
  then show ?case by (auto simp: add_param_def encode_path_value_def Let_def split: option.splits if_splits)
qed simp

text \<open>The header dictionary: its keys are wire names of header parameters, its values free of line breaks.\<close>

definition clean_headers :: "parameter list \<Rightarrow> (string, string) pydict \<Rightarrow> bool" where
  "clean_headers ps hs \<longleftrightarrow>
     (\<forall>n v. map_of hs n = Some v \<longrightarrow>
        CHR 0x0D \<notin> set v \<and> CHR 0x0A \<notin> set v
        \<and> (\<exists>p \<in> set ps. p_location p = HEADER \<and> p_wire_name p = n))"

lemma add_param_headers:
  assumes "add_param arguments p parts = Inr parts'" "clean_headers all (rp_headers parts)" "p \<in> set all"
  shows "clean_headers all (rp_headers parts')"
  using assms
  by (fastforce simp: add_param_def clean_headers_def check_header_value_def update_conv'
      split: option.splits param_location.splits if_splits)

lemma add_params_headers:
  assumes "add_params arguments ps parts = Inr parts'" "clean_headers all (rp_headers parts)" "set ps \<subseteq> set all"
  shows "clean_headers all (rp_headers parts')"
  using assms
proof (induction ps arbitrary: parts)
  case (Cons p ps)
  then show ?case by (auto dest: add_param_headers)
qed simp

lemma build_request_Inr:
  assumes "build_request b base args cred = Inr req"
  obtains parts body where
    "add_params args (hb_parameters b) \<lparr>rp_path = hb_path b, rp_query = [], rp_headers = []\<rparr> = Inr parts"
    "build_body (hb_body b) args = Inr body"
    "req_url req = join_url base (rp_path parts)
       @ (if rp_query parts \<noteq> [] then ''?'' @ urlencode (rp_query parts) else [])"
    "req_headers req =
       (case cred of None \<Rightarrow> \<lambda>h. h | Some c \<Rightarrow> AList.update (cred_header c) (cred_value c))
         ((case hb_body b of None \<Rightarrow> \<lambda>h. h
           | Some bd \<Rightarrow> AList.update ''Content-Type'' (b_content_type bd)) (rp_headers parts))"
    "req_method req = hb_method b"
    "req_body req = map_option (\<lambda>v. utf8_encode (json_dumps v)) body"
  using assms by (fastforce simp: build_request_def Let_def split: option.splits)

lemma build_body_flat:
  assumes "build_body (Some bd) args = Inr body"
    and "b_mode bd = FLATTEN" "map_of (b_schema bd) ''type'' = Some (JStr ''object'')"
    and "map_of (b_schema bd) ''properties'' = Some (JObj props)"
  shows "body = Some (JObj (filter (\<lambda>(k, v). k \<in> fst ` set props) args))"
proof -
  have "(JStr k \<in> (\<lambda>(k, _). JStr k) ` set props) = (k \<in> fst ` set props)" for k
    by force
  then show ?thesis using assms by (auto simp: build_body_def jget_def lift_schema_def)
qed

section \<open>Query strings\<close>

text \<open>A reference parser for the query string, as a server applies it.\<close>

fun split_at :: "char \<Rightarrow> string \<Rightarrow> string list" where
  "split_at d [] = [[]]"
| "split_at d (c # cs) =
     (if c = d then [] # split_at d cs
      else (case split_at d cs of [] \<Rightarrow> [[c]] | s # ss \<Rightarrow> (c # s) # ss))"

definition parse_pair :: "string \<Rightarrow> string \<times> string" where
  "parse_pair s =
     (utf8_decode (unquote_plus (takeWhile (\<lambda>c. c \<noteq> CHR ''='') s)),
      utf8_decode (unquote_plus (tl (dropWhile (\<lambda>c. c \<noteq> CHR ''='') s))))"

definition parse_query :: "string \<Rightarrow> (string \<times> string) list" where
  "parse_query q = map parse_pair (split_at (CHR ''&'') q)"

lemma split_at_not_Nil [simp]: "split_at d s \<noteq> []"
  by (cases s) (auto split: list.splits)

lemma split_at_append: "d \<notin> set s \<Longrightarrow> split_at d (s @ d # t) = s # split_at d t"
  by (induction s) (auto split: list.splits)

lemma split_at_single: "d \<notin> set s \<Longrightarrow> split_at d s = [s]"
  by (induction s) auto

lemma split_at_join:
  assumes "ss \<noteq> []" "\<forall>s \<in> set ss. d \<notin> set s"
  shows "split_at d (str_join [d] ss) = ss"
  using assms by (induction "[d]" ss rule: str_join.induct) (auto simp: split_at_single split_at_append)

lemma quote_plus_safe: "CHR ''&'' \<notin> set (quote_plus s)" "CHR ''='' \<notin> set (quote_plus s)"
  using quote_plus_chars [of _ s] not_unreserved by fastforce+

lemma parse_pair_encode: "parse_pair (quote_plus k @ ''='' @ quote_plus v) = (k, v)"
proof -
  have t: "takeWhile (\<lambda>c. c \<noteq> CHR ''='') (quote_plus k @ CHR ''='' # quote_plus v) = quote_plus k"
    and d: "dropWhile (\<lambda>c. c \<noteq> CHR ''='') (quote_plus k @ CHR ''='' # quote_plus v) = CHR ''='' # quote_plus v"
    using quote_plus_safe(2) [of k] by (auto simp: takeWhile_append2 dropWhile_append2 takeWhile_append dropWhile_append)
  show ?thesis by (simp add: parse_pair_def t d unquote_plus_quote_plus utf8_decode_encode)
qed

section \<open>Arguments that satisfy the tool schema\<close>

definition schema_required :: "jobj \<Rightarrow> json list" where
  "schema_required schema = (case jget schema ''required'' (JList []) of JList rs \<Rightarrow> rs | _ \<Rightarrow> [])"

text \<open>The body's \<open>required\<close> names are among its declared \<open>properties\<close>.\<close>

definition body_consistent :: "body_spec \<Rightarrow> bool" where
  "body_consistent bd \<longleftrightarrow>
     (case (py_iter (jget (b_schema bd) ''properties'' (JObj [])), py_iter (jget (b_schema bd) ''required'' (JList []))) of
        (Inr props, Inr req) \<Rightarrow> (\<forall>r \<in> set req. (\<exists>n. r = JStr n) \<and> r \<in> set props)
      | _ \<Rightarrow> True)"

lemma schema_required_finish [simp]: "schema_required (finish_schema props req) = req"
  by (simp add: schema_required_def jget_def finish_schema_def)

lemma add_param_Inl:
  assumes "add_param args p parts = Inl e" "p_required p \<Longrightarrow> jhas args (p_arg p)"
  shows "\<exists>n. e = EmptyPathValue n \<or> e = HeaderInjection n"
proof (cases "map_of args (p_arg p)")
  case None
  then show ?thesis using assms by (auto simp: add_param_def jhas_def split: if_splits)
next
  case (Some v)
  then show ?thesis
    using assms(1)
    by (cases "p_location p")
      (auto simp: add_param_def bind_res_eq_Inl encode_path_value_def check_header_value_def Let_def split: if_splits)
qed

lemma add_params_Inl:
  assumes "add_params args ps parts = Inl e"
    and "\<And>p. p \<in> set ps \<Longrightarrow> p_required p \<Longrightarrow> jhas args (p_arg p)"
  shows "\<exists>n. e = EmptyPathValue n \<or> e = HeaderInjection n"
  using assms
proof (induction ps arbitrary: parts)
  case (Cons p ps)
  show ?case
  proof (cases "add_param args p parts")
    case (Inl e')
    then show ?thesis using Cons.prems add_param_Inl [OF Inl] by simp
  next
    case (Inr parts')
    then show ?thesis using Cons.prems Cons.IH [of parts'] by simp
  qed
qed simp

lemma check_required_Inr:
  assumes "\<And>r. r \<in> set rs \<Longrightarrow> \<exists>n. r = JStr n \<and> jhas args n \<and> jhas given n"
  shows "check_required args given rs = Inr ()"
  using assms by (induction rs) fastforce+

lemma jhas_filter: "jhas (filter (\<lambda>(k, v). P k) d) n \<longleftrightarrow> jhas d n \<and> P n"
  by (auto simp: jhas_iff)

lemma build_input_schema_required:
  assumes "build_input_schema b0 = Inr schema" "resolve_arg_names b0 = Inr b"
  shows "p \<in> set (hb_parameters b) \<Longrightarrow> p_required p \<Longrightarrow> JStr (p_arg p) \<in> set (schema_required schema)"
    and "hb_body b = Some bd \<Longrightarrow> body_properties bd = Inr None \<Longrightarrow> JStr BODY_ARG \<in> set (schema_required schema)"
    and "hb_body b = Some bd \<Longrightarrow> body_properties bd = Inr (Some d) \<Longrightarrow>
         \<exists>more. py_iter (jget (b_schema bd) ''required'' (JList [])) = Inr more \<and> set more \<subseteq> set (schema_required schema)"
    and "hb_body b = Some bd \<Longrightarrow> \<exists>props. body_properties bd = Inr props"
  using assms
  by (auto simp: build_input_schema_def Let_def split: option.splits)

lemma build_body_Inl:
  assumes schema: "build_input_schema b0 = Inr schema" and res: "resolve_arg_names b0 = Inr b"
    and args: "\<And>n. JStr n \<in> set (schema_required schema) \<Longrightarrow> jhas args n"
    and cons: "\<And>bd. hb_body b = Some bd \<Longrightarrow> body_consistent bd"
  shows "\<exists>v. build_body (hb_body b) args = Inr v"
proof (cases "hb_body b")
  case None
  then show ?thesis by (simp add: build_body_def)
next
  case (Some bd)
  note req = build_input_schema_required [OF schema res]
  obtain props where props: "body_properties bd = Inr props" using req(4) [OF Some] by blast
  show ?thesis
  proof (cases props)
    case None
    then have "JStr BODY_ARG \<in> set (schema_required schema)" using req(2) [OF Some] props by simp
    then have "jhas args ''body''" using args by (simp add: BODY_ARG_def)
    then show ?thesis
      using props None Some
      by (auto simp: build_body_def body_properties_def jhas_def split: if_splits)
  next
    case (Some d)
    obtain more where more: "py_iter (jget (b_schema bd) ''required'' (JList [])) = Inr more"
      and sub: "set more \<subseteq> set (schema_required schema)"
      using req(3) [OF \<open>hb_body b = Some bd\<close>] props Some by blast
    have flat: "b_mode bd \<noteq> SINGLE_ARG" "jget (b_schema bd) ''type'' JNull = JStr ''object''"
      and d: "py_dict (jget (b_schema bd) ''properties'' (JObj [])) = Inr d"
      using props Some by (auto simp: body_properties_def split: if_splits)
    obtain declared where decl: "py_iter (jget (b_schema bd) ''properties'' (JObj [])) = Inr declared"
      using d by (auto elim!: py_dict.elims)
    have "check_required args (filter (\<lambda>(k, v). JStr k \<in> set declared) args) more = Inr ()"
    proof (rule check_required_Inr)
      fix r
      assume "r \<in> set more"
      then obtain n where "r = JStr n" "r \<in> set declared"
        using cons [OF \<open>hb_body b = Some bd\<close>] by (auto simp: body_consistent_def decl more)
      then show "\<exists>n. r = JStr n \<and> jhas args n \<and> jhas (filter (\<lambda>(k, v). JStr k \<in> set declared) args) n"
        using args sub \<open>r \<in> set more\<close> by (auto simp: jhas_filter)
    qed
    then show ?thesis
      using flat by (simp add: build_body_def \<open>hb_body b = Some bd\<close> decl more lift_schema_def Let_def)
  qed
qed

section \<open>Properties\<close>

definition sample_param :: "string \<Rightarrow> param_location \<Rightarrow> bool \<Rightarrow> parameter" where
  "sample_param n loc req =
     \<lparr>p_arg = n, p_location = loc, p_wire_name = n, p_required = req,
      p_schema = [(''type'', JStr ''string'')], p_style = FORM, p_explode = True\<rparr>"

definition sample_binding :: http_binding where
  "sample_binding =
     \<lparr>hb_method = ''POST'', hb_path = ''/c/{id}/t'',
      hb_parameters = [sample_param ''id'' PATH True, sample_param ''q'' QUERY False, sample_param ''X-T'' HEADER False],
      hb_body = Some \<lparr>b_content_type = ''application/json'',
                      b_schema = [(''type'', JStr ''object''),
                                  (''properties'', JObj [(''n'', JObj [])]), (''required'', JList [JStr ''n''])],
                      b_mode = FLATTEN\<rparr>\<rparr>"

lemmas sample_defs = sample_binding_def sample_param_def

lemma sample_template: "check_path_template sample_binding = Inr ()"
  by code_simp

lemma sample_segments:
  "parse_template (hb_path sample_binding)
   = Some [LitSeg ''/'', LitSeg ''c'', LitSeg ''/'', Hole ''id'', LitSeg ''/'', LitSeg ''t'']"
  by code_simp

definition sample_args :: jobj where
  "sample_args = [(''id'', JStr ''a/b''), (''n'', JInt 1), (''X-T'', JStr ''z''), (''x'', JNull)]"

definition sample_credential :: credential where
  "sample_credential = \<lparr>cred_header = ''Authorization'', cred_value = ''Bearer s''\<rparr>"

definition sample_request :: prepared_request where
  "sample_request =
     \<lparr>req_method = ''POST'', req_url = ''http://h/c/a%2Fb/t'',
      req_headers = [(''X-T'', ''z''), (''Content-Type'', ''application/json''), (''Authorization'', ''Bearer s'')],
      req_body = Some (utf8_encode (json_dumps (JObj [(''n'', JInt 1)])))\<rparr>"

lemma sample_build: "build_request sample_binding ''http://h'' sample_args (Some sample_credential) = Inr sample_request"
  by code_simp

lemma count_list_append: "count_list (xs @ ys) x = count_list xs x + count_list ys x"
  by (induction xs) auto

lemma count_fill:
  assumes "\<And>h. h \<in> set (holes segs) \<Longrightarrow> d \<notin> set (vals h)"
  shows "count_list (fill vals segs) d = count_list (fill (\<lambda>_. []) segs) d"
  using assms
proof (induction segs)
  case (Cons s segs)
  then show ?case
    by (cases s) (auto simp: fill_def count_list_append count_list_0_iff)
qed (simp add: fill_def)

text \<open>C17. Route safety, for a path template whose braces all belong to placeholders (\<open>parse_template\<close>; a placeholder inside
  another brace is the exception, \<open>nested_brace_substituted_twice\<close> below): when a checked template fills
  successfully, the URL is the template with every placeholder replaced at once by the percent-encoding of the
  non-empty text of its own argument (so no substituted value is substituted into again), and the path has exactly
  as many separators \<open>/\<close>, \<open>?\<close> and \<open>#\<close> as the template's literal text.\<close>

theorem build_request_route:
  assumes tmpl: "check_path_template b = Inr ()" and segs: "parse_template (hb_path b) = Some segs"
    and build: "build_request b base args cred = Inr req"
  shows "\<exists>vals query.
     req_url req = join_url base (fill vals segs) @ query
     \<and> (query = [] \<or> (\<exists>q. query = CHR ''?'' # q))
     \<and> (\<forall>p \<in> set (path_params b). \<exists>v. map_of args (p_arg p) = Some v \<and> py_str v \<noteq> []
           \<and> vals (p_wire_name p) = quote (py_str v))
     \<and> (\<forall>d \<in> set ''/?#''. count_list (fill vals segs) d = count_list (fill (\<lambda>_. []) segs) d)"
proof -
  let ?m = "path_map args (hb_parameters b)"
  have ok: "template_ok b" using tmpl by (simp add: check_path_template_iff)
  note parsed = parse_template_render [OF segs]
  then have hs: "set (holes segs) = p_wire_name ` set (path_params b)"
    using ok placeholders_render by (metis template_ok_def)
  obtain parts where add: "add_params args (hb_parameters b) \<lparr>rp_path = hb_path b, rp_query = [], rp_headers = []\<rparr> = Inr parts"
    and url: "req_url req = join_url base (rp_path parts)
       @ (if rp_query parts \<noteq> [] then ''?'' @ urlencode (rp_query parts) else [])"
    using build by (rule build_request_Inr)
  have vals: "\<exists>v. map_of args (p_arg p) = Some v \<and> py_str v \<noteq> [] \<and> ?m (p_wire_name p) = Some (quote (py_str v))"
    if "p \<in> set (path_params b)" for p
  proof -
    have "p \<in> set (hb_parameters b)" "p_required p"
      using ok that by (auto simp: template_ok_def)
    then obtain v where "map_of args (p_arg p) = Some v"
      using add_params_required [OF add] by blast
    then show ?thesis
      using add_params_path_value [OF add, of p v] path_map_lookup [of p "hb_parameters b" args v] ok that
      by (auto simp: template_ok_def)
  qed
  have nb: "no_brace (p_wire_name p)" if "p \<in> set (path_params b)" for p
  proof -
    have "p_wire_name p \<in> set (holes segs)" using that hs by blast
    then show ?thesis using parsed by (blast intro: wf_holes)
  qed
  have "rp_path parts = render (map (subst_segment ?m) segs)"
    using add parsed by (rule_tac add_params_path) (auto intro: nb)
  also have "\<dots> = fill (\<lambda>h. the (?m h)) segs"
    using vals hs by (intro render_subst_total) fastforce
  finally have path: "rp_path parts = fill (\<lambda>h. the (?m h)) segs" .
  have cnt: "count_list (fill (\<lambda>h. the (?m h)) segs) d = count_list (fill (\<lambda>_. []) segs) d"
    if "d \<in> set ''/?#''" for d
    using that vals hs quote_chars not_unreserved by (intro count_fill) fastforce
  let ?q = "if rp_query parts \<noteq> [] then ''?'' @ urlencode (rp_query parts) else []"
  have "req_url req = join_url base (fill (\<lambda>h. the (?m h)) segs) @ ?q"
    using url path by simp
  moreover have "?q = [] \<or> (\<exists>q. ?q = CHR ''?'' # q)" by simp
  moreover have "\<forall>p \<in> set (path_params b). \<exists>v. map_of args (p_arg p) = Some v \<and> py_str v \<noteq> []
           \<and> the (?m (p_wire_name p)) = quote (py_str v)"
    using vals by (metis option.sel)
  moreover have "\<forall>d \<in> set ''/?#''. count_list (fill (\<lambda>h. the (?m h)) segs) d = count_list (fill (\<lambda>_. []) segs) d"
    using cnt by blast
  ultimately show ?thesis by blast
qed

theorem build_request_route_witness:
  "\<exists>vals query.
     req_url sample_request = join_url ''http://h''
       (fill vals [LitSeg ''/'', LitSeg ''c'', LitSeg ''/'', Hole ''id'', LitSeg ''/'', LitSeg ''t'']) @ query
     \<and> vals ''id'' = ''a%2Fb''"
proof -
  have q: "quote (py_str (JStr ''a/b'')) = ''a%2Fb''" by code_simp
  have p: "sample_param ''id'' PATH True \<in> set (path_params sample_binding)"
    by (simp add: sample_defs)
  obtain vals query where
    "req_url sample_request = join_url ''http://h''
       (fill vals [LitSeg ''/'', LitSeg ''c'', LitSeg ''/'', Hole ''id'', LitSeg ''/'', LitSeg ''t'']) @ query"
    and "\<forall>p \<in> set (path_params sample_binding). \<exists>v. map_of sample_args (p_arg p) = Some v \<and> py_str v \<noteq> []
           \<and> vals (p_wire_name p) = quote (py_str v)"
    using build_request_route [OF sample_template sample_segments sample_build] by (elim exE conjE) rule
  moreover from this(2) p have "vals ''id'' = quote (py_str (JStr ''a/b''))"
    by (force simp: sample_param_def sample_args_def)
  ultimately show ?thesis unfolding q by blast
qed

text \<open>The check of a template looks for the placeholders between balanced braces and the loop replaces text, so a brace around a
  placeholder joins with a value: \<open>a\<close> gives \<open>x\<close>, and the \<open>{xb}\<close> it makes is filled with the value of \<open>xb\<close>.\<close>

lemma nested_brace_substituted_twice:
  "let b = sample_binding\<lparr>hb_path := ''/{{a}b}/{xb}'', hb_body := None, hb_parameters := [sample_param ''a'' PATH True, sample_param ''xb'' PATH True]\<rparr>
   in check_path_template b = Inr () \<and> parse_template (hb_path b) = None
      \<and> map_option req_url (case build_request b ''http://h'' [(''a'', JStr ''x''), (''xb'', JStr ''SECOND'')] None of Inl _ \<Rightarrow> None | Inr r \<Rightarrow> Some r)
          = Some ''http://h/SECOND/SECOND''"
  by code_simp

text \<open>The pairs that a server reads from a URL: the part between the first \<open>?\<close> and a \<open>#\<close>.\<close>

definition request_query :: "string \<Rightarrow> (string \<times> string) list" where
  "request_query url =
     (case dropWhile (\<lambda>c. c \<noteq> CHR ''?'') (takeWhile (\<lambda>c. c \<noteq> CHR ''#'') url) of [] \<Rightarrow> [] | _ # q \<Rightarrow> parse_query q)"

definition supplied_pairs :: "jobj \<Rightarrow> parameter list \<Rightarrow> (string \<times> string) list" where
  "supplied_pairs args ps =
     concat (map (\<lambda>p. case map_of args (p_arg p) of None \<Rightarrow> [] | Some v \<Rightarrow> query_pairs (p_wire_name p) v (p_explode p))
       (filter (\<lambda>p. p_location p = QUERY) ps))"

lemma parse_query_urlencode: "ps \<noteq> [] \<Longrightarrow> parse_query (urlencode ps) = ps"
proof -
  assume ne: "ps \<noteq> []"
  have "parse_query (urlencode ps) = map parse_pair (map (\<lambda>(k, v). quote_plus k @ ''='' @ quote_plus v) ps)"
    unfolding parse_query_def urlencode_def
    using ne quote_plus_safe(1) by (subst split_at_join) auto
  also have "\<dots> = ps"
    using parse_pair_encode by (simp add: comp_def case_prod_unfold del: append_Cons append_Nil)
  finally show ?thesis .
qed

lemma set_str_join: "set (str_join sep ss) \<subseteq> set sep \<union> (\<Union>s \<in> set ss. set s)"
  by (induction sep ss rule: str_join.induct) auto

lemma urlencode_no_hash: "CHR ''#'' \<notin> set (urlencode ps)"
proof -
  have "CHR ''#'' \<notin> set (quote_plus s)" for s
    using quote_plus_chars [of "CHR ''#''" s] not_unreserved by auto
  then show ?thesis
    using set_str_join [of "''&''" "map (\<lambda>(k, v). quote_plus k @ ''='' @ quote_plus v) ps"] by (auto simp: urlencode_def)
qed

lemma add_params_query:
  assumes "add_params args ps parts = Inr parts'"
  shows "rp_query parts' = rp_query parts @ supplied_pairs args ps"
  using assms
proof (induction ps arbitrary: parts)
  case (Cons p ps)
  obtain mid where m: "add_param args p parts = Inr mid" "add_params args ps mid = Inr parts'" using Cons.prems by auto
  have "rp_query mid = rp_query parts @ supplied_pairs args [p]"
    using m(1) by (auto simp: add_param_def supplied_pairs_def split: option.splits param_location.splits if_splits)
  then show ?case using Cons.IH [OF m(2)] by (simp add: supplied_pairs_def)
qed (simp add: supplied_pairs_def)

lemma add_params_path_chars:
  assumes "add_params args ps parts = Inr parts'" "c \<notin> set (rp_path parts)" "\<not> is_unreserved c" "c \<noteq> CHR ''%''"
  shows "c \<notin> set (rp_path parts')"
  using assms
proof (induction ps arbitrary: parts)
  case (Cons p ps)
  obtain mid where m: "add_param args p parts = Inr mid" "add_params args ps mid = Inr parts'" using Cons.prems(1) by auto
  have "c \<notin> set (rp_path mid)"
  proof
    assume "c \<in> set (rp_path mid)"
    then obtain v where "c \<in> set (quote (py_str v))"
      using m(1) Cons.prems(2) set_str_replace
      by (fastforce simp: add_param_def encode_path_value_def Let_def split: option.splits param_location.splits if_splits)
    then show False using quote_chars Cons.prems(3,4) by blast
  qed
  then show ?case using Cons.IH [OF m(2)] Cons.prems(3,4) by blast
qed simp

lemma join_url_chars: "c \<notin> set base \<Longrightarrow> c \<notin> set path \<Longrightarrow> c \<noteq> CHR ''/'' \<Longrightarrow> c \<notin> set (join_url base path)"
  by (auto simp: join_url_def str_rstrip_chars_def str_lstrip_chars_def dest: set_dropWhileD)

text \<open>C40. A server reads from the request exactly the query parameters that were supplied. For a base URL and a path template
  without \<open>?\<close> and \<open>#\<close>, parsing the query of the URL that \<open>build_request\<close> prepared, as a server does (splitting at
  \<open>&\<close> and \<open>=\<close>, plus-decoding, UTF-8 decoding), gives the pairs of the supplied query parameters in their order and
  nothing else: each key is the wire name of a supplied query parameter, a list that explodes gives
  one pair per item and otherwise one comma-joined pair, a truth value is \<open>true\<close> or \<open>false\<close> and any other value its text.
  So no argument value can add, drop or rename a query parameter.\<close>

theorem query_roundtrip:
  assumes "build_request b base args cred = Inr req"
    and "set ''?#'' \<inter> (set base \<union> set (hb_path b)) = {}"
  shows "request_query (req_url req) = supplied_pairs args (hb_parameters b)
     \<and> fst ` set (request_query (req_url req))
         \<subseteq> {p_wire_name p | p. p \<in> set (hb_parameters b) \<and> p_location p = QUERY \<and> map_of args (p_arg p) \<noteq> None}
     \<and> (\<forall>p \<in> set (hb_parameters b). \<forall>v. p_location p = QUERY \<and> map_of args (p_arg p) = Some v \<longrightarrow>
          (case v of
             JList vs \<Rightarrow> if p_explode p then \<forall>x \<in> set vs. (p_wire_name p, py_str x) \<in> set (request_query (req_url req))
                         else (p_wire_name p, str_join '','' (map py_str vs)) \<in> set (request_query (req_url req))
           | JBool t \<Rightarrow> (p_wire_name p, if t then ''true'' else ''false'') \<in> set (request_query (req_url req))
           | _ \<Rightarrow> (p_wire_name p, py_str v) \<in> set (request_query (req_url req))))"
proof -
  obtain parts where add: "add_params args (hb_parameters b) \<lparr>rp_path = hb_path b, rp_query = [], rp_headers = []\<rparr> = Inr parts"
    and url: "req_url req = join_url base (rp_path parts) @ (if rp_query parts \<noteq> [] then ''?'' @ urlencode (rp_query parts) else [])"
    using assms(1) by (rule build_request_Inr)
  have q: "rp_query parts = supplied_pairs args (hb_parameters b)" using add_params_query [OF add] by simp
  have clean: "d \<notin> set (join_url base (rp_path parts))" if "d \<in> set ''?#''" for d
  proof (rule join_url_chars)
    show "d \<notin> set base" using assms(2) that by blast
    have "d \<notin> set (hb_path b)" using assms(2) that by blast
    then show "d \<notin> set (rp_path parts)"
      by (intro add_params_path_chars [OF add]) (use that not_unreserved in auto)
    show "d \<noteq> CHR ''/''" using that by auto
  qed
  have "takeWhile (\<lambda>c. c \<noteq> CHR ''#'') (req_url req) = req_url req"
    using clean urlencode_no_hash unfolding url by (intro takeWhile_eq_all_conv [THEN iffD2]) (auto split: if_splits)
  moreover have "dropWhile (\<lambda>c. c \<noteq> CHR ''?'') (req_url req) = (if rp_query parts \<noteq> [] then ''?'' @ urlencode (rp_query parts) else [])"
    using clean unfolding url by (subst dropWhile_append2) auto
  ultimately have r: "request_query (req_url req) = supplied_pairs args (hb_parameters b)"
    unfolding request_query_def by (simp only:) (use parse_query_urlencode [of "rp_query parts"] q in simp)
  have mem: "set (query_pairs (p_wire_name p) v (p_explode p)) \<subseteq> set (supplied_pairs args (hb_parameters b))"
    if "p \<in> set (hb_parameters b)" "p_location p = QUERY" "map_of args (p_arg p) = Some v" for p v
    using that by (force simp: supplied_pairs_def)
  have wire: "fst x = w" if "x \<in> set (query_pairs w v e)" for x w v e
    using that by (cases v) (auto simp: query_pairs_def Let_def split: if_splits)
  have "fst ` set (supplied_pairs args (hb_parameters b))
      \<subseteq> {p_wire_name p | p. p \<in> set (hb_parameters b) \<and> p_location p = QUERY \<and> map_of args (p_arg p) \<noteq> None}"
  proof (rule image_subsetI)
    fix x
    assume "x \<in> set (supplied_pairs args (hb_parameters b))"
    then obtain p where p: "p \<in> set (hb_parameters b)" "p_location p = QUERY"
      "x \<in> set (case map_of args (p_arg p) of None \<Rightarrow> [] | Some v \<Rightarrow> query_pairs (p_wire_name p) v (p_explode p))"
      by (auto simp: supplied_pairs_def)
    then obtain v where "map_of args (p_arg p) = Some v" "x \<in> set (query_pairs (p_wire_name p) v (p_explode p))"
      by (cases "map_of args (p_arg p)") simp_all
    with p(1,2) show "fst x \<in> {p_wire_name p | p. p \<in> set (hb_parameters b) \<and> p_location p = QUERY \<and> map_of args (p_arg p) \<noteq> None}"
      using wire by blast
  qed
  moreover have "case v of
      JList vs \<Rightarrow> if p_explode p then \<forall>x \<in> set vs. (p_wire_name p, py_str x) \<in> set (supplied_pairs args (hb_parameters b))
                  else (p_wire_name p, str_join '','' (map py_str vs)) \<in> set (supplied_pairs args (hb_parameters b))
    | JBool t \<Rightarrow> (p_wire_name p, if t then ''true'' else ''false'') \<in> set (supplied_pairs args (hb_parameters b))
    | _ \<Rightarrow> (p_wire_name p, py_str v) \<in> set (supplied_pairs args (hb_parameters b))"
    if "p \<in> set (hb_parameters b)" "p_location p = QUERY" "map_of args (p_arg p) = Some v" for p v
    using mem [OF that] by (cases v) (auto simp: query_pairs_def Let_def split: if_splits)
  ultimately show ?thesis unfolding r by blast
qed

definition sample_query_args :: jobj where
  "sample_query_args = [(''id'', JStr ''7''), (''n'', JInt 1), (''q'', JList [JStr ''a&b=c'', JStr ''d e''])]"

definition sample_query_url :: string where
  "sample_query_url = (case build_request sample_binding ''http://h'' sample_query_args None of Inr r \<Rightarrow> req_url r | Inl _ \<Rightarrow> [])"

theorem query_roundtrip_witness:
  "request_query sample_query_url = [(''q'', ''a&b=c''), (''q'', ''d e'')] \<and> sample_query_url = ''http://h/c/7/t?q=a%26b%3Dc&q=d+e''"
proof
  show u: "sample_query_url = ''http://h/c/7/t?q=a%26b%3Dc&q=d+e''" by code_simp
  obtain req where b: "build_request sample_binding ''http://h'' sample_query_args None = Inr req"
    using u by (auto simp: sample_query_url_def split: sum.splits)
  then have r: "req_url req = sample_query_url" by (simp add: sample_query_url_def)
  have p: "supplied_pairs sample_query_args (hb_parameters sample_binding) = [(''q'', ''a&b=c''), (''q'', ''d e'')]"
    by code_simp
  have s: "set ''?#'' \<inter> (set ''http://h'' \<union> set (hb_path sample_binding)) = {}" by (simp add: sample_defs)
  show "request_query sample_query_url = [(''q'', ''a&b=c''), (''q'', ''d e'')]"
    using conjunct1 [OF query_roundtrip [OF b s]] unfolding r p .
qed

lemma build_request_headers_form:
  assumes "build_request b base args cred = Inr req"
  shows "\<forall>n v. map_of (req_headers req) n = Some v \<longrightarrow>
            (\<exists>c. cred = Some c \<and> n = cred_header c \<and> v = cred_value c)
            \<or> (\<exists>bd. hb_body b = Some bd \<and> n = ''Content-Type'' \<and> v = b_content_type bd)
            \<or> (CHR 0x0D \<notin> set v \<and> CHR 0x0A \<notin> set v
               \<and> (\<exists>p \<in> set (hb_parameters b). p_location p = HEADER \<and> p_wire_name p = n))"
    and "\<forall>c. cred = Some c \<longrightarrow> map_of (req_headers req) (cred_header c) = Some (cred_value c)"
proof -
  obtain parts where add: "add_params args (hb_parameters b) \<lparr>rp_path = hb_path b, rp_query = [], rp_headers = []\<rparr> = Inr parts"
    and hs: "req_headers req =
       (case cred of None \<Rightarrow> \<lambda>h. h | Some c \<Rightarrow> AList.update (cred_header c) (cred_value c))
         ((case hb_body b of None \<Rightarrow> \<lambda>h. h
           | Some bd \<Rightarrow> AList.update ''Content-Type'' (b_content_type bd)) (rp_headers parts))"
    using assms by (rule build_request_Inr)
  have "clean_headers (hb_parameters b) (rp_headers parts)"
    by (rule add_params_headers [OF add]) (simp_all add: clean_headers_def)
  then show "\<forall>n v. map_of (req_headers req) n = Some v \<longrightarrow>
            (\<exists>c. cred = Some c \<and> n = cred_header c \<and> v = cred_value c)
            \<or> (\<exists>bd. hb_body b = Some bd \<and> n = ''Content-Type'' \<and> v = b_content_type bd)
            \<or> (CHR 0x0D \<notin> set v \<and> CHR 0x0A \<notin> set v
               \<and> (\<exists>p \<in> set (hb_parameters b). p_location p = HEADER \<and> p_wire_name p = n))"
    by (auto simp: hs clean_headers_def update_conv' split: option.splits if_splits)
  show "\<forall>c. cred = Some c \<longrightarrow> map_of (req_headers req) (cred_header c) = Some (cred_value c)"
    by (auto simp: hs update_conv' split: option.splits)
qed

text \<open>Headers: every header of a prepared request is either the credential's, the body's
  \<open>Content-Type\<close>, or a declared header parameter whose value has no CR or LF; and a
  credential always carries its own value, whatever the arguments say.\<close>

theorem build_request_headers:
  assumes "build_request b base args cred = Inr req"
  shows "(\<forall>n v. map_of (req_headers req) n = Some v \<longrightarrow>
            (\<exists>c. cred = Some c \<and> n = cred_header c \<and> v = cred_value c)
            \<or> (\<exists>bd. hb_body b = Some bd \<and> n = ''Content-Type'' \<and> v = b_content_type bd)
            \<or> (CHR 0x0D \<notin> set v \<and> CHR 0x0A \<notin> set v
               \<and> (\<exists>p \<in> set (hb_parameters b). p_location p = HEADER \<and> p_wire_name p = n)))
         \<and> (\<forall>c. cred = Some c \<longrightarrow> map_of (req_headers req) (cred_header c) = Some (cred_value c))"
  using build_request_headers_form [OF assms] by (rule conjI)

theorem build_request_headers_witness:
  "map_of (req_headers sample_request) ''Authorization'' = Some ''Bearer s''"
  using build_request_headers [OF sample_build] by (simp add: sample_credential_def)

text \<open>Body: with a flattened object body the request body is the JSON encoding of exactly the
  arguments the body schema declares, so no path, query or header argument leaks into it.\<close>

theorem build_request_body:
  assumes "build_request b base args cred = Inr req"
    and "hb_body b = Some bd" "b_mode bd = FLATTEN" "map_of (b_schema bd) ''type'' = Some (JStr ''object'')"
    and "map_of (b_schema bd) ''properties'' = Some (JObj props)"
  shows "req_body req = Some (utf8_encode (json_dumps (JObj (filter (\<lambda>(k, v). k \<in> fst ` set props) args))))"
  using assms(1)
proof (rule build_request_Inr)
  fix body
  assume "build_body (hb_body b) args = Inr body" "req_body req = map_option (\<lambda>v. utf8_encode (json_dumps v)) body"
  moreover from this(1) have "body = Some (JObj (filter (\<lambda>(k, v). k \<in> fst ` set props) args))"
    using assms(2) by (intro build_body_flat [OF _ assms(3-5)]) simp
  ultimately show ?thesis by (simp del: json_dumps.simps)
qed

theorem build_request_body_witness:
  "req_body sample_request = Some (utf8_encode (json_dumps (JObj [(''n'', JInt 1)])))"
  using build_request_body [OF sample_build, of "the (hb_body sample_binding)" "[(''n'', JObj [])]"]
  by (simp add: sample_defs sample_args_def)

text \<open>C35. The schema is sufficient for a binding whose body, when it has one, declares as \<open>properties\<close> every name of its own
  \<open>required\<close> list (\<open>undeclared_required_refused\<close> below shows the refusal otherwise): arguments that supply every name the
  tool's input schema requires are never refused as missing, nor for the shape of the body's schema; the only errors
  left are an empty path value and a line break in a header.\<close>

theorem schema_suffices:
  assumes schema: "build_input_schema b0 = Inr schema" and res: "resolve_arg_names b0 = Inr b"
    and args: "\<And>n. JStr n \<in> set (schema_required schema) \<Longrightarrow> jhas args n"
    and cons: "\<And>bd. hb_body b = Some bd \<Longrightarrow> body_consistent bd"
    and err: "build_request b base args cred = Inl e"
  shows "\<exists>n. e = EmptyPathValue n \<or> e = HeaderInjection n"
proof (cases "add_params args (hb_parameters b) \<lparr>rp_path = hb_path b, rp_query = [], rp_headers = []\<rparr>")
  case (Inl e')
  then have "e = e'" using err by (simp add: build_request_def)
  then show ?thesis
    using add_params_Inl [OF Inl] build_input_schema_required(1) [OF schema res] args by blast
next
  case (Inr parts)
  obtain v where "build_body (hb_body b) args = Inr v"
    using build_body_Inl [OF schema res args cons] by blast
  then show ?thesis using err Inr by (simp add: build_request_def Let_def)
qed

text \<open>A body schema that requires a name it does not declare: the tool's schema asks for it, the caller supplies it, and the request is
  still refused as missing it.\<close>

lemma undeclared_required_refused:
  "let b = sample_binding\<lparr>hb_path := ''/c'', hb_parameters := [],
         hb_body := Some \<lparr>b_content_type = ''application/json'',
           b_schema = [(''type'', JStr ''object''), (''properties'', JObj [(''n'', JObj [])]), (''required'', JList [JStr ''x''])],
           b_mode = FLATTEN\<rparr>\<rparr>
   in resolve_arg_names b = Inr b
      \<and> schema_required (case build_input_schema b of Inr schema \<Rightarrow> schema | Inl _ \<Rightarrow> []) = [JStr ''x'']
      \<and> build_request b ''http://h'' [(''x'', JInt 1)] None = Inl (MissingArgument ''x'')"
  by code_simp

definition sample_schema :: jobj where
  "sample_schema =
     [(''type'', JStr ''object''),
      (''properties'', JObj [(''id'', JObj [(''type'', JStr ''string'')]), (''q'', JObj [(''type'', JStr ''string'')]),
                             (''X-T'', JObj [(''type'', JStr ''string'')]), (''n'', JObj [])]),
      (''required'', JList [JStr ''id'', JStr ''n''])]"

lemma sample_input_schema: "build_input_schema sample_binding = Inr sample_schema"
  by code_simp

lemma sample_resolve: "resolve_arg_names sample_binding = Inr sample_binding"
  by code_simp

theorem schema_suffices_witness:
  "build_request sample_binding ''http://h'' [(''id'', JStr []), (''n'', JNull)] None = Inl (EmptyPathValue ''id'')
   \<and> (\<exists>n. EmptyPathValue ''id'' = EmptyPathValue n \<or> EmptyPathValue ''id'' = HeaderInjection n)"
proof
  show e: "build_request sample_binding ''http://h'' [(''id'', JStr []), (''n'', JNull)] None = Inl (EmptyPathValue ''id'')"
    by code_simp
  show "\<exists>n. EmptyPathValue ''id'' = EmptyPathValue n \<or> EmptyPathValue ''id'' = HeaderInjection n"
    by (rule schema_suffices [OF sample_input_schema sample_resolve _ _ e])
      (auto simp: sample_schema_def schema_required_def jget_def jhas_def body_consistent_def sample_defs)
qed

end
