(* ===== verification/ConfigModels.thy ===== *)
theory ConfigModels
  imports Operations
begin

text \<open>
  The main configuration (\<open>config/models.py\<close>): one record per Pydantic model and one \<open>validate_\<close>
  function per model that has field constraints or validators. The parsing of JSON or YAML into
  fields of the declared types, and the refusal of unknown keys, are Pydantic's; what is modelled
  is every constraint the module itself states, in the order of its validators. \<open>Inl\<close> is the first
  failing check.
\<close>

section \<open>Patterns\<close>

text \<open>\<open>SECRET_REF_PATTERN\<close>, \<open>HTTP_URL_PATTERN\<close> and \<open>NAME_PATTERN\<close> (\<open>naming.py\<close>).\<close>

definition secret_body :: "string \<Rightarrow> string \<Rightarrow> bool" where
  "secret_body prefix ref =
     (starts_with prefix ref \<and> ends_with ''}'' ref
      \<and> length prefix + 1 < length ref
      \<and> CHR 0x7D \<notin> set (butlast ref))"

definition is_secret_ref :: "string \<Rightarrow> bool" where
  "is_secret_ref ref = (secret_body ''${env:'' ref \<or> secret_body ''${file:'' ref)"

definition url_rest :: "string \<Rightarrow> string option" where
  "url_rest url =
     (if starts_with ''http://'' url then Some (drop 7 url)
      else if starts_with ''https://'' url then Some (drop 8 url)
      else None)"

text \<open>\<open>\s\<close> of Pydantic's regular expressions: the Unicode white space.\<close>

definition is_white :: "char \<Rightarrow> bool" where
  "is_white c = (is_space c \<and> \<not> (28 \<le> code c \<and> code c \<le> 31))"

definition is_http_url :: "string \<Rightarrow> bool" where
  "is_http_url url =
     (case url_rest url of
        Some (c # _) \<Rightarrow> c \<notin> set ''/?#'' \<and> \<not> is_white c
      | _ \<Rightarrow> False)"

definition MAX_NAME_LENGTH :: nat where
  "MAX_NAME_LENGTH = 64"

definition is_name_char :: "char \<Rightarrow> bool" where
  "is_name_char c = (is_lower_ascii c \<or> is_digit_ascii c \<or> c = CHR ''_'')"

definition matches_name_pattern :: "string \<Rightarrow> bool" where
  "matches_name_pattern s = (s \<noteq> [] \<and> length s \<le> MAX_NAME_LENGTH \<and> list_all is_name_char s)"

section \<open>Models\<close>

record openapi_introspection =
  oi_url :: "string option"
  oi_file :: "string option"
  oi_include_deprecated :: bool
  oi_allow_external_refs :: bool
  oi_allowed_hosts :: "string list"

record graphql_introspection =
  gi_url :: string
  gi_type_policy :: "(string, string list) pydict"

record introspection_config =
  in_openapi :: "openapi_introspection option"
  in_graphql :: "graphql_introspection option"

record http_server_config =
  hs_host :: string
  hs_port :: int
  hs_path :: string
  hs_allowed_origins :: "string list"
  hs_allowed_hosts :: "string list"
  hs_session_idle_timeout_s :: "rat option"
  hs_max_sessions :: "int option"

datatype outbound_mode = OutNone | OutStatic | OutClientCredentials | OutTokenExchange

record outbound_config =
  ob_mode :: outbound_mode
  ob_header :: string
  ob_scheme :: "string option"
  ob_value :: "string option"
  ob_token_endpoint :: "string option"
  ob_client_id :: "string option"
  ob_client_secret :: "string option"
  ob_scopes :: "string list"
  ob_audience :: "string option"
  ob_resource :: "string option"
  ob_requested_token_type :: string

record upstream_config =
  up_base_url :: "string option"
  up_timeout_ms :: int
  up_max_total_ms :: "int option"
  up_max_response_bytes :: int
  up_outbound :: outbound_config
  up_introspection :: "introspection_config option"

datatype transport_kind = Stdio | HttpServer

record server_config =
  sv_name :: string
  sv_transport :: transport_kind
  sv_http :: http_server_config

record parameter_entry =
  pe_arg :: string
  pe_location :: param_location
  pe_wire_name :: "string option"
  pe_required :: bool
  pe_schema :: jobj
  pe_style :: param_style
  pe_explode :: bool

record body_entry =
  be_content_type :: string
  be_mode :: body_mode
  be_schema :: jobj

record http_binding_entry =
  he_method :: string
  he_path :: string
  he_parameters :: "parameter_entry list"
  he_body :: "body_entry option"

record gql_variable_entry =
  ve_name :: string
  ve_graphql_type :: string
  ve_required :: bool

record gql_binding_entry =
  ge_operation_type :: string
  ge_document :: string
  ge_variables :: "gql_variable_entry list"

datatype binding_entry = HttpEntry http_binding_entry | GraphQlEntry gql_binding_entry

record operation_entry =
  oe_id :: string
  oe_upstream :: string
  oe_description :: string
  oe_title :: "string option"
  oe_name :: "string option"
  oe_group_tags :: "string list"
  oe_effect :: "effect option"
  oe_sensitivity :: "sensitivity option"
  oe_binding :: binding_entry

record match_spec =
  ms_ids :: "string list"
  ms_tags :: "string list"
  ms_upstream :: "string list"
  ms_effect :: "effect list"

record classification_rule =
  cr_match :: match_spec
  cr_effect :: "effect option"
  cr_sensitivity :: "sensitivity option"

record selection_config =
  se_include_tags :: "string list option"
  se_exclude_tags :: "string list"
  se_include_ids :: "string list option"
  se_exclude_ids :: "string list"

datatype naming_strategy = ByOperationId | ByMethodPath

record naming_config =
  nc_strategy :: naming_strategy
  nc_prefix_with_group_tag :: bool
  nc_prefix_with_upstream :: bool

record local_principal_config =
  lp_authorization_details :: "jobj list"

record inbound_auth_config =
  ia_enabled :: bool
  ia_issuer :: "string option"
  ia_audience :: "string option"
  ia_jwks_uri :: "string option"
  ia_required_scopes :: "string list"
  ia_algorithms :: "string list"
  ia_leeway_s :: rat
  ia_allow_unauthenticated_http :: bool

record auth_config =
  au_local_principal :: local_principal_config
  au_inbound :: inbound_auth_config

datatype portal_mode = Configured | IntrospectSafe | IntrospectUnsafe

record portal_config =
  pc_mode :: portal_mode
  pc_acknowledge_unsafe :: bool
  pc_server :: server_config
  pc_upstreams :: "(string, upstream_config) pydict"
  pc_operations :: "operation_entry list"
  pc_classification :: "classification_rule list"
  pc_selection :: selection_config
  pc_naming :: naming_config
  pc_auth :: auth_config
  pc_policy_file :: "string option"

section \<open>Validators\<close>

datatype model_error =
    BadField string
  | DocumentSourceNotExactlyOne
  | ProtocolNotExactlyOne
  | StaticNeedsValue
  | DynamicModeMissing "string list"
  | NeitherBaseUrlNorIntrospection
  | GraphQlIntrospectionNeedsBaseUrl
  | GraphQlUrlMismatch
  | InboundNeedsIssuerAndAudience
  | NoneAlgorithm
  | UnknownUpstreams "string list"
  | UnsafeNotAcknowledged
  | MissingBaseUrls "string list"
  | UnauthenticatedHttp
  | TokenExchangeWithoutInbound "string list"

definition opt_all :: "('a \<Rightarrow> bool) \<Rightarrow> 'a option \<Rightarrow> bool" where
  "opt_all P v = (case v of None \<Rightarrow> True | Some x \<Rightarrow> P x)"

definition validate_openapi_introspection ::
    "openapi_introspection \<Rightarrow> model_error + openapi_introspection" where
  "validate_openapi_introspection c =
     bind_res (check (opt_all is_http_url (oi_url c)) (BadField ''url'')) (\<lambda>_.
     if (oi_url c = None) = (oi_file c = None) then Inl DocumentSourceNotExactlyOne else Inr c)"

definition validate_introspection :: "introspection_config \<Rightarrow> model_error + introspection_config" where
  "validate_introspection c =
     bind_res (case in_openapi c of None \<Rightarrow> Inr ()
               | Some o' \<Rightarrow> bind_res (validate_openapi_introspection o') (\<lambda>_. Inr ())) (\<lambda>_.
     bind_res (check (opt_all (\<lambda>g. is_http_url (gi_url g)) (in_graphql c)) (BadField ''url'')) (\<lambda>_.
     if (in_openapi c = None) = (in_graphql c = None) then Inl ProtocolNotExactlyOne else Inr c))"

definition LOOPBACK_HOSTS :: "string list" where
  "LOOPBACK_HOSTS = [''127.0.0.1'', ''localhost'', ''::1'']"

definition validate_http_server :: "http_server_config \<Rightarrow> model_error + http_server_config" where
  "validate_http_server c =
     bind_res (check (0 < hs_port c \<and> hs_port c < 65536) (BadField ''port'')) (\<lambda>_.
     bind_res (check (opt_all (\<lambda>t. 0 < t) (hs_session_idle_timeout_s c))
                 (BadField ''session_idle_timeout_s'')) (\<lambda>_.
     bind_res (check (opt_all (\<lambda>n. 0 < n) (hs_max_sessions c)) (BadField ''max_sessions'')) (\<lambda>_.
     Inr c)))"

definition validate_outbound :: "outbound_config \<Rightarrow> model_error + outbound_config" where
  "validate_outbound c =
     bind_res (check (opt_all is_secret_ref (ob_value c)) (BadField ''value'')) (\<lambda>_.
     bind_res (check (opt_all is_http_url (ob_token_endpoint c)) (BadField ''token_endpoint'')) (\<lambda>_.
     bind_res (check (opt_all is_secret_ref (ob_client_secret c)) (BadField ''client_secret'')) (\<lambda>_.
     if ob_mode c = OutStatic \<and> ob_value c = None then Inl StaticNeedsValue
     else if ob_mode c \<notin> {OutClientCredentials, OutTokenExchange} then Inr c
     else let missing = map fst (filter (\<lambda>(_, v). v = None)
                [(''token_endpoint'', ob_token_endpoint c), (''client_id'', ob_client_id c),
                 (''client_secret'', ob_client_secret c)])
          in if missing \<noteq> [] then Inl (DynamicModeMissing missing) else Inr c)))"

text \<open>The four validators of \<open>UpstreamConfig\<close>; the first fills in the default total budget.\<close>

definition upstream_defaults :: "upstream_config \<Rightarrow> upstream_config" where
  "upstream_defaults u =
     (if up_max_total_ms u = None then u\<lparr>up_max_total_ms := Some (up_timeout_ms u * 3)\<rparr> else u)"

definition upstream_graphql :: "upstream_config \<Rightarrow> graphql_introspection option" where
  "upstream_graphql u = (case up_introspection u of None \<Rightarrow> None | Some i \<Rightarrow> in_graphql i)"

definition validate_upstream :: "upstream_config \<Rightarrow> model_error + upstream_config" where
  "validate_upstream u0 =
     bind_res (check (opt_all is_http_url (up_base_url u0)) (BadField ''base_url'')) (\<lambda>_.
     bind_res (check (0 < up_timeout_ms u0) (BadField ''timeout_ms'')) (\<lambda>_.
     bind_res (check (opt_all (\<lambda>n. 0 < n) (up_max_total_ms u0)) (BadField ''max_total_ms'')) (\<lambda>_.
     bind_res (check (0 < up_max_response_bytes u0) (BadField ''max_response_bytes'')) (\<lambda>_.
     bind_res (validate_outbound (up_outbound u0)) (\<lambda>_.
     bind_res (case up_introspection u0 of None \<Rightarrow> Inr ()
               | Some i \<Rightarrow> bind_res (validate_introspection i) (\<lambda>_. Inr ())) (\<lambda>_.
     let u = upstream_defaults u0
     in if up_base_url u = None \<and> up_introspection u = None
        then Inl NeitherBaseUrlNorIntrospection
        else case upstream_graphql u of
            None \<Rightarrow> Inr u
          | Some g \<Rightarrow>
              (case up_base_url u of
                 None \<Rightarrow> Inl GraphQlIntrospectionNeedsBaseUrl
               | Some b \<Rightarrow> if b \<noteq> gi_url g then Inl GraphQlUrlMismatch else Inr u)))))))"

definition validate_operation_entry :: "operation_entry \<Rightarrow> model_error + operation_entry" where
  "validate_operation_entry e =
     bind_res (check (opt_all matches_name_pattern (oe_name e)) (BadField ''name'')) (\<lambda>_.
     case oe_binding e of
       HttpEntry _ \<Rightarrow> Inr e
     | GraphQlEntry g \<Rightarrow>
         bind_res (check (ge_operation_type g \<in> {''query'', ''mutation''}) (BadField ''operation_type''))
           (\<lambda>_. Inr e))"

definition validate_inbound :: "inbound_auth_config \<Rightarrow> model_error + inbound_auth_config" where
  "validate_inbound c =
     bind_res (check (opt_all is_http_url (ia_issuer c)) (BadField ''issuer'')) (\<lambda>_.
     bind_res (check (opt_all is_http_url (ia_jwks_uri c)) (BadField ''jwks_uri'')) (\<lambda>_.
     bind_res (check (0 \<le> ia_leeway_s c) (BadField ''leeway_s'')) (\<lambda>_.
     if ia_enabled c \<and> (ia_issuer c = None \<or> ia_audience c = None)
     then Inl InboundNeedsIssuerAndAudience
     else if ''none'' \<in> set (ia_algorithms c) then Inl NoneAlgorithm
     else Inr c)))"

definition unknown_upstreams :: "portal_config \<Rightarrow> string list" where
  "unknown_upstreams c =
     sorted_set (filter (\<lambda>u. u \<notin> fst ` set (pc_upstreams c)) (map oe_upstream (pc_operations c)))"

definition missing_base_urls :: "portal_config \<Rightarrow> string list" where
  "missing_base_urls c = sort (map fst (filter (\<lambda>(_, u). up_base_url u = None) (pc_upstreams c)))"

definition unauthenticated_http_ok :: "portal_config \<Rightarrow> bool" where
  "unauthenticated_http_ok c =
     (sv_transport (pc_server c) \<noteq> HttpServer \<or> ia_enabled (au_inbound (pc_auth c))
      \<or> hs_host (sv_http (pc_server c)) \<in> set LOOPBACK_HOSTS
      \<or> ia_allow_unauthenticated_http (au_inbound (pc_auth c)))"

definition exchanging_upstreams :: "portal_config \<Rightarrow> string list" where
  "exchanging_upstreams c =
     sort (map fst (filter (\<lambda>(_, u). ob_mode (up_outbound u) = OutTokenExchange) (pc_upstreams c)))"

text \<open>The field models first, then the five validators of \<open>McpPortalConfig\<close> in order.\<close>

definition portal_validators :: "portal_config \<Rightarrow> model_error + portal_config" where
  "portal_validators c =
     (if unknown_upstreams c \<noteq> [] then Inl (UnknownUpstreams (unknown_upstreams c))
      else if pc_mode c = IntrospectUnsafe \<and> \<not> pc_acknowledge_unsafe c then Inl UnsafeNotAcknowledged
      else if pc_mode c = Configured \<and> missing_base_urls c \<noteq> []
      then Inl (MissingBaseUrls (missing_base_urls c))
      else if \<not> unauthenticated_http_ok c then Inl UnauthenticatedHttp
      else if exchanging_upstreams c \<noteq> []
           \<and> \<not> (sv_transport (pc_server c) = HttpServer \<and> ia_enabled (au_inbound (pc_auth c)))
      then Inl (TokenExchangeWithoutInbound (exchanging_upstreams c))
      else Inr c)"

definition validate_portal :: "portal_config \<Rightarrow> model_error + portal_config" where
  "validate_portal c0 =
     bind_res (validate_http_server (sv_http (pc_server c0))) (\<lambda>_.
     bind_res (mapM (\<lambda>(k, u). bind_res (validate_upstream u) (\<lambda>u'. Inr (k, u'))) (pc_upstreams c0)) (\<lambda>ups.
     bind_res (mapM validate_operation_entry (pc_operations c0)) (\<lambda>_.
     bind_res (validate_inbound (au_inbound (pc_auth c0))) (\<lambda>_.
     portal_validators (c0\<lparr>pc_upstreams := ups\<rparr>)))))"

section \<open>What a validated configuration guarantees\<close>

lemma opt_all_None [simp]: "opt_all P None"
  by (simp add: opt_all_def)

lemma opt_all_Some [simp]: "opt_all P (Some x) = P x"
  by (simp add: opt_all_def)

lemma validate_outbound_Inr:
  assumes "validate_outbound c = Inr c'"
  shows "c' = c"
    and "ob_mode c = OutStatic \<Longrightarrow> ob_value c \<noteq> None"
    and "ob_mode c \<in> {OutClientCredentials, OutTokenExchange} \<Longrightarrow>
         ob_token_endpoint c \<noteq> None \<and> ob_client_id c \<noteq> None \<and> ob_client_secret c \<noteq> None"
  using assms
  by (auto simp: validate_outbound_def Let_def filter_empty_conv split: if_splits)

lemma upstream_defaults_simps [frame_simps, simp]:
  "up_base_url (upstream_defaults u) = up_base_url u"
  "up_timeout_ms (upstream_defaults u) = up_timeout_ms u"
  "up_max_response_bytes (upstream_defaults u) = up_max_response_bytes u"
  "up_outbound (upstream_defaults u) = up_outbound u"
  "up_introspection (upstream_defaults u) = up_introspection u"
  by (simp_all add: upstream_defaults_def)

lemma validate_upstream_Inr:
  assumes "validate_upstream u0 = Inr u"
  shows "u = upstream_defaults u0"
    and "validate_outbound (up_outbound u) = Inr (up_outbound u)"
    and "0 < up_timeout_ms u" and "0 < up_max_response_bytes u"
    and "\<exists>b. up_max_total_ms u = Some b \<and> 0 < b"
proof -
  show u: "u = upstream_defaults u0"
    using assms by (auto simp: validate_upstream_def Let_def split: if_splits option.splits)
  show "validate_outbound (up_outbound u) = Inr (up_outbound u)"
    using assms validate_outbound_Inr(1) unfolding u by (auto simp: validate_upstream_def)
  show t: "0 < up_timeout_ms u" and "0 < up_max_response_bytes u"
    using assms unfolding u by (auto simp: validate_upstream_def)
  have "opt_all (\<lambda>n. 0 < n) (up_max_total_ms u0)"
    using assms by (auto simp: validate_upstream_def)
  then show "\<exists>b. up_max_total_ms u = Some b \<and> 0 < b"
    using t unfolding u by (auto simp: upstream_defaults_def)
qed

lemma validate_portal_Inr:
  assumes "validate_portal c0 = Inr c"
  shows "portal_validators c = Inr c"
    and "validate_inbound (au_inbound (pc_auth c)) = Inr (au_inbound (pc_auth c))"
    and "(k, u) \<in> set (pc_upstreams c) \<Longrightarrow> \<exists>u0. validate_upstream u0 = Inr u"
    and "e \<in> set (pc_operations c) \<Longrightarrow> validate_operation_entry e = Inr e"
proof -
  obtain ups where ups: "mapM (\<lambda>(k, u). bind_res (validate_upstream u) (\<lambda>u'. Inr (k, u'))) (pc_upstreams c0) = Inr ups"
    and ops: "\<exists>es. mapM validate_operation_entry (pc_operations c0) = Inr es"
    and inb: "\<exists>i. validate_inbound (au_inbound (pc_auth c0)) = Inr i"
    and pv: "portal_validators (c0\<lparr>pc_upstreams := ups\<rparr>) = Inr c"
    using assms by (auto simp: validate_portal_def)
  have c: "c = c0\<lparr>pc_upstreams := ups\<rparr>"
    using pv by (auto simp: portal_validators_def split: if_splits)
  with pv show "portal_validators c = Inr c" by simp
  show "validate_inbound (au_inbound (pc_auth c)) = Inr (au_inbound (pc_auth c))"
    using inb unfolding c by (auto simp: validate_inbound_def split: if_splits)
  show "(k, u) \<in> set (pc_upstreams c) \<Longrightarrow> \<exists>u0. validate_upstream u0 = Inr u"
    using ups unfolding c mapM_eq_Inr
    by (auto simp: list_all2_conv_all_nth in_set_conv_nth) (fastforce split: prod.splits)
  show "e \<in> set (pc_operations c) \<Longrightarrow> validate_operation_entry e = Inr e"
    using ops unfolding c mapM_eq_Inr list_all2_conv_all_nth in_set_conv_nth
    by (auto simp: validate_operation_entry_def split: binding_entry.splits)
qed

lemma portal_validators_Inr:
  assumes "portal_validators c = Inr c'"
  shows "c' = c" "unknown_upstreams c = []" "pc_mode c = IntrospectUnsafe \<longrightarrow> pc_acknowledge_unsafe c"
    "pc_mode c = Configured \<longrightarrow> missing_base_urls c = []" "unauthenticated_http_ok c"
    "exchanging_upstreams c \<noteq> [] \<longrightarrow> sv_transport (pc_server c) = HttpServer \<and> ia_enabled (au_inbound (pc_auth c))"
  using assms by (auto simp: portal_validators_def split: if_splits)

lemma exchanging_iff: "exchanging_upstreams c \<noteq> [] \<longleftrightarrow> (\<exists>(k, u) \<in> set (pc_upstreams c). ob_mode (up_outbound u) = OutTokenExchange)"
  by (auto simp: exchanging_upstreams_def filter_empty_conv)

lemma validate_inbound_Inr:
  "validate_inbound i = Inr i' \<Longrightarrow> (ia_enabled i \<longrightarrow> ia_issuer i \<noteq> None \<and> ia_audience i \<noteq> None) \<and> ''none'' \<notin> set (ia_algorithms i)"
  by (auto simp: validate_inbound_def split: if_splits)

lemma validate_upstream_complete:
  assumes "\<exists>u0. validate_upstream u0 = Inr u"
  shows "0 < up_timeout_ms u \<and> (\<exists>b. up_max_total_ms u = Some b \<and> 0 < b) \<and> 0 < up_max_response_bytes u
            \<and> (ob_mode (up_outbound u) = OutStatic \<longrightarrow> ob_value (up_outbound u) \<noteq> None)
            \<and> (ob_mode (up_outbound u) \<in> {OutClientCredentials, OutTokenExchange} \<longrightarrow>
                 ob_token_endpoint (up_outbound u) \<noteq> None \<and> ob_client_id (up_outbound u) \<noteq> None
                 \<and> ob_client_secret (up_outbound u) \<noteq> None)"
proof -
  obtain u0 where u0: "validate_upstream u0 = Inr u" using assms by blast
  note up = validate_upstream_Inr(2-5) [OF u0]
  show ?thesis using up(2-4) validate_outbound_Inr(2,3) [OF up(1)] by blast
qed

lemma upstream_defaults_idem [simp]: "upstream_defaults (upstream_defaults u) = upstream_defaults u"
  by (simp add: upstream_defaults_def)

lemma validate_upstream_idem:
  assumes "validate_upstream u0 = Inr u"
  shows "validate_upstream u = Inr u"
proof -
  have u: "u = upstream_defaults u0" and "opt_all (\<lambda>n. 0 < n) (up_max_total_ms u)"
    using validate_upstream_Inr(1,5) [OF assms] by auto
  then show ?thesis
    using assms unfolding u
    by (auto simp: validate_upstream_def upstream_graphql_def Let_def split: if_splits option.splits)
qed

section \<open>Properties\<close>

definition sample_outbound :: outbound_config where
  "sample_outbound =
     \<lparr>ob_mode = OutTokenExchange, ob_header = ''Authorization'', ob_scheme = Some ''Bearer'', ob_value = None,
      ob_token_endpoint = Some ''https://as/token'', ob_client_id = Some ''c'', ob_client_secret = Some ''${env:S}'',
      ob_scopes = [], ob_audience = None, ob_resource = None, ob_requested_token_type = ''t''\<rparr>"

definition sample_upstream :: upstream_config where
  "sample_upstream =
     \<lparr>up_base_url = Some ''http://u'', up_timeout_ms = 5000, up_max_total_ms = None, up_max_response_bytes = 1000,
      up_outbound = sample_outbound, up_introspection = None\<rparr>"

definition sample_inbound :: inbound_auth_config where
  "sample_inbound =
     \<lparr>ia_enabled = True, ia_issuer = Some ''https://as'', ia_audience = Some ''portal'', ia_jwks_uri = None,
      ia_required_scopes = [], ia_algorithms = [''RS256''], ia_leeway_s = 30, ia_allow_unauthenticated_http = False\<rparr>"

definition sample_portal :: portal_config where
  "sample_portal =
     \<lparr>pc_mode = IntrospectSafe, pc_acknowledge_unsafe = False,
      pc_server = \<lparr>sv_name = ''p'', sv_transport = HttpServer,
        sv_http = \<lparr>hs_host = ''0.0.0.0'', hs_port = 8000, hs_path = ''/mcp'', hs_allowed_origins = [],
                   hs_allowed_hosts = [], hs_session_idle_timeout_s = None, hs_max_sessions = None\<rparr>\<rparr>,
      pc_upstreams = [(''u'', sample_upstream)], pc_operations = [], pc_classification = [],
      pc_selection = \<lparr>se_include_tags = None, se_exclude_tags = [], se_include_ids = None, se_exclude_ids = [''gone'']\<rparr>,
      pc_naming = \<lparr>nc_strategy = ByOperationId, nc_prefix_with_group_tag = False, nc_prefix_with_upstream = False\<rparr>,
      pc_auth = \<lparr>au_local_principal = \<lparr>lp_authorization_details = []\<rparr>, au_inbound = sample_inbound\<rparr>,
      pc_policy_file = None\<rparr>"

definition sample_validated :: portal_config where
  "sample_validated = sample_portal\<lparr>pc_upstreams := [(''u'', sample_upstream\<lparr>up_max_total_ms := Some 15000\<rparr>)]\<rparr>"

lemmas sample_portal_defs =
  sample_portal_def sample_inbound_def sample_upstream_def sample_outbound_def sample_validated_def

lemma sample_portal_valid: "validate_portal sample_portal = Inr sample_validated"
  by code_simp

text \<open>C39. Exposure: a configuration that validates never serves unauthenticated HTTP outside loopback
  unless it opts in by name; token exchange implies an HTTP server that authenticates its callers
  against a configured issuer and audience; the \<open>none\<close> algorithm is never accepted; and
  introspect-unsafe mode is always acknowledged.\<close>

theorem validated_exposure:
  assumes "validate_portal c0 = Inr c"
  shows "(sv_transport (pc_server c) = HttpServer \<and> \<not> ia_enabled (au_inbound (pc_auth c)) \<longrightarrow>
            hs_host (sv_http (pc_server c)) \<in> set LOOPBACK_HOSTS
            \<or> ia_allow_unauthenticated_http (au_inbound (pc_auth c)))
         \<and> (\<forall>(k, u) \<in> set (pc_upstreams c). ob_mode (up_outbound u) = OutTokenExchange \<longrightarrow>
              sv_transport (pc_server c) = HttpServer \<and> ia_enabled (au_inbound (pc_auth c))
              \<and> ia_issuer (au_inbound (pc_auth c)) \<noteq> None \<and> ia_audience (au_inbound (pc_auth c)) \<noteq> None)
         \<and> ''none'' \<notin> set (ia_algorithms (au_inbound (pc_auth c)))
         \<and> (pc_mode c = IntrospectUnsafe \<longrightarrow> pc_acknowledge_unsafe c)"
proof -
  note v = portal_validators_Inr [OF validate_portal_Inr(1) [OF assms]]
    and i = validate_inbound_Inr [OF validate_portal_Inr(2) [OF assms]]
  show ?thesis
    using v(3,5,6) i unfolding exchanging_iff by (fastforce simp: unauthenticated_http_ok_def)
qed

theorem validated_exposure_witness:
  "ia_issuer (au_inbound (pc_auth sample_validated)) \<noteq> None"
  using validated_exposure [OF sample_portal_valid] by (simp add: sample_portal_defs)

text \<open>Upstreams: in a validated configuration every upstream has a positive attempt timeout, total
  budget (filled in when absent) and response limit, a static credential has its value, a dynamic
  one its endpoint, client id and secret; in configured mode every upstream has a base URL, and
  every explicit operation names a declared upstream.\<close>

theorem validated_upstreams:
  assumes "validate_portal c0 = Inr c"
  shows "(\<forall>(k, u) \<in> set (pc_upstreams c).
            0 < up_timeout_ms u \<and> (\<exists>b. up_max_total_ms u = Some b \<and> 0 < b) \<and> 0 < up_max_response_bytes u
            \<and> (ob_mode (up_outbound u) = OutStatic \<longrightarrow> ob_value (up_outbound u) \<noteq> None)
            \<and> (ob_mode (up_outbound u) \<in> {OutClientCredentials, OutTokenExchange} \<longrightarrow>
                 ob_token_endpoint (up_outbound u) \<noteq> None \<and> ob_client_id (up_outbound u) \<noteq> None
                 \<and> ob_client_secret (up_outbound u) \<noteq> None)
            \<and> (pc_mode c = Configured \<longrightarrow> up_base_url u \<noteq> None))
         \<and> (\<forall>e \<in> set (pc_operations c). \<exists>u. map_of (pc_upstreams c) (oe_upstream e) = Some u)"
proof -
  have up: "0 < up_timeout_ms u \<and> (\<exists>b. up_max_total_ms u = Some b \<and> 0 < b) \<and> 0 < up_max_response_bytes u
            \<and> (ob_mode (up_outbound u) = OutStatic \<longrightarrow> ob_value (up_outbound u) \<noteq> None)
            \<and> (ob_mode (up_outbound u) \<in> {OutClientCredentials, OutTokenExchange} \<longrightarrow>
                 ob_token_endpoint (up_outbound u) \<noteq> None \<and> ob_client_id (up_outbound u) \<noteq> None
                 \<and> ob_client_secret (up_outbound u) \<noteq> None)"
    if "(k, u) \<in> set (pc_upstreams c)" for k u
    using validate_portal_Inr(3) [OF assms that] validate_upstream_complete by blast
  note v = portal_validators_Inr(2,4) [OF validate_portal_Inr(1) [OF assms]]
  have "\<exists>u. map_of (pc_upstreams c) (oe_upstream e) = Some u" if "e \<in> set (pc_operations c)" for e
  proof -
    have "oe_upstream e \<in> dom (map_of (pc_upstreams c))"
      using v(1) that by (auto simp: unknown_upstreams_def filter_empty_conv dom_map_of_conv_image_fst)
    then show ?thesis by blast
  qed
  then show ?thesis using up v(2) by (fastforce simp: missing_base_urls_def filter_empty_conv)
qed

theorem validated_upstreams_witness:
  "ob_client_secret sample_outbound \<noteq> None"
  using validated_upstreams [OF sample_portal_valid] by (simp add: sample_portal_defs)

text \<open>Validation is idempotent: a configuration that came out of validation, with its defaults filled
  in, validates to itself.\<close>

theorem validate_portal_idempotent:
  assumes "validate_portal c0 = Inr c"
  shows "validate_portal c = Inr c"
proof -
  obtain ups where ups: "mapM (\<lambda>(k, u). bind_res (validate_upstream u) (\<lambda>u'. Inr (k, u'))) (pc_upstreams c0) = Inr ups"
    and http: "\<exists>h. validate_http_server (sv_http (pc_server c0)) = Inr h"
    and ops: "\<exists>es. mapM validate_operation_entry (pc_operations c0) = Inr es"
    and inb: "\<exists>i. validate_inbound (au_inbound (pc_auth c0)) = Inr i"
    and pv: "portal_validators (c0\<lparr>pc_upstreams := ups\<rparr>) = Inr c"
    using assms by (auto simp: validate_portal_def)
  have c: "c = c0\<lparr>pc_upstreams := ups\<rparr>"
    using portal_validators_Inr(1) [OF pv] by simp
  have "mapM (\<lambda>(k, u). bind_res (validate_upstream u) (\<lambda>u'. Inr (k, u'))) ups = Inr (map (\<lambda>x. x) ups)"
  proof (rule mapM_total)
    fix x
    assume "x \<in> set ups"
    moreover obtain k u where x: "x = (k, u)" by (cases x)
    ultimately have "(k, u) \<in> set (pc_upstreams c)" by (simp add: c)
    then obtain u0 where "validate_upstream u0 = Inr u"
      using validate_portal_Inr(3) [OF assms] by blast
    then show "(case x of (k, u) \<Rightarrow> bind_res (validate_upstream u) (\<lambda>u'. Inr (k, u'))) = Inr x"
      by (simp add: validate_upstream_idem x)
  qed
  then show ?thesis
    using http ops inb pv c by (auto simp: validate_portal_def)
qed

theorem validate_portal_idempotent_witness: "validate_portal sample_validated = Inr sample_validated"
  by (rule validate_portal_idempotent [OF sample_portal_valid])

end
