(* ===== verification/TransportCommon.thy ===== *)
theory TransportCommon
  imports BuildRequest ConfigModels
begin

text \<open>
  What every transport shares (\<open>transports/common.py\<close>): which statuses are retried and after how long,
  the wall-clock budget, and how a response body becomes text; then the retry loop of
  \<open>execute\<close>, spelled out identically in \<open>transports/http.py\<close> and \<open>transports/graphql.py\<close>.

  Seconds are exact rationals. \<open>random.uniform(0, b)\<close> is \<open>b\<close> times a draw from the unit interval, and the
  draws, the clock and the upstream's answers are inputs: one \<open>attempt_env\<close> per attempt. A response is
  what the code reads of an \<open>httpx.Response\<close>; its charset-aware \<open>text\<close> is computed by \<open>httpx\<close>. Text
  is a list of code points, since a decoded body may hold any.
\<close>

type_synonym codepoints = "nat list"

definition cps :: "string \<Rightarrow> codepoints" where
  "cps s = map of_char s"

record http_response =
  hr_status :: int
  hr_content_type :: string
  hr_retry_after :: "string option"
  hr_content :: string
  hr_text :: codepoints

record transport_response =
  tr_status :: int
  tr_text :: codepoints
  tr_truncated :: bool
  tr_original_bytes :: nat

section \<open>UTF-8 with replacement\<close>

text \<open>\<open>bytes.decode(errors="replace")\<close>: a maximal ill-formed prefix becomes one U+FFFD.\<close>

definition utf8_lead :: "nat \<Rightarrow> (nat \<times> nat \<times> nat) option" where
  "utf8_lead b =
     (if 0xC2 \<le> b \<and> b \<le> 0xDF then Some (0x80, 0xBF, 0)
      else if b = 0xE0 then Some (0xA0, 0xBF, 1)
      else if b = 0xED then Some (0x80, 0x9F, 1)
      else if 0xE1 \<le> b \<and> b \<le> 0xEF then Some (0x80, 0xBF, 1)
      else if b = 0xF0 then Some (0x90, 0xBF, 2)
      else if 0xF1 \<le> b \<and> b \<le> 0xF3 then Some (0x80, 0xBF, 2)
      else if b = 0xF4 then Some (0x80, 0x8F, 2)
      else None)"

definition is_continuation :: "nat \<Rightarrow> bool" where
  "is_continuation b = (0x80 \<le> b \<and> b \<le> 0xBF)"

definition utf8_codepoint :: "nat \<Rightarrow> nat list \<Rightarrow> nat" where
  "utf8_codepoint b cs =
     foldl (\<lambda>acc c. acc * 64 + c mod 64) (b mod (if length cs = 1 then 32 else if length cs = 2 then 16 else 8)) cs"

function utf8_replace :: "nat list \<Rightarrow> codepoints" where
  "utf8_replace [] = []"
| "utf8_replace (b # bs) =
     (if b < 0x80 then b # utf8_replace bs
      else case utf8_lead b of
          None \<Rightarrow> 0xFFFD # utf8_replace bs
        | Some (lo, hi, extra) \<Rightarrow>
            (case bs of
               [] \<Rightarrow> [0xFFFD]
             | c # cs \<Rightarrow>
                 if \<not> (lo \<le> c \<and> c \<le> hi) then 0xFFFD # utf8_replace (c # cs)
                 else
                   let run = takeWhile is_continuation (take extra cs)
                   in (if length run = extra then utf8_codepoint b (c # run) else 0xFFFD)
                      # utf8_replace (drop (length run) cs)))"
  by pat_completeness auto
termination
  by (relation "measure length") auto

definition decode_replace :: "string \<Rightarrow> codepoints" where
  "decode_replace raw = utf8_replace (map of_char raw)"

section \<open>Statuses and bodies\<close>

definition RETRYABLE_STATUS :: "int list" where
  "RETRYABLE_STATUS = [502, 503, 504]"

definition MAX_ATTEMPTS :: nat where
  "MAX_ATTEMPTS = 3"

definition BACKOFF_BASE_S :: rat where
  "BACKOFF_BASE_S = 1 / 10"

definition RETRY_AFTER_CAP_S :: rat where
  "RETRY_AFTER_CAP_S = 10"

definition is_retryable_status :: "int \<Rightarrow> bool" where
  "is_retryable_status status = (status \<in> set RETRYABLE_STATUS \<or> status = 429)"

definition TEXTUAL_TYPES :: "string list" where
  "TEXTUAL_TYPES = [''application/json'', ''application/xml'', ''application/yaml'']"

definition is_textual :: "string \<Rightarrow> bool" where
  "is_textual content_type =
     (if content_type = [] then True
      else if starts_with ''text/'' content_type then True
      else content_type \<in> set TEXTUAL_TYPES \<or> ends_with ''+json'' content_type \<or> ends_with ''+xml'' content_type)"

definition bytes_upto :: "int \<Rightarrow> string \<Rightarrow> string" where
  "bytes_upto cap raw =
     (if 0 \<le> cap then take (nat cap) raw else take (nat (int (length raw) + cap)) raw)"

definition map_body :: "string \<Rightarrow> string \<Rightarrow> int \<Rightarrow> codepoints option \<Rightarrow> codepoints \<times> bool" where
  "map_body raw content_type cap decoded_text =
     (if \<not> is_textual content_type
      then (cps (''['' @ nat_str (length raw) @ '' bytes of ''
                 @ (if content_type \<noteq> [] then content_type else ''unknown content type'')
                 @ '', not inlined]''), False)
      else if int (length raw) \<le> cap
      then (case decoded_text of Some t \<Rightarrow> t | None \<Rightarrow> decode_replace raw, False)
      else (decode_replace (bytes_upto cap raw)
            @ cps (CHR 0x0A # CHR 0x0A # ''[truncated: '' @ nat_str (length raw) @ '' bytes total, ''
                   @ int_str cap @ '' shown]''), True))"

section \<open>Delays and budget\<close>

text \<open>\<open>OutboundError\<close>, or another exception that escapes the credential source.\<close>

datatype credential_error = OutboundError string | CredentialCrash string

datatype exec_error =
    AssertionFailed string
  | CredentialFailed credential_error
  | BuildFailed build_error
  | UpstreamTimeout
  | UpstreamFailed string
  | BadRetryAfter string
  | BadToolSchema string

text \<open>
  \<open>str.isdigit\<close> also accepts the superscript digits, which \<open>float\<close> then refuses with a
  \<open>ValueError\<close>: \<open>BadRetryAfter\<close>.
\<close>

definition is_digit_py :: "char \<Rightarrow> bool" where
  "is_digit_py c = (is_digit_ascii c \<or> code c \<in> {0xB2, 0xB3, 0xB9})"

definition str_isdigit :: "string \<Rightarrow> bool" where
  "str_isdigit s = (s \<noteq> [] \<and> list_all is_digit_py s)"

definition digits_value :: "string \<Rightarrow> nat" where
  "digits_value s = foldl (\<lambda>acc c. acc * 10 + (of_char c - 48)) 0 s"

definition float_of_digits :: "string \<Rightarrow> exec_error + rat" where
  "float_of_digits s =
     (if list_all is_digit_ascii s then Inr (of_nat (digits_value s)) else Inl (BadRetryAfter s))"

definition retry_delay_s :: "nat \<Rightarrow> int option \<Rightarrow> string option \<Rightarrow> rat \<Rightarrow> exec_error + rat" where
  "retry_delay_s attempt status_code retry_after draw =
     (case retry_after of
        Some h \<Rightarrow>
          if status_code = Some 429 \<and> h \<noteq> [] \<and> str_isdigit h
          then bind_res (float_of_digits h) (\<lambda>v. Inr (min v RETRY_AFTER_CAP_S))
          else Inr (draw * (BACKOFF_BASE_S * 2 ^ attempt))
      | None \<Rightarrow> Inr (draw * (BACKOFF_BASE_S * 2 ^ attempt)))"

definition remaining_budget_s :: "rat \<Rightarrow> rat \<Rightarrow> int option \<Rightarrow> rat option" where
  "remaining_budget_s now started budget_ms =
     map_option (\<lambda>b. of_int b / 1000 - (now - started)) budget_ms"

text \<open>\<open>Inr None\<close> is the answer False; \<open>Inr (Some d)\<close> is True after sleeping \<open>d\<close>.\<close>

definition wait_for_retry ::
    "rat \<Rightarrow> rat \<Rightarrow> nat \<Rightarrow> http_response option \<Rightarrow> int option \<Rightarrow> rat \<Rightarrow> rat \<Rightarrow> exec_error + rat option" where
  "wait_for_retry now started attempt response max_total_ms per_attempt draw =
     bind_res (retry_delay_s attempt (map_option hr_status response)
                 (case response of None \<Rightarrow> None | Some r \<Rightarrow> hr_retry_after r) draw) (\<lambda>delay.
     case remaining_budget_s now started max_total_ms of
       Some remaining \<Rightarrow> if delay + per_attempt > remaining then Inr None else Inr (Some delay)
     | None \<Rightarrow> Inr (Some delay))"

section \<open>The retry loop\<close>

datatype outcome = TimedOut | Failed string | Response http_response

record attempt_env =
  ae_outcome :: outcome
  ae_took :: rat
  ae_draw :: rat

datatype event = Sent prepared_request | Slept rat

text \<open>
  One run of \<open>for attempt in range(attempts)\<close> from \<open>attempt\<close> on, with \<open>left\<close> iterations to go, at time
  \<open>clock\<close>. The result is what \<open>execute\<close> returns or raises, and the requests and sleeps in order. The
  branch for no iterations left is the code after the loop.
\<close>

fun run_attempts ::
    "(http_response \<Rightarrow> transport_response) \<Rightarrow> upstream_config \<Rightarrow> prepared_request \<Rightarrow> (nat \<Rightarrow> attempt_env) \<Rightarrow> nat
     \<Rightarrow> rat \<Rightarrow> nat \<Rightarrow> nat \<Rightarrow> rat \<Rightarrow> http_response option \<Rightarrow> (exec_error + transport_response) \<times> event list" where
  "run_attempts map_resp up req env attempts started attempt 0 clock prev =
     (case prev of None \<Rightarrow> (Inl (AssertionFailed ''last is not None''), [])
                 | Some r \<Rightarrow> (Inr (map_resp r), []))"
| "run_attempts map_resp up req env attempts started attempt (Suc left) clock prev =
     (let e = env attempt;
          now = clock + ae_took e;
          wait = (\<lambda>r. wait_for_retry now started attempt r (up_max_total_ms up)
                        (of_int (up_timeout_ms up) / 1000) (ae_draw e));
          next = (\<lambda>d prev'. let (res, evs) = run_attempts map_resp up req env attempts started
                                              (attempt + 1) left (now + d) prev'
                            in (res, Sent req # Slept d # evs))
      in case ae_outcome e of
           Failed msg \<Rightarrow> (Inl (UpstreamFailed msg), [Sent req])
         | TimedOut \<Rightarrow>
             if attempt = attempts - 1 then (Inl UpstreamTimeout, [Sent req])
             else (case wait None of
                     Inl err \<Rightarrow> (Inl err, [Sent req])
                   | Inr None \<Rightarrow> (Inl UpstreamTimeout, [Sent req])
                   | Inr (Some d) \<Rightarrow> next d prev)
         | Response r \<Rightarrow>
             if \<not> is_retryable_status (hr_status r) \<or> attempt = attempts - 1
             then (Inr (map_resp r), [Sent req])
             else (case wait (Some r) of
                     Inl err \<Rightarrow> (Inl err, [Sent req])
                   | Inr None \<Rightarrow> (Inr (map_resp r), [Sent req])
                   | Inr (Some d) \<Rightarrow> next d (Some r)))"

definition attempts_for :: "operation \<Rightarrow> nat" where
  "attempts_for op = (if op_effect op \<in> {READ_ONLY, IDEMPOTENT_WRITE} then MAX_ATTEMPTS else 1)"

definition run_request ::
    "(http_response \<Rightarrow> transport_response) \<Rightarrow> upstream_config \<Rightarrow> operation \<Rightarrow> prepared_request
     \<Rightarrow> (nat \<Rightarrow> attempt_env) \<Rightarrow> rat \<Rightarrow> (exec_error + transport_response) \<times> event list" where
  "run_request map_resp up op req env started =
     run_attempts map_resp up req env (attempts_for op) started 0 (attempts_for op) started None"

section \<open>Facts about a run\<close>

fun is_sent :: "event \<Rightarrow> bool" where
  "is_sent (Sent _) = True"
| "is_sent (Slept _) = False"

definition sends :: "event list \<Rightarrow> nat" where
  "sends evs = length (filter is_sent evs)"

fun slept_for :: "event \<Rightarrow> rat" where
  "slept_for (Sent _) = 0"
| "slept_for (Slept d) = d"

text \<open>The wall-clock length of a run: the attempts it made and the sleeps between them.\<close>

definition time_spent :: "(nat \<Rightarrow> attempt_env) \<Rightarrow> nat \<Rightarrow> event list \<Rightarrow> rat" where
  "time_spent env first evs =
     sum_list (map (\<lambda>i. ae_took (env i)) [first..<first + sends evs]) + sum_list (map slept_for evs)"

text \<open>An outcome after which another attempt may be made.\<close>

fun may_retry :: "outcome \<Rightarrow> bool" where
  "may_retry TimedOut = True"
| "may_retry (Response r) = is_retryable_status (hr_status r)"
| "may_retry (Failed _) = False"

lemma sends_simps [simp]:
  "sends [] = 0" "sends (Sent r # evs) = Suc (sends evs)" "sends (Slept d # evs) = sends evs"
  by (simp_all add: sends_def)

lemma time_spent_simps [simp]:
  "time_spent env first [] = 0"
  "time_spent env first [Sent r] = ae_took (env first)"
  "time_spent env first (Sent r # Slept d # evs) = ae_took (env first) + d + time_spent env (Suc first) evs"
  by (simp_all add: time_spent_def upt_conv_Cons del: upt_Suc)

text \<open>One step of the loop: either it is the last, or it sleeps within the budget and goes on.\<close>

lemma run_attempts_cases:
  assumes "run_attempts mr up req env n started k (Suc left) clock prev = (res, evs)"
  obtains
    (stop) "evs = [Sent req]" and "\<And>t. res = Inr t \<Longrightarrow> \<exists>r. ae_outcome (env k) = Response r \<and> t = mr r"
      and "\<And>m. res \<noteq> Inl (AssertionFailed m)"
  | (again) d prev' evs' where "evs = Sent req # Slept d # evs'" and "k \<noteq> n - 1" and "may_retry (ae_outcome (env k))"
      and "run_attempts mr up req env n started (k + 1) left (clock + ae_took (env k) + d) prev' = (res, evs')"
      and "\<exists>r. wait_for_retry (clock + ae_took (env k)) started k r (up_max_total_ms up)
                 (of_int (up_timeout_ms up) / 1000) (ae_draw (env k)) = Inr (Some d)"
      and "prev' = (case ae_outcome (env k) of Response r \<Rightarrow> Some r | _ \<Rightarrow> prev)"
proof -
  have wfr: "wait_for_retry a b c r d e f \<noteq> Inl (AssertionFailed m)" for a b c r d e f m
    by (auto simp: wait_for_retry_def bind_res_eq_Inl retry_delay_s_def float_of_digits_def
        split: option.splits if_splits)
  show thesis
    using assms wfr
    by (auto simp: Let_def split: outcome.splits if_splits sum.splits option.splits prod.splits
        intro: stop again)
qed

text \<open>Everything but the timing, with \<open>k + left = n\<close> as the loop's invariant.\<close>

lemma run_attempts_trace:
  assumes "run_attempts mr up req env n started k (Suc left) clock prev = (res, evs)" and "k + Suc left = n"
  shows "1 \<le> sends evs \<and> sends evs \<le> Suc left
    \<and> set evs \<subseteq> insert (Sent req) (range Slept)
    \<and> (\<forall>i. Suc i < sends evs \<longrightarrow> may_retry (ae_outcome (env (k + i))))
    \<and> (\<forall>m. res \<noteq> Inl (AssertionFailed m))
    \<and> (\<forall>t. res = Inr t \<longrightarrow> (\<exists>r. ae_outcome (env (k + sends evs - 1)) = Response r \<and> t = mr r))"
  using assms
proof (induction left arbitrary: k clock prev res evs)
  case 0
  from 0(1) show ?case
  proof (cases rule: run_attempts_cases)
    case (again d prev' evs')
    then show ?thesis using 0(2) by simp
  qed auto
next
  case (Suc left)
  from Suc.prems(1) show ?case
  proof (cases rule: run_attempts_cases)
    case (again d prev' evs')
    have ih: "1 \<le> sends evs' \<and> sends evs' \<le> Suc left
      \<and> set evs' \<subseteq> insert (Sent req) (range Slept)
      \<and> (\<forall>i. Suc i < sends evs' \<longrightarrow> may_retry (ae_outcome (env (k + 1 + i))))
      \<and> (\<forall>m. res \<noteq> Inl (AssertionFailed m))
      \<and> (\<forall>t. res = Inr t \<longrightarrow> (\<exists>r. ae_outcome (env (k + 1 + sends evs' - 1)) = Response r \<and> t = mr r))"
      using Suc.prems(2) by (intro Suc.IH [OF again(4)]) simp
    have "may_retry (ae_outcome (env (k + i)))" if "Suc i < sends evs" for i
      using that ih again(1,3) by (cases i) auto
    then show ?thesis using ih again(1) by (auto simp: Suc_diff_le)
  qed auto
qed

lemma wait_within_budget:
  assumes "wait_for_retry now started k r (Some b) t draw = Inr (Some d)"
  shows "now - started + d + t \<le> of_int b / 1000"
  using assms by (auto simp: wait_for_retry_def remaining_budget_s_def split: if_splits)

lemma run_attempts_time:
  assumes "run_attempts mr up req env n started k left clock prev = (res, evs)"
    and b: "up_max_total_ms up = Some b" and pos: "0 < up_timeout_ms up"
    and took: "\<And>i. ae_took (env i) \<le> of_int (up_timeout_ms up) / 1000"
    and "left \<noteq> 0 \<Longrightarrow> clock - started + of_int (up_timeout_ms up) / 1000 \<le> bnd" and "of_int b / 1000 \<le> bnd"
    and "clock - started \<le> bnd"
  shows "clock - started + time_spent env k evs \<le> bnd"
  using assms(1,5-7)
proof (induction left arbitrary: k clock prev evs)
  case 0
  then show ?case by (auto split: option.splits)
next
  case (Suc left)
  from Suc.prems(1) show ?case
  proof (cases rule: run_attempts_cases)
    case stop
    then show ?thesis using Suc.prems(2) took [of k] by simp
  next
    case (again d prev' evs')
    from again(5) b have w: "clock + ae_took (env k) - started + d + of_int (up_timeout_ms up) / 1000 \<le> of_int b / 1000"
      by (auto dest: wait_within_budget)
    have "clock + ae_took (env k) + d - started + time_spent env (k + 1) evs' \<le> bnd"
    proof (rule Suc.IH [OF again(4)])
      show "clock + ae_took (env k) + d - started + of_int (up_timeout_ms up) / 1000 \<le> bnd"
        using w Suc.prems(3) by linarith
      have "0 \<le> rat_of_int (up_timeout_ms up) / 1000" using pos by simp
      then show "clock + ae_took (env k) + d - started \<le> bnd"
        using w Suc.prems(3) by linarith
    qed (rule Suc.prems(3))
    then show ?thesis using again(1) by simp
  qed
qed

end
