(* ===== verification/Rar.thy ===== *)
theory Rar
  imports PyJson
begin

text \<open>
  RFC 9396 authorization details (\<open>auth/rar.py\<close>): the coverage predicate and the parsing of a raw
  claim. \<open>AuthorizationDetail\<close> is a record; a tuple field left out of it is the empty list.
\<close>

record auth_detail =
  ad_type :: string
  ad_actions :: "string list"
  ad_locations :: "string list"
  ad_datatypes :: "string list"
  ad_identifier :: "string option"
  ad_privileges :: "string list"

datatype rar_error =
    NotAList
  | EntryNotAnObject
  | TypeNotAString
  | IdentifierNotAString
  | FieldNotStrings string

section \<open>Coverage\<close>

definition covers_one :: "auth_detail \<Rightarrow> auth_detail \<Rightarrow> bool" where
  "covers_one required presented =
     (if ad_type presented \<noteq> ad_type required then False
      else if ad_actions required \<noteq> [] \<and> \<not> set (ad_actions required) \<subseteq> set (ad_actions presented) then False
      else if ad_locations required \<noteq> [] \<and> \<not> set (ad_locations required) \<subseteq> set (ad_locations presented) then False
      else if ad_datatypes required \<noteq> [] \<and> \<not> set (ad_datatypes required) \<subseteq> set (ad_datatypes presented) then False
      else if ad_privileges required \<noteq> [] \<and> \<not> set (ad_privileges required) \<subseteq> set (ad_privileges presented) then False
      else \<not> (ad_identifier required \<noteq> None \<and> ad_identifier presented \<noteq> ad_identifier required))"

definition covers :: "auth_detail \<Rightarrow> auth_detail list \<Rightarrow> bool" where
  "covers required presented = list_ex (covers_one required) presented"

section \<open>Parsing a claim\<close>

fun json_string :: "json \<Rightarrow> string option" where
  "json_string (JStr s) = Some s"
| "json_string _ = None"

definition string_tuple :: "json \<Rightarrow> string \<Rightarrow> rar_error + string list" where
  "string_tuple value field_name =
     (case value of
        JList vs \<Rightarrow>
          (if list_all (\<lambda>v. json_string v \<noteq> None) vs then Inr (List.map_filter json_string vs)
           else Inl (FieldNotStrings field_name))
      | _ \<Rightarrow> Inl (FieldNotStrings field_name))"

definition parse_entry :: "json \<Rightarrow> rar_error + auth_detail" where
  "parse_entry entry =
     (case entry of
        JObj d \<Rightarrow>
          (case jget d ''type'' JNull of
             JStr detail_type \<Rightarrow>
               bind_res (case jget d ''identifier'' JNull of
                           JNull \<Rightarrow> Inr None
                         | JStr s \<Rightarrow> Inr (Some s)
                         | _ \<Rightarrow> Inl IdentifierNotAString) (\<lambda>identifier.
               bind_res (string_tuple (jget d ''actions'' (JList [])) ''actions'') (\<lambda>actions.
               bind_res (string_tuple (jget d ''locations'' (JList [])) ''locations'') (\<lambda>locations.
               bind_res (string_tuple (jget d ''datatypes'' (JList [])) ''datatypes'') (\<lambda>datatypes.
               bind_res (string_tuple (jget d ''privileges'' (JList [])) ''privileges'') (\<lambda>privileges.
               Inr \<lparr>ad_type = detail_type, ad_actions = actions, ad_locations = locations,
                    ad_datatypes = datatypes, ad_identifier = identifier,
                    ad_privileges = privileges\<rparr>)))))
           | _ \<Rightarrow> Inl TypeNotAString)
      | _ \<Rightarrow> Inl EntryNotAnObject)"

definition parse_authorization_details :: "json \<Rightarrow> rar_error + auth_detail list" where
  "parse_authorization_details raw =
     (case raw of JList entries \<Rightarrow> mapM parse_entry entries | _ \<Rightarrow> Inl NotAList)"

section \<open>Coverage is a preorder\<close>

text \<open>
  What the policy engine relies on when it asks whether a principal satisfies a requirement: a
  preorder on details. The engine's lemmas use these two laws only.
\<close>

locale coverage =
  fixes cov :: "'d \<Rightarrow> 'd \<Rightarrow> bool"
  assumes cov_refl: "cov d d"
    and cov_trans: "cov a b \<Longrightarrow> cov b c \<Longrightarrow> cov a c"
begin

lemma list_ex_mono: "set ps \<subseteq> set qs \<Longrightarrow> list_ex (cov r) ps \<Longrightarrow> list_ex (cov r) qs"
  by (auto simp: list_ex_iff)

lemma covered_by_stronger:
  assumes "list_ex (cov r) ps" and "\<And>p. p \<in> set ps \<Longrightarrow> list_ex (cov p) qs"
  shows "list_ex (cov r) qs"
  using assms by (auto simp: list_ex_iff intro: cov_trans)

lemma uncovered_mono:
  assumes "\<And>p. p \<in> set ps \<Longrightarrow> list_ex (cov p) qs"
  shows "set (filter (\<lambda>r. \<not> list_ex (cov r) qs) rs) \<subseteq> set (filter (\<lambda>r. \<not> list_ex (cov r) ps) rs)"
  using covered_by_stronger assms by fastforce

lemma self_covered: "d \<in> set ps \<Longrightarrow> list_ex (cov d) ps"
  by (auto simp: list_ex_iff intro: cov_refl)

end

lemma covers_one_iff:
  "covers_one r p \<longleftrightarrow>
     ad_type p = ad_type r \<and> set (ad_actions r) \<subseteq> set (ad_actions p)
     \<and> set (ad_locations r) \<subseteq> set (ad_locations p) \<and> set (ad_datatypes r) \<subseteq> set (ad_datatypes p)
     \<and> set (ad_privileges r) \<subseteq> set (ad_privileges p)
     \<and> (ad_identifier r = None \<or> ad_identifier p = ad_identifier r)"
  by (auto simp: covers_one_def)

interpretation rar: coverage covers_one
  by unfold_locales (auto simp: covers_one_iff)

lemma covers_Nil [simp]: "\<not> covers r []"
  by (simp add: covers_def)

lemma covers_iff: "covers r ps \<longleftrightarrow> (\<exists>p \<in> set ps. covers_one r p)"
  by (simp add: covers_def list_ex_iff)

section \<open>Parsing facts\<close>

lemma string_tuple_strings: "string_tuple (JList (map JStr ss)) f = Inr ss"
  by (auto simp: string_tuple_def list_all_iff map_filter_def comp_def)

lemma string_tuple_Inr: "string_tuple v f = Inr ss \<longleftrightarrow> v = JList (map JStr ss)"
proof
  assume L: "string_tuple v f = Inr ss"
  then obtain vs where v: "v = JList vs" and all: "list_all (\<lambda>v. json_string v \<noteq> None) vs"
    and ss: "ss = List.map_filter json_string vs"
    by (auto simp: string_tuple_def split: json.splits if_splits)
  from all have "vs = map JStr (List.map_filter json_string vs)"
    by (induction vs) (auto simp: map_filter_simps elim!: json_string.elims)
  then show "v = JList (map JStr ss)" using v ss by simp
next
  assume "v = JList (map JStr ss)"
  then show "string_tuple v f = Inr ss" by (simp add: string_tuple_strings)
qed

lemma parse_authorization_details_length:
  "parse_authorization_details (JList es) = Inr ds \<Longrightarrow> length ds = length es"
  by (auto simp: parse_authorization_details_def mapM_eq_Inr dest: list_all2_lengthD)

lemma parse_entry_type:
  "parse_entry (JObj d) = Inr a \<Longrightarrow> jget d ''type'' JNull = JStr (ad_type a)"
  by (auto simp: parse_entry_def split: json.splits)

end
