(* ===== verification/Transports.thy ===== *)
theory Transports
  imports TransportCommon Rar
begin

text \<open>
  \<open>HttpTransport\<close> and \<open>GraphQlTransport\<close> (\<open>transports/http.py\<close>, \<open>transports/graphql.py\<close>): one call from
  the operation to the mapped response. The credential source is the \<open>CredentialSource\<close> protocol: a
  function that may fail. \<open>loads\<close> is \<open>json.loads\<close> on the raw body (\<open>None\<close> for a \<open>ValueError\<close>), an
  argument because the decoded document may hold any Unicode text.
\<close>

type_synonym credential_get =
  "auth_detail list \<Rightarrow> string option \<Rightarrow> int option \<Rightarrow> credential_error + credential option"

definition content_type_of :: "http_response \<Rightarrow> string" where
  "content_type_of r = str_strip (takeWhile (\<lambda>c. c \<noteq> CHR '';'') (hr_content_type r))"

definition get_credential ::
    "credential_get \<Rightarrow> auth_detail list \<Rightarrow> string option \<Rightarrow> int option \<Rightarrow> exec_error + credential option" where
  "get_credential cred carry token expires =
     (case cred carry token expires of Inl e \<Rightarrow> Inl (CredentialFailed e) | Inr c \<Rightarrow> Inr c)"

definition lift_build :: "build_error + 'a \<Rightarrow> exec_error + 'a" where
  "lift_build r = (case r of Inl e \<Rightarrow> Inl (BuildFailed e) | Inr x \<Rightarrow> Inr x)"

section \<open>HTTP\<close>

definition http_map :: "upstream_config \<Rightarrow> http_response \<Rightarrow> transport_response" where
  "http_map up r =
     (let raw = hr_content r;
          (text, truncated) = map_body raw (content_type_of r) (up_max_response_bytes up) (Some (hr_text r))
      in \<lparr>tr_status = hr_status r, tr_text = text, tr_truncated = truncated, tr_original_bytes = length raw\<rparr>)"

definition http_prepare ::
    "credential_get \<Rightarrow> upstream_config \<Rightarrow> operation \<Rightarrow> jobj \<Rightarrow> auth_detail list \<Rightarrow> string option \<Rightarrow> int option
     \<Rightarrow> exec_error + prepared_request" where
  "http_prepare cred up op args carry token expires =
     (case op_binding op of
        GraphQl _ \<Rightarrow> Inl (AssertionFailed ''isinstance(binding, HttpBinding)'')
      | Http binding \<Rightarrow>
          (case up_base_url up of
             None \<Rightarrow> Inl (AssertionFailed ''base_url is not None'')
           | Some base_url \<Rightarrow>
               bind_res (get_credential cred carry token expires) (\<lambda>credential.
               lift_build (build_request binding base_url args credential))))"

definition http_execute ::
    "credential_get \<Rightarrow> upstream_config \<Rightarrow> operation \<Rightarrow> jobj \<Rightarrow> auth_detail list \<Rightarrow> string option \<Rightarrow> int option
     \<Rightarrow> rat \<Rightarrow> (nat \<Rightarrow> attempt_env) \<Rightarrow> (exec_error + transport_response) \<times> event list" where
  "http_execute cred up op args carry token expires started env =
     (case http_prepare cred up op args carry token expires of
        Inl e \<Rightarrow> (Inl e, [])
      | Inr request \<Rightarrow> run_request (http_map up) up op request env started)"

section \<open>GraphQL\<close>

definition graphql_variables :: "graphql_binding \<Rightarrow> jobj \<Rightarrow> jobj" where
  "graphql_variables binding args =
     dict_of (List.map_filter (\<lambda>v. map_option (Pair (v_name v)) (map_of args (v_name v))) (gb_variables binding))"

definition build_graphql_request ::
    "graphql_binding \<Rightarrow> string \<Rightarrow> jobj \<Rightarrow> credential option \<Rightarrow> prepared_request" where
  "build_graphql_request binding endpoint args credential =
     (let variables = graphql_variables binding args;
          headers0 = [(''Content-Type'', ''application/json'')];
          headers = (case credential of
                       None \<Rightarrow> headers0
                     | Some c \<Rightarrow> AList.update (cred_header c) (cred_value c) headers0);
          body = utf8_encode (json_dumps (JObj [(''query'', JStr (gb_document binding)), (''variables'', JObj variables)]))
      in \<lparr>req_method = ''POST'', req_url = endpoint, req_headers = headers, req_body = Some body\<rparr>)"

definition graphql_errors :: "(string \<Rightarrow> json option) \<Rightarrow> string \<Rightarrow> bool" where
  "graphql_errors loads raw =
     (case loads raw of Some (JObj d) \<Rightarrow> truthy (jget d ''errors'' JNull) | _ \<Rightarrow> False)"

definition graphql_map :: "(string \<Rightarrow> json option) \<Rightarrow> upstream_config \<Rightarrow> http_response \<Rightarrow> transport_response" where
  "graphql_map loads up r =
     (let raw = hr_content r;
          (text, truncated) = map_body raw (content_type_of r) (up_max_response_bytes up) (Some (hr_text r));
          status = (if hr_status r = 200 \<and> graphql_errors loads raw then 502 else hr_status r)
      in \<lparr>tr_status = status, tr_text = text, tr_truncated = truncated, tr_original_bytes = length raw\<rparr>)"

definition graphql_prepare ::
    "credential_get \<Rightarrow> upstream_config \<Rightarrow> operation \<Rightarrow> jobj \<Rightarrow> auth_detail list \<Rightarrow> string option \<Rightarrow> int option
     \<Rightarrow> exec_error + prepared_request" where
  "graphql_prepare cred up op args carry token expires =
     (case op_binding op of
        Http _ \<Rightarrow> Inl (AssertionFailed ''isinstance(binding, GraphQlBinding)'')
      | GraphQl binding \<Rightarrow>
          (case up_base_url up of
             None \<Rightarrow> Inl (AssertionFailed ''base_url is not None'')
           | Some base_url \<Rightarrow>
               bind_res (get_credential cred carry token expires) (\<lambda>credential.
               Inr (build_graphql_request binding base_url args credential))))"

definition graphql_execute ::
    "(string \<Rightarrow> json option) \<Rightarrow> credential_get \<Rightarrow> upstream_config \<Rightarrow> operation \<Rightarrow> jobj \<Rightarrow> auth_detail list
     \<Rightarrow> string option \<Rightarrow> int option \<Rightarrow> rat \<Rightarrow> (nat \<Rightarrow> attempt_env) \<Rightarrow> (exec_error + transport_response) \<times> event list" where
  "graphql_execute loads cred up op args carry token expires started env =
     (case graphql_prepare cred up op args carry token expires of
        Inl e \<Rightarrow> (Inl e, [])
      | Inr request \<Rightarrow> run_request (graphql_map loads up) up op request env started)"

section \<open>The adapter contract\<close>

text \<open>
  What a caller may rely on, whatever the protocol: preparing a request decides whether anything is
  sent at all, everything sent is that request, attempts are bounded by the operation's effect, an
  attempt is repeated only after an outcome that permits it, and what is returned is the mapping of
  the last response.
\<close>

locale transport_adapter =
  fixes prep :: "'a \<Rightarrow> exec_error + prepared_request"
    and effect_of :: "'a \<Rightarrow> operation"
    and resp :: "http_response \<Rightarrow> transport_response"
    and exec :: "'a \<Rightarrow> (nat \<Rightarrow> attempt_env) \<Rightarrow> (exec_error + transport_response) \<times> event list"
  assumes refused: "prep a = Inl e \<Longrightarrow> exec a env = (Inl e, [])"
    and traced: "prep a = Inr req \<Longrightarrow> exec a env = (res, evs) \<Longrightarrow>
      1 \<le> sends evs \<and> sends evs \<le> attempts_for (effect_of a)
      \<and> set evs \<subseteq> insert (Sent req) (range Slept)
      \<and> (\<forall>i. Suc i < sends evs \<longrightarrow> may_retry (ae_outcome (env i)))
      \<and> (\<forall>m. res \<noteq> Inl (AssertionFailed m))
      \<and> (\<forall>t. res = Inr t \<longrightarrow> (\<exists>r. ae_outcome (env (sends evs - 1)) = Response r \<and> t = resp r))"
begin

lemma attempts_bound: "sends (snd (exec a env)) \<le> attempts_for (effect_of a)"
proof (cases "prep a")
  case (Inr req)
  then show ?thesis using traced [of a req env] by (cases "exec a env") auto
qed (simp add: refused attempts_for_def)

lemma action_once: "op_effect (effect_of a) = ACTION \<Longrightarrow> sends (snd (exec a env)) \<le> 1"
  using attempts_bound [of a env] by (simp add: attempts_for_def)

lemma at_most_three: "sends (snd (exec a env)) \<le> 3"
  using attempts_bound [of a env] by (simp add: attempts_for_def MAX_ATTEMPTS_def split: if_splits)

lemma retried_outcome:
  assumes "Suc i < sends (snd (exec a env))"
  shows "may_retry (ae_outcome (env i))"
proof (cases "prep a")
  case (Inr req)
  then show ?thesis using traced [of a req env] assms by (cases "exec a env") auto
qed (use assms in \<open>simp add: refused\<close>)

lemma returned_response:
  assumes "fst (exec a env) = Inr t"
  shows "\<exists>r req. prep a = Inr req \<and> ae_outcome (env (sends (snd (exec a env)) - 1)) = Response r \<and> t = resp r"
proof (cases "prep a")
  case (Inr req)
  then show ?thesis using traced [of a req env] assms by (cases "exec a env") auto
qed (use assms in \<open>simp add: refused\<close>)

lemma sent_requests:
  assumes "Sent q \<in> set (snd (exec a env))"
  shows "prep a = Inr q"
proof (cases "prep a")
  case (Inr req)
  then show ?thesis using traced [of a req env] assms by (cases "exec a env") auto
qed (use assms in \<open>simp add: refused\<close>)

lemma asserts_only_in_prep:
  assumes "fst (exec a env) = Inl (AssertionFailed m)"
  shows "prep a = Inl (AssertionFailed m)"
proof (cases "prep a")
  case (Inr req)
  then show ?thesis using traced [of a req env] assms by (cases "exec a env") auto
qed (use assms in \<open>simp add: refused\<close>)

end

lemma run_request_trace:
  assumes "run_request mr up op req env started = (res, evs)"
  shows "1 \<le> sends evs \<and> sends evs \<le> attempts_for op
    \<and> set evs \<subseteq> insert (Sent req) (range Slept)
    \<and> (\<forall>i. Suc i < sends evs \<longrightarrow> may_retry (ae_outcome (env i)))
    \<and> (\<forall>m. res \<noteq> Inl (AssertionFailed m))
    \<and> (\<forall>t. res = Inr t \<longrightarrow> (\<exists>r. ae_outcome (env (sends evs - 1)) = Response r \<and> t = mr r))"
proof -
  have "attempts_for op \<noteq> 0" by (simp add: attempts_for_def MAX_ATTEMPTS_def)
  then obtain left where left: "attempts_for op = Suc left" using not0_implies_Suc by blast
  show ?thesis
    using run_attempts_trace [of mr up req env "Suc left" started 0 left started None res evs] assms left
    by (simp add: run_request_def)
qed

interpretation http: transport_adapter
  "\<lambda>(op, args, carry, token, expires). http_prepare cred up op args carry token expires"
  "\<lambda>(op, _). op" "http_map up"
  "\<lambda>(op, args, carry, token, expires). http_execute cred up op args carry token expires started"
  for cred up started
proof unfold_locales
  fix a req env res evs
  assume "(case a of (op, args, carry, token, expires) \<Rightarrow> http_prepare cred up op args carry token expires) = Inr req"
    and "(case a of (op, args, carry, token, expires) \<Rightarrow> http_execute cred up op args carry token expires started) env = (res, evs)"
  then show "1 \<le> sends evs \<and> sends evs \<le> attempts_for (case a of (op, _) \<Rightarrow> op)
      \<and> set evs \<subseteq> insert (Sent req) (range Slept)
      \<and> (\<forall>i. Suc i < sends evs \<longrightarrow> may_retry (ae_outcome (env i)))
      \<and> (\<forall>m. res \<noteq> Inl (AssertionFailed m))
      \<and> (\<forall>t. res = Inr t \<longrightarrow> (\<exists>r. ae_outcome (env (sends evs - 1)) = Response r \<and> t = http_map up r))"
    by (cases a) (rule run_request_trace [of _ up _ _ _ started], simp add: http_execute_def)
qed (auto simp: http_execute_def)

interpretation graphql: transport_adapter
  "\<lambda>(op, args, carry, token, expires). graphql_prepare cred up op args carry token expires"
  "\<lambda>(op, _). op" "graphql_map loads up"
  "\<lambda>(op, args, carry, token, expires). graphql_execute loads cred up op args carry token expires started"
  for loads cred up started
proof unfold_locales
  fix a req env res evs
  assume "(case a of (op, args, carry, token, expires) \<Rightarrow> graphql_prepare cred up op args carry token expires) = Inr req"
    and "(case a of (op, args, carry, token, expires) \<Rightarrow> graphql_execute loads cred up op args carry token expires started) env = (res, evs)"
  then show "1 \<le> sends evs \<and> sends evs \<le> attempts_for (case a of (op, _) \<Rightarrow> op)
      \<and> set evs \<subseteq> insert (Sent req) (range Slept)
      \<and> (\<forall>i. Suc i < sends evs \<longrightarrow> may_retry (ae_outcome (env i)))
      \<and> (\<forall>m. res \<noteq> Inl (AssertionFailed m))
      \<and> (\<forall>t. res = Inr t \<longrightarrow> (\<exists>r. ae_outcome (env (sends evs - 1)) = Response r \<and> t = graphql_map loads up r))"
    by (cases a) (rule run_request_trace [of _ up _ _ _ started], simp add: graphql_execute_def)
qed (auto simp: graphql_execute_def)

section \<open>Bodies\<close>

lemma utf8_replace_length: "length (utf8_replace bs) \<le> length bs"
proof (induction bs rule: utf8_replace.induct)
  case (2 b bs)
  show ?case
  proof (cases "b < 0x80")
    case True
    then show ?thesis using "2.IH"(1) by simp
  next
    case b: False
    show ?thesis
    proof (cases "utf8_lead b")
      case None
      then show ?thesis using b "2.IH"(2) by simp
    next
      case (Some l)
      obtain lo hi extra where l: "l = (lo, hi, extra)" by (cases l)
      show ?thesis
      proof (cases bs)
        case Nil
        then show ?thesis using b Some l by simp
      next
        case (Cons c cs)
        let ?run = "takeWhile is_continuation (take extra cs)"
        show ?thesis
        proof (cases "lo \<le> c \<and> c \<le> hi")
          case True
          have "length (utf8_replace (drop (length ?run) cs)) \<le> length (drop (length ?run) cs)"
            by (rule "2.IH"(4) [OF b Some _ _ Cons]) (use True l in simp_all)
          then show ?thesis using b Some l Cons True by (simp add: Let_def)
        next
          case False
          have "length (utf8_replace (c # cs)) \<le> length (c # cs)"
            by (rule "2.IH"(3) [OF b Some _ _ Cons]) (use False l in simp_all)
          then show ?thesis using b Some l Cons False by simp
        qed
      qed
    qed
  qed
qed simp

lemma decode_replace_length: "length (decode_replace raw) \<le> length raw"
  using utf8_replace_length [of "map of_char raw"] by (simp add: decode_replace_def)

definition truncation_note :: "nat \<Rightarrow> int \<Rightarrow> codepoints" where
  "truncation_note n cap =
     cps (CHR 0x0A # CHR 0x0A # ''[truncated: '' @ nat_str n @ '' bytes total, '' @ int_str cap @ '' shown]'')"

lemma graphql_variables_lookup:
  "map_of (graphql_variables binding args) k =
     (if k \<in> v_name ` set (gb_variables binding) then map_of args k else None)"
proof -
  have "map_of (rev (List.map_filter (\<lambda>v. map_option (Pair (v_name v)) (map_of args (v_name v))) vs)) k
      = (if k \<in> v_name ` set vs then map_of args k else None)" for vs :: "gql_variable list"
  proof (induction vs)
    case (Cons v vs)
    then show ?case by (cases "map_of args (v_name v)") (auto simp: map_filter_simps map_add_def fun_upd_def split: option.splits if_splits)
  qed (simp add: map_filter_simps)
  then show ?thesis by (simp add: graphql_variables_def map_of_dict_of)
qed

section \<open>Properties\<close>

definition sample_response :: "int \<Rightarrow> http_response" where
  "sample_response status =
     \<lparr>hr_status = status, hr_content_type = ''application/json; charset=utf-8'', hr_retry_after = Some ''1'',
      hr_content = ''{}'', hr_text = cps ''{}''\<rparr>"

definition sample_env :: "nat \<Rightarrow> attempt_env" where
  "sample_env i =
     \<lparr>ae_outcome = (if i = 0 then TimedOut else if i = 1 then Response (sample_response 429) else Response (sample_response 200)),
      ae_took = 1, ae_draw = 1 / 2\<rparr>"

definition sample_http_op :: operation where
  "sample_http_op = (sample_op ''o'')\<lparr>op_binding := Http (sample_binding\<lparr>hb_parameters := [], hb_path := ''/c'', hb_body := None\<rparr>)\<rparr>"

definition sample_call_up :: upstream_config where
  "sample_call_up = sample_upstream\<lparr>up_max_total_ms := Some 15000\<rparr>"

definition sample_prepared :: prepared_request where
  "sample_prepared = \<lparr>req_method = ''POST'', req_url = ''http://u/c'', req_headers = [], req_body = None\<rparr>"

definition sample_run :: "(exec_error + transport_response) \<times> event list" where
  "sample_run =
     (Inr \<lparr>tr_status = 200, tr_text = cps ''{}'', tr_truncated = False, tr_original_bytes = 2\<rparr>,
      [Sent sample_prepared, Slept (1 / 20), Sent sample_prepared, Slept 1, Sent sample_prepared])"

lemma sample_http_run:
  "http_execute (\<lambda>_ _ _. Inr None) sample_call_up sample_http_op [] [] None None 0 sample_env = sample_run"
  by code_simp

text \<open>C31. Retries of the HTTP transport are safe: an operation classified as an action is sent at most once,
  anything else at most three times; every request sent is the one that was built; an attempt
  follows only a timeout or a retryable status (429, 502, 503, 504); what is returned is the mapping of the
  last response; and for an HTTP binding with a base URL no assertion of the code fails.\<close>

theorem http_retry_safe:
  assumes "http_execute cred up op args carry token expires started env = (res, evs)"
  shows "sends evs \<le> 3 \<and> (op_effect op = ACTION \<longrightarrow> sends evs \<le> 1)
         \<and> (\<forall>q. Sent q \<in> set evs \<longrightarrow> http_prepare cred up op args carry token expires = Inr q)
         \<and> (\<forall>i. Suc i < sends evs \<longrightarrow> may_retry (ae_outcome (env i)))
         \<and> (\<forall>t. res = Inr t \<longrightarrow> (\<exists>r. ae_outcome (env (sends evs - 1)) = Response r \<and> t = http_map up r))
         \<and> ((\<exists>b. op_binding op = Http b) \<and> up_base_url up \<noteq> None \<longrightarrow> (\<forall>m. res \<noteq> Inl (AssertionFailed m)))"
proof -
  let ?a = "(op, args, carry, token, expires)"
  have "res \<noteq> Inl (AssertionFailed m)" if "op_binding op = Http b" "up_base_url up = Some u" for b u m
    using http.asserts_only_in_prep [of cred up started ?a env m] assms that
    by (auto simp: http_prepare_def bind_res_eq_Inl get_credential_def lift_build_def split: sum.splits)
  then show ?thesis
    using http.at_most_three [of cred up started ?a env] http.action_once [of ?a cred up started env]
      http.sent_requests [of _ cred up started ?a env] http.retried_outcome [of _ cred up started ?a env]
      http.returned_response [of cred up started ?a env] assms
    by auto
qed

theorem http_retry_safe_witness: "sends (snd sample_run) \<le> 3"
  using http_retry_safe [OF sample_http_run [unfolded sample_run_def]] by (simp add: sample_run_def)

definition sample_gql_env :: "nat \<Rightarrow> attempt_env" where
  "sample_gql_env i = \<lparr>ae_outcome = Response (sample_response 200), ae_took = 1, ae_draw = 0\<rparr>"

definition sample_gql_request :: prepared_request where
  "sample_gql_request = build_graphql_request
     \<lparr>gb_operation_type = ''query'', gb_document = [], gb_variables = []\<rparr> ''http://u'' [] None"

definition sample_gql_run :: "(exec_error + transport_response) \<times> event list" where
  "sample_gql_run =
     (Inr \<lparr>tr_status = 200, tr_text = cps ''{}'', tr_truncated = False, tr_original_bytes = 2\<rparr>, [Sent sample_gql_request])"

lemma sample_gql_execute:
  "graphql_execute (\<lambda>_. Some (JObj [])) (\<lambda>_ _ _. Inr None) sample_call_up (sample_op ''o'') [] [] None None 0 sample_gql_env
   = (fst sample_gql_run, snd sample_gql_run)"
  by code_simp

text \<open>The same contract holds of the GraphQL transport, whose loop is written separately.\<close>

theorem graphql_retry_safe:
  assumes "graphql_execute loads cred up op args carry token expires started env = (res, evs)"
  shows "sends evs \<le> 3 \<and> (op_effect op = ACTION \<longrightarrow> sends evs \<le> 1)
         \<and> (\<forall>q. Sent q \<in> set evs \<longrightarrow> graphql_prepare cred up op args carry token expires = Inr q)
         \<and> (\<forall>i. Suc i < sends evs \<longrightarrow> may_retry (ae_outcome (env i)))
         \<and> (\<forall>t. res = Inr t \<longrightarrow> (\<exists>r. ae_outcome (env (sends evs - 1)) = Response r \<and> t = graphql_map loads up r))
         \<and> ((\<exists>b. op_binding op = GraphQl b) \<and> up_base_url up \<noteq> None \<longrightarrow> (\<forall>m. res \<noteq> Inl (AssertionFailed m)))"
proof -
  let ?a = "(op, args, carry, token, expires)"
  have "res \<noteq> Inl (AssertionFailed m)" if "op_binding op = GraphQl b" "up_base_url up = Some u" for b u m
    using graphql.asserts_only_in_prep [where loads = loads and cred = cred and up = up and started = started and env = env and a = ?a and m = m] assms that
    by (auto simp: graphql_prepare_def bind_res_eq_Inl get_credential_def split: sum.splits)
  then show ?thesis
    using graphql.at_most_three [where loads = loads and cred = cred and up = up and started = started and env = env and a = ?a] graphql.action_once [where loads = loads and cred = cred and up = up and started = started and env = env and a = ?a]
      graphql.sent_requests [where loads = loads and cred = cred and up = up and started = started and env = env and a = ?a] graphql.retried_outcome [where loads = loads and cred = cred and up = up and started = started and env = env and a = ?a]
      graphql.returned_response [where loads = loads and cred = cred and up = up and started = started and env = env and a = ?a] assms
    by auto
qed

theorem graphql_retry_safe_witness: "sends (snd sample_gql_run) = 1"
  using graphql_retry_safe [OF sample_gql_execute] by (simp add: sample_gql_run_def sample_op_def)

text \<open>C38. The total budget bounds the call: when every attempt keeps to the attempt timeout, attempts and
  sleeps together last no longer than the larger of one attempt timeout and the configured total.\<close>

theorem run_within_budget:
  assumes "run_request mr up op req env started = (res, evs)"
    and "up_max_total_ms up = Some b" and "0 < up_timeout_ms up"
    and "\<And>i. ae_took (env i) \<le> of_int (up_timeout_ms up) / 1000"
  shows "time_spent env 0 evs \<le> max (of_int (up_timeout_ms up) / 1000) (of_int b / 1000)"
proof -
  let ?m = "max (of_int (up_timeout_ms up) / 1000) (rat_of_int b / 1000)"
  have "0 \<le> rat_of_int (up_timeout_ms up) / 1000" using assms(3) by simp
  then have "0 \<le> ?m" by linarith
  then have "started - started + time_spent env 0 evs \<le> ?m"
    using assms by (intro run_attempts_time) (auto simp: run_request_def)
  then show ?thesis by simp
qed

theorem run_within_budget_witness: "time_spent sample_env 0 (snd sample_run) \<le> max 5 15"
proof -
  have "run_request (http_map sample_call_up) sample_call_up sample_http_op sample_prepared sample_env 0 = (fst sample_run, snd sample_run)"
    by code_simp
  from run_within_budget [OF this, of 15000] show ?thesis
    by (simp add: sample_call_up_def sample_upstream_def sample_env_def)
qed

text \<open>GraphQL errors always fail the call: when a 2xx result is returned, the last response had that
  very status, and if it was 200 its body carries no \<open>errors\<close>, however large or binary the body.\<close>

theorem graphql_success_sound:
  assumes "graphql_execute loads cred up op args carry token expires started env = (Inr t, evs)"
    and "200 \<le> tr_status t" and "tr_status t < 300"
  shows "\<exists>r. ae_outcome (env (sends evs - 1)) = Response r \<and> hr_status r = tr_status t
             \<and> \<not> (hr_status r = 200 \<and> graphql_errors loads (hr_content r))"
proof -
  obtain r where "ae_outcome (env (sends evs - 1)) = Response r" "t = graphql_map loads up r"
    using graphql.returned_response [where loads = loads and cred = cred and up = up and started = started and env = env and a = "(op, args, carry, token, expires)" and t = t] assms(1) by auto
  then show ?thesis
    using assms(2,3) by (auto simp: graphql_map_def Let_def case_prod_beta split: if_splits)
qed

theorem graphql_success_sound_witness: "\<exists>r :: http_response. hr_status r = 200 \<and> \<not> graphql_errors (\<lambda>_. Some (JObj [])) (hr_content r)"
  using graphql_success_sound [OF sample_gql_execute [unfolded sample_gql_run_def fst_conv]] by auto

text \<open>Response size: a textual body longer than the cap is cut to at most \<open>cap\<close> characters decoded from
  its first \<open>cap\<close> bytes, followed by the note that says so, and is marked truncated; nothing else is.\<close>

theorem map_body_bounded:
  assumes "map_body raw content_type cap decoded = (text, truncated)" and "0 \<le> cap"
  shows "truncated = (is_textual content_type \<and> cap < int (length raw))
         \<and> (truncated \<longrightarrow> (\<exists>shown. text = shown @ truncation_note (length raw) cap
               \<and> int (length shown) \<le> cap \<and> shown = decode_replace (take (nat cap) raw)))"
proof -
  have "int (length (decode_replace (take (nat cap) raw))) \<le> cap"
    using decode_replace_length [of "take (nat cap) raw"] assms(2) by (simp add: min_def split: if_splits)
  then show ?thesis
    using assms by (auto simp: map_body_def truncation_note_def bytes_upto_def split: if_splits)
qed

theorem map_body_bounded_witness:
  "snd (map_body ''abc'' ''text/plain'' 2 None)"
  using map_body_bounded [of "''abc''" "''text/plain''" 2 None] by (cases "map_body ''abc'' ''text/plain'' 2 None") (simp add: is_textual_def starts_with_def)

text \<open>A GraphQL request sends exactly the arguments that are declared variables, as JSON variables, and
  never splices them into the document.\<close>

theorem graphql_request_exact:
  "req_body (build_graphql_request binding endpoint args cred)
     = Some (utf8_encode (json_dumps (JObj [(''query'', JStr (gb_document binding)),
                                             (''variables'', JObj (graphql_variables binding args))])))
   \<and> map_of (graphql_variables binding args) k =
       (if k \<in> v_name ` set (gb_variables binding) then map_of args k else None)
   \<and> req_url (build_graphql_request binding endpoint args cred) = endpoint"
  by (simp add: build_graphql_request_def Let_def graphql_variables_lookup del: json_dumps.simps)

end
