(* ===== verification/Loader.thy ===== *)
theory Loader
  imports BuildRequest ConfigModels PyJson
begin

text \<open>
  Loading checks (\<open>config/loader.py\<close>): secret references, the header denylist over the configured and
  over any list of operations, and the collection of secrets from the raw document. Reading and
  parsing files is outside; the environment is a map, the file system a function from a path to its
  text or the message of an \<open>OSError\<close>.
\<close>

datatype config_error =
    NotASecretReference string
  | EnvNotSet string
  | CannotReadSecret string string
  | DenylistedHeader string string
  | FlattenFailed string flatten_error
  | Uncaught flatten_error
  | UnresolvedSecret string
  | StaticWithoutValue
  | BadLocalPrincipal
  | NameCollision "string list"

section \<open>Definitions\<close>

definition DENYLISTED_HEADERS :: "string list" where
  "DENYLISTED_HEADERS =
     [''authorization'', ''proxy-authorization'', ''host'', ''cookie'', ''set-cookie'', ''content-length'',
      ''transfer-encoding'', ''connection'', ''upgrade'', ''te'', ''trailer'', ''expect'']"

definition DENYLISTED_PREFIXES :: "string list" where
  "DENYLISTED_PREFIXES = [''proxy-'', ''x-forwarded-'']"

definition is_denylisted :: "string \<Rightarrow> string list \<Rightarrow> bool" where
  "is_denylisted header extra =
     (let lowered = str_lower header
      in lowered \<in> set DENYLISTED_HEADERS \<or> lowered \<in> set extra
         \<or> list_ex (\<lambda>p. starts_with p lowered) DENYLISTED_PREFIXES)"

definition credential_headers_for :: "portal_config \<Rightarrow> string list" where
  "credential_headers_for config =
     map (\<lambda>(_, u). str_lower (ob_header (up_outbound u)))
       (filter (\<lambda>(_, u). ob_mode (up_outbound u) \<noteq> OutNone) (pc_upstreams config))"

definition entry_header :: "parameter_entry \<Rightarrow> string" where
  "entry_header p = (case pe_wire_name p of Some w \<Rightarrow> if w \<noteq> [] then w else pe_arg p | None \<Rightarrow> pe_arg p)"

fun check_entry_params :: "string \<Rightarrow> string list \<Rightarrow> parameter_entry list \<Rightarrow> config_error + unit" where
  "check_entry_params oid creds [] = Inr ()"
| "check_entry_params oid creds (p # ps) =
     (if pe_location p = HEADER \<and> is_denylisted (entry_header p) creds
      then Inl (DenylistedHeader oid (entry_header p))
      else check_entry_params oid creds ps)"

fun check_entries :: "string list \<Rightarrow> operation_entry list \<Rightarrow> config_error + unit" where
  "check_entries creds [] = Inr ()"
| "check_entries creds (e # es) =
     (case oe_binding e of
        HttpEntry b \<Rightarrow>
          bind_res (check_entry_params (oe_id e) creds (he_parameters b)) (\<lambda>_. check_entries creds es)
      | GraphQlEntry _ \<Rightarrow> check_entries creds es)"

definition check_header_denylist :: "portal_config \<Rightarrow> config_error + unit" where
  "check_header_denylist config = check_entries (credential_headers_for config) (pc_operations config)"

fun check_params_headers :: "string \<Rightarrow> string list \<Rightarrow> parameter list \<Rightarrow> config_error + unit" where
  "check_params_headers oid creds [] = Inr ()"
| "check_params_headers oid creds (p # ps) =
     (if p_location p = HEADER \<and> is_denylisted (p_wire_name p) creds
      then Inl (DenylistedHeader oid (p_wire_name p))
      else check_params_headers oid creds ps)"

fun check_operation_headers :: "operation list \<Rightarrow> string list \<Rightarrow> config_error + unit" where
  "check_operation_headers [] creds = Inr ()"
| "check_operation_headers (op # ops) creds =
     (case op_binding op of
        Http b \<Rightarrow>
          bind_res (check_params_headers (op_id op) creds (hb_parameters b))
            (\<lambda>_. check_operation_headers ops creds)
      | GraphQl _ \<Rightarrow> check_operation_headers ops creds)"

definition resolve_path :: "string \<Rightarrow> string \<Rightarrow> string" where
  "resolve_path base_dir target =
     (if starts_with ''/'' target then target
      else if ends_with ''/'' base_dir then base_dir @ target else base_dir @ ''/'' @ target)"

definition resolve_secret ::
    "(string \<rightharpoonup> string) \<Rightarrow> (string \<Rightarrow> string + string) \<Rightarrow> string \<Rightarrow> string \<Rightarrow> config_error + string" where
  "resolve_secret env read_text ref base_dir =
     (if \<not> is_secret_ref ref then Inl (NotASecretReference ref)
      else
        let inner = butlast (drop 2 ref);
            kind = takeWhile (\<lambda>c. c \<noteq> CHR '':'') inner;
            target = tl (dropWhile (\<lambda>c. c \<noteq> CHR '':'') inner)
        in if kind = ''env''
           then (case env target of None \<Rightarrow> Inl (EnvNotSet target) | Some v \<Rightarrow> Inr v)
           else (case read_text (resolve_path base_dir target) of
                   Inl msg \<Rightarrow> Inl (CannotReadSecret (resolve_path base_dir target) msg)
                 | Inr text \<Rightarrow> Inr (if ends_with [CHR 0x0A] text then butlast text else text)))"

fun collect_secrets ::
    "(string \<Rightarrow> config_error + string) \<Rightarrow> json \<Rightarrow> (string, string) pydict \<Rightarrow> config_error + (string, string) pydict"
  and collect_list ::
    "(string \<Rightarrow> config_error + string) \<Rightarrow> json list \<Rightarrow> (string, string) pydict \<Rightarrow> config_error + (string, string) pydict"
  and collect_fields ::
    "(string \<Rightarrow> config_error + string) \<Rightarrow> (string \<times> json) list \<Rightarrow> (string, string) pydict \<Rightarrow> config_error + (string, string) pydict"
where
  "collect_secrets resolve (JStr s) out =
     (if is_secret_ref s then bind_res (resolve s) (\<lambda>v. Inr (AList.update s v out)) else Inr out)"
| "collect_secrets resolve (JObj d) out = collect_fields resolve d out"
| "collect_secrets resolve (JList vs) out = collect_list resolve vs out"
| "collect_secrets resolve JNull out = Inr out"
| "collect_secrets resolve (JBool b) out = Inr out"
| "collect_secrets resolve (JInt i) out = Inr out"
| "collect_secrets resolve (JFloat q s) out = Inr out"
| "collect_list resolve [] out = Inr out"
| "collect_list resolve (v # vs) out =
     bind_res (collect_secrets resolve v out) (\<lambda>out'. collect_list resolve vs out')"
| "collect_fields resolve [] out = Inr out"
| "collect_fields resolve ((k, v) # ps) out =
     bind_res (collect_secrets resolve v out) (\<lambda>out'. collect_fields resolve ps out')"

section \<open>The denylist over operations\<close>

lemma check_params_headers_Inr:
  "check_params_headers oid creds ps = Inr u \<longleftrightarrow>
     (\<forall>p \<in> set ps. p_location p = HEADER \<longrightarrow> \<not> is_denylisted (p_wire_name p) creds)"
  by (induction ps) auto

lemma check_operation_headers_Inr:
  "check_operation_headers ops creds = Inr u \<longleftrightarrow>
     (\<forall>op \<in> set ops. \<forall>b. op_binding op = Http b \<longrightarrow>
        (\<forall>p \<in> set (hb_parameters b). p_location p = HEADER \<longrightarrow> \<not> is_denylisted (p_wire_name p) creds))"
  by (induction ops) (auto simp: check_params_headers_Inr split: binding.splits)

lemma check_entry_params_Inr:
  "check_entry_params oid creds ps = Inr u \<longleftrightarrow>
     (\<forall>p \<in> set ps. pe_location p = HEADER \<longrightarrow> \<not> is_denylisted (entry_header p) creds)"
  by (induction ps) auto

lemma check_entries_Inr:
  "check_entries creds es = Inr u \<longleftrightarrow>
     (\<forall>e \<in> set es. \<forall>b. oe_binding e = HttpEntry b \<longrightarrow>
        (\<forall>p \<in> set (he_parameters b). pe_location p = HEADER \<longrightarrow> \<not> is_denylisted (entry_header p) creds))"
  by (induction es) (auto simp: check_entry_params_Inr split: binding_entry.splits)

lemma denylisted_lower: "str_lower a = str_lower b \<Longrightarrow> is_denylisted a creds = is_denylisted b creds"
  by (simp add: is_denylisted_def)

section \<open>Secrets\<close>

lemma collect_dom:
  "collect_secrets f j out = Inr out' \<Longrightarrow> dom (map_of out) \<subseteq> dom (map_of out')"
  "collect_list f vs out = Inr out' \<Longrightarrow> dom (map_of out) \<subseteq> dom (map_of out')"
  "collect_fields f ps out = Inr out' \<Longrightarrow> dom (map_of out) \<subseteq> dom (map_of out')"
proof (induction f j out and f vs out and f ps out arbitrary: out' and out' and out' rule: collect_secrets_collect_list_collect_fields.induct)
  case (1 resolve s out)
  then show ?case by (auto simp: update_conv' split: if_splits)
qed (auto, blast+)

text \<open>The strings a document holds, at any depth.\<close>

fun strings_of :: "json \<Rightarrow> string set" where
  "strings_of (JStr s) = {s}"
| "strings_of (JList vs) = (\<Union>v \<in> set vs. strings_of v)"
| "strings_of (JObj d) = (\<Union>p \<in> set d. strings_of (snd p))"
| "strings_of _ = {}"

lemma collect_complete:
  "collect_secrets f j out = Inr out' \<Longrightarrow> s \<in> strings_of j \<Longrightarrow> is_secret_ref s \<Longrightarrow> s \<in> dom (map_of out')"
  "collect_list f vs out = Inr out' \<Longrightarrow> s \<in> (\<Union>v \<in> set vs. strings_of v) \<Longrightarrow> is_secret_ref s \<Longrightarrow> s \<in> dom (map_of out')"
  "collect_fields f ps out = Inr out' \<Longrightarrow> s \<in> (\<Union>p \<in> set ps. strings_of (snd p)) \<Longrightarrow> is_secret_ref s \<Longrightarrow> s \<in> dom (map_of out')"
proof (induction f j out and f vs out and f ps out arbitrary: out' and out' and out' rule: collect_secrets_collect_list_collect_fields.induct)
  case (9 resolve v vs out)
  then show ?case using collect_dom(2) by fastforce
next
  case (11 resolve k v ps out)
  then show ?case using collect_dom(3) by fastforce
qed (auto simp: update_conv' split: if_splits)

end
