(* ===== verification/Fnmatch.thy ===== *)
theory Fnmatch
  imports PyStr
begin

text \<open>
  \<open>fnmatch.fnmatch(name, pattern)\<close> of the standard library on a POSIX system (no case folding), the
  glob matcher of every \<open>ids\<close> pattern. \<open>*\<close>, \<open>?\<close>, \<open>[seq]\<close> and \<open>[!seq]\<close> as
  \<open>fnmatch.translate\<close> builds them, an unclosed \<open>[\<close> being a literal. A bracket that holds an empty
  range drops it before the library looks at the first character for a negation, and so does
  \<open>bracket_token\<close>.
\<close>

datatype class_item = Single char | Range char char

datatype glob_token =
    AnyRun
  | AnyChar
  | Lit char
  | Class bool "class_item list"

fun class_items :: "string \<Rightarrow> class_item list" where
  "class_items (a # m # b # cs) =
     (if m = CHR ''-'' then Range a b # class_items cs else Single a # class_items (m # b # cs))"
| "class_items (a # cs) = Single a # class_items cs"
| "class_items [] = []"

fun item_nonempty :: "class_item \<Rightarrow> bool" where
  "item_nonempty (Single c) = True"
| "item_nonempty (Range a b) = (code a \<le> code b)"

fun item_has :: "char \<Rightarrow> class_item \<Rightarrow> bool" where
  "item_has c (Single d) = (c = d)"
| "item_has c (Range a b) = (code a \<le> code c \<and> code c \<le> code b)"

definition bracket_token :: "string \<Rightarrow> glob_token" where
  "bracket_token stuff =
     (let items = (case stuff of
                     c # cs \<Rightarrow> if c = CHR ''!'' then Single c # class_items cs else class_items stuff
                   | [] \<Rightarrow> [])
      in case filter item_nonempty items of
           Single c # rest \<Rightarrow>
             if c = CHR ''!'' then Class True rest else Class False (Single c # rest)
         | Range a b # rest \<Rightarrow>
             if a = CHR ''!'' then Class True (Single (CHR ''-'') # Single b # rest)
             else Class False (Range a b # rest)
         | [] \<Rightarrow> Class False [])"

text \<open>
  The text of a bracket: an optional \<open>!\<close>, an optional \<open>]\<close> taken literally, then everything up to
  the next \<open>]\<close>. \<open>None\<close> when the bracket is not closed.
\<close>

definition upto_close :: "string \<Rightarrow> (string \<times> string) option" where
  "upto_close cs =
     (if CHR '']'' \<in> set cs
      then Some (takeWhile (\<lambda>c. c \<noteq> CHR '']'') cs, tl (dropWhile (\<lambda>c. c \<noteq> CHR '']'') cs))
      else None)"

definition split_bracket :: "string \<Rightarrow> (string \<times> string) option" where
  "split_bracket cs =
     (let (bang, r1) = (case cs of c # cs' \<Rightarrow> if c = CHR ''!'' then ([c], cs') else ([], cs)
                                 | [] \<Rightarrow> ([], []));
          (clo, r2) = (case r1 of c # cs' \<Rightarrow> if c = CHR '']'' then ([c], cs') else ([], r1)
                                | [] \<Rightarrow> ([], []))
      in map_option (\<lambda>(inner, rest). (bang @ clo @ inner, rest)) (upto_close r2))"

lemma upto_close_shorter: "upto_close cs = Some (inner, rest) \<Longrightarrow> length rest < length cs"
proof -
  assume u: "upto_close cs = Some (inner, rest)"
  then have "CHR '']'' \<in> set cs" and r: "rest = tl (dropWhile (\<lambda>c. c \<noteq> CHR '']'') cs)"
    by (auto simp: upto_close_def split: if_splits)
  then have "dropWhile (\<lambda>c. c \<noteq> CHR '']'') cs \<noteq> []" by (auto simp: dropWhile_eq_Nil_conv)
  moreover have "length (dropWhile (\<lambda>c. c \<noteq> CHR '']'') cs) \<le> length cs" by (rule length_dropWhile_le)
  ultimately show "length rest < length cs" using r
    by (cases "dropWhile (\<lambda>c. c \<noteq> CHR '']'') cs") auto
qed

lemma split_bracket_shorter [termination_simp]:
  "split_bracket cs = Some (stuff, rest) \<Longrightarrow> length rest < Suc (length cs)"
  by (auto simp: split_bracket_def Let_def split: list.splits if_splits
      dest!: upto_close_shorter)

fun glob_tokens :: "string \<Rightarrow> glob_token list" where
  "glob_tokens [] = []"
| "glob_tokens (c # cs) =
     (if c = CHR ''*'' then AnyRun # glob_tokens cs
      else if c = CHR ''?'' then AnyChar # glob_tokens cs
      else if c = CHR ''['' then
        (case split_bracket cs of
           None \<Rightarrow> Lit c # glob_tokens cs
         | Some (stuff, rest) \<Rightarrow> bracket_token stuff # glob_tokens rest)
      else Lit c # glob_tokens cs)"

fun glob_match :: "glob_token list \<Rightarrow> string \<Rightarrow> bool" where
  "glob_match [] s = (s = [])"
| "glob_match (AnyRun # ts) [] = glob_match ts []"
| "glob_match (AnyRun # ts) (c # s) = (glob_match ts (c # s) \<or> glob_match (AnyRun # ts) s)"
| "glob_match (AnyChar # ts) [] = False"
| "glob_match (AnyChar # ts) (c # s) = glob_match ts s"
| "glob_match (Lit d # ts) [] = False"
| "glob_match (Lit d # ts) (c # s) = (c = d \<and> glob_match ts s)"
| "glob_match (Class neg items # ts) [] = False"
| "glob_match (Class neg items # ts) (c # s) =
     (list_ex (item_has c) items \<noteq> neg \<and> glob_match ts s)"

definition fnmatch :: "string \<Rightarrow> string \<Rightarrow> bool" where
  "fnmatch name pat = glob_match (glob_tokens pat) name"

text \<open>A pattern with no special character matches itself only; \<open>*\<close> matches everything.\<close>

lemma glob_match_literals: "glob_match (map Lit p) s \<longleftrightarrow> s = p"
proof (induction p arbitrary: s)
  case (Cons c p)
  then show ?case by (cases s) auto
qed simp

lemma glob_tokens_plain: "set p \<inter> set ''*?['' = {} \<Longrightarrow> glob_tokens p = map Lit p"
  by (induction p) auto

lemma fnmatch_plain: "set p \<inter> set ''*?['' = {} \<Longrightarrow> fnmatch s p \<longleftrightarrow> s = p"
  by (simp only: fnmatch_def glob_tokens_plain glob_match_literals)

lemma fnmatch_star: "fnmatch s ''*''"
proof -
  have "glob_match [AnyRun] s" by (induction s) auto
  then show ?thesis by (simp add: fnmatch_def)
qed

lemma glob_match_AnyRun: "glob_match (AnyRun # ts) s \<longleftrightarrow> (\<exists>n. glob_match ts (drop n s))"
proof (induction s)
  case Nil
  then show ?case by simp
next
  case (Cons c s)
  have "(\<exists>n. glob_match ts (drop n (c # s))) \<longleftrightarrow> glob_match ts (c # s) \<or> (\<exists>n. glob_match ts (drop n s))"
    by (metis drop0 drop_Suc_Cons not0_implies_Suc)
  then show ?case using Cons by simp
qed

lemma fnmatch_prefix_star:
  assumes "set p \<inter> set ''*?['' = {}"
  shows "fnmatch s (p @ ''*'') \<longleftrightarrow> starts_with p s"
proof -
  have toks: "glob_tokens (p @ ''*'') = map Lit p @ [AnyRun]"
    using assms by (induction p) auto
  have "glob_match (map Lit p @ [AnyRun]) s \<longleftrightarrow> starts_with p s" for s
  proof (induction p arbitrary: s)
    case Nil
    then show ?case using fnmatch_star [of s] by (simp add: fnmatch_def starts_with_def)
  next
    case (Cons c p)
    then show ?case by (cases s) (auto simp: starts_with_def)
  qed
  then show ?thesis by (simp add: fnmatch_def toks)
qed

end
