(* ===== verification/Matching.thy ===== *)
theory Matching
  imports Operations Fnmatch
begin

text \<open>
  The matching vocabulary that \<open>registry.py\<close> and \<open>policy.py\<close> share. Both modules promise that a
  rule is matched on \<open>id\<close>, tags, upstream, effect (and, for the policy, sensitivity) and never on
  the tool name, which is unstable. The promise is the interface \<open>op_matcher\<close>: an operation can be
  renamed, or have anything else rewritten, without any rule changing its verdict.
\<close>

definition same_match_key :: "operation \<Rightarrow> operation \<Rightarrow> bool" where
  "same_match_key a b =
     (op_id a = op_id b \<and> op_group_tags a = op_group_tags b \<and> op_upstream a = op_upstream b
      \<and> op_effect a = op_effect b \<and> op_sensitivity a = op_sensitivity b)"

locale op_matcher =
  fixes op_matches :: "operation \<Rightarrow> 's \<Rightarrow> bool"
  assumes key_only: "same_match_key a b \<Longrightarrow> op_matches a s = op_matches b s"
begin

lemma rename_blind: "op_matches (a\<lparr>op_name := n\<rparr>) s = op_matches a s"
  by (rule key_only) (simp add: same_match_key_def)

lemma filter_rules_key_only:
  "same_match_key a b \<Longrightarrow> filter (\<lambda>r. op_matches a (f r)) rs = filter (\<lambda>r. op_matches b (f r)) rs"
  by (rule filter_cong) (simp_all add: key_only)

lemma ex_rename_blind:
  "(\<exists>a \<in> set (map (\<lambda>a. a\<lparr>op_name := g a\<rparr>) as). op_matches a s) \<longleftrightarrow> (\<exists>a \<in> set as. op_matches a s)"
  by (simp add: rename_blind)

end

text \<open>The clauses that are spelled the same in both modules.\<close>

definition ids_clause :: "operation \<Rightarrow> string list \<Rightarrow> bool" where
  "ids_clause op ids = (ids \<noteq> [] \<and> \<not> list_ex (fnmatch (op_id op)) ids)"

definition tags_clause :: "operation \<Rightarrow> string list \<Rightarrow> bool" where
  "tags_clause op tags = (tags \<noteq> [] \<and> \<not> list_ex (\<lambda>t. t \<in> set (op_group_tags op)) tags)"

lemma ids_clause_iff: "ids_clause op ids \<longleftrightarrow> ids \<noteq> [] \<and> (\<forall>p \<in> set ids. \<not> fnmatch (op_id op) p)"
  by (auto simp: ids_clause_def list_ex_iff)

lemma tags_clause_iff: "tags_clause op tags \<longleftrightarrow> tags \<noteq> [] \<and> set tags \<inter> set (op_group_tags op) = {}"
  by (auto simp: tags_clause_def list_ex_iff)

end
