(* ===== verification/Policy.thy ===== *)
theory Policy
  imports Matching Rar
begin

text \<open>
  The authorization policy: the file format (\<open>config/policy.py\<close>) with its validators, and the engine
  that decides a call (\<open>policy.py\<close>). The principal enters the decision through its presented details
  only, so \<open>evaluate\<close> takes those.
\<close>

section \<open>The policy file\<close>

record auth_requirement =
  rq_type :: string
  rq_actions :: "string list option"
  rq_locations :: "string list option"
  rq_datatypes :: "string list option"
  rq_identifier :: "string option"
  rq_privileges :: "string list option"

record policy_match_spec =
  pm_ids :: "string list"
  pm_tags :: "string list"
  pm_upstream :: "string list"
  pm_effect :: "effect list"
  pm_sensitivity :: "sensitivity list"

record policy_rule =
  pr_match :: policy_match_spec
  pr_require :: "auth_requirement list option"
  pr_carry :: bool

datatype unmatched_default = Allow | Deny

record policy_config =
  po_unmatched :: unmatched_default
  po_rules :: "policy_rule list"

datatype policy_error =
    EmptyArray string
  | EmptyRequire
  | RequirelessUnderDeny "nat list"

definition non_empty_when_present :: "string list option \<Rightarrow> bool" where
  "non_empty_when_present v = (v \<noteq> Some [])"

definition validate_requirement :: "auth_requirement \<Rightarrow> policy_error + auth_requirement" where
  "validate_requirement d =
     bind_res (check (non_empty_when_present (rq_actions d)) (EmptyArray ''actions'')) (\<lambda>_.
     bind_res (check (non_empty_when_present (rq_locations d)) (EmptyArray ''locations'')) (\<lambda>_.
     bind_res (check (non_empty_when_present (rq_datatypes d)) (EmptyArray ''datatypes'')) (\<lambda>_.
     bind_res (check (non_empty_when_present (rq_privileges d)) (EmptyArray ''privileges'')) (\<lambda>_.
     Inr d))))"

definition validate_require :: "auth_requirement list \<Rightarrow> policy_error + auth_requirement list" where
  "validate_require ds =
     bind_res (mapM validate_requirement ds) (\<lambda>_.
     if ds = [] then Inl EmptyRequire else Inr ds)"

definition validate_rule :: "policy_rule \<Rightarrow> policy_error + policy_rule" where
  "validate_rule r =
     (case pr_require r of
        None \<Rightarrow> Inr r
      | Some ds \<Rightarrow> bind_res (validate_require ds) (\<lambda>_. Inr r))"

definition requireless_indices :: "policy_rule list \<Rightarrow> nat list" where
  "requireless_indices rules = filter (\<lambda>i. pr_require (rules ! i) = None) [0..<length rules]"

definition validate_policy :: "policy_config \<Rightarrow> policy_error + policy_config" where
  "validate_policy p =
     bind_res (mapM validate_rule (po_rules p)) (\<lambda>_.
     if po_unmatched p \<noteq> Deny then Inr p
     else if requireless_indices (po_rules p) \<noteq> []
     then Inl (RequirelessUnderDeny (requireless_indices (po_rules p)))
     else Inr p)"

section \<open>The engine\<close>

record policy_decision =
  pd_allowed :: bool
  pd_missing :: "auth_detail list"
  pd_carry :: "auth_detail list"

definition policy_matches :: "operation \<Rightarrow> policy_match_spec \<Rightarrow> bool" where
  "policy_matches op spec =
     (if ids_clause op (pm_ids spec) then False
      else if tags_clause op (pm_tags spec) then False
      else if pm_upstream spec \<noteq> [] \<and> op_upstream op \<notin> set (pm_upstream spec) then False
      else if pm_effect spec \<noteq> [] \<and> op_effect op \<notin> set (pm_effect spec) then False
      else \<not> (pm_sensitivity spec \<noteq> [] \<and> op_sensitivity op \<notin> set (pm_sensitivity spec)))"

definition matching_rules :: "operation \<Rightarrow> policy_rule list \<Rightarrow> policy_rule list" where
  "matching_rules op rules = filter (\<lambda>rule. policy_matches op (pr_match rule)) rules"

definition or_empty :: "string list option \<Rightarrow> string list" where
  "or_empty v = (case v of None \<Rightarrow> [] | Some xs \<Rightarrow> xs)"

definition detail_of :: "auth_requirement \<Rightarrow> auth_detail" where
  "detail_of d =
     \<lparr>ad_type = rq_type d, ad_actions = or_empty (rq_actions d),
      ad_locations = or_empty (rq_locations d), ad_datatypes = or_empty (rq_datatypes d),
      ad_identifier = rq_identifier d, ad_privileges = or_empty (rq_privileges d)\<rparr>"

definition accumulated_details :: "policy_rule list \<Rightarrow> auth_detail list" where
  "accumulated_details rules =
     concat (map (\<lambda>rule. case pr_require rule of None \<Rightarrow> [] | Some ds \<Rightarrow> map detail_of ds) rules)"

definition evaluate :: "policy_config \<Rightarrow> operation \<Rightarrow> auth_detail list \<Rightarrow> policy_decision" where
  "evaluate policy op details =
     (let matching = matching_rules op (po_rules policy);
          required = accumulated_details matching;
          carry = accumulated_details (filter pr_carry matching)
      in if required = []
         then \<lparr>pd_allowed = (po_unmatched policy = Allow), pd_missing = [], pd_carry = carry\<rparr>
         else let missing = filter (\<lambda>r. \<not> covers r details) required
              in \<lparr>pd_allowed = (missing = []), pd_missing = missing, pd_carry = carry\<rparr>)"

definition dead_rule_warnings :: "policy_config \<Rightarrow> operation list \<Rightarrow> (nat \<times> policy_match_spec) list" where
  "dead_rule_warnings policy ops =
     map (\<lambda>(i, rule). (i, pr_match rule))
       (filter (\<lambda>(i, rule). \<not> list_ex (\<lambda>op. policy_matches op (pr_match rule)) ops)
          (enumerate 0 (po_rules policy)))"

interpretation policy_rules: op_matcher policy_matches
  by unfold_locales
    (simp add: policy_matches_def ids_clause_def tags_clause_def same_match_key_def)

section \<open>Facts about one decision\<close>

abbreviation required_for :: "policy_config \<Rightarrow> operation \<Rightarrow> auth_detail list" where
  "required_for p op \<equiv> accumulated_details (matching_rules op (po_rules p))"

lemma set_accumulated:
  "set (accumulated_details rs) = {detail_of d | d r ds. r \<in> set rs \<and> pr_require r = Some ds \<and> d \<in> set ds}"
  by (auto simp: accumulated_details_def split: option.splits) force+

lemma accumulated_mono: "set rs \<subseteq> set rs' \<Longrightarrow> set (accumulated_details rs) \<subseteq> set (accumulated_details rs')"
  by (auto simp: set_accumulated)

lemma matching_mono: "set rs \<subseteq> set rs' \<Longrightarrow> set (matching_rules op rs) \<subseteq> set (matching_rules op rs')"
  by (auto simp: matching_rules_def)

lemma evaluate_simps:
  "pd_allowed (evaluate p op ds) \<longleftrightarrow>
     (if required_for p op = [] then po_unmatched p = Allow else \<forall>r \<in> set (required_for p op). covers r ds)"
  "pd_missing (evaluate p op ds) = filter (\<lambda>r. \<not> covers r ds) (required_for p op)"
  "pd_carry (evaluate p op ds) = accumulated_details (filter pr_carry (matching_rules op (po_rules p)))"
  by (simp_all add: evaluate_def Let_def filter_empty_conv)

lemma carry_subset_required:
  "set (pd_carry (evaluate p op ds)) \<subseteq> set (required_for p op)"
  unfolding evaluate_simps by (rule accumulated_mono) auto

lemma allowed_covers:
  "pd_allowed (evaluate p op ds) \<Longrightarrow> r \<in> set (required_for p op) \<Longrightarrow> covers r ds"
  by (auto simp: evaluate_simps split: if_splits)

lemma validate_policy_rule:
  assumes "validate_policy p = Inr p'" and "r \<in> set (po_rules p)"
  shows "pr_require r = Some ds \<Longrightarrow> ds \<noteq> []"
    and "po_unmatched p = Deny \<Longrightarrow> pr_require r \<noteq> None"
proof -
  obtain rs where "mapM validate_rule (po_rules p) = Inr rs"
    using assms(1) by (auto simp: validate_policy_def)
  then obtain r' where "validate_rule r = Inr r'"
    using assms(2) by (auto simp: mapM_eq_Inr list_all2_conv_all_nth in_set_conv_nth)
  then show "pr_require r = Some ds \<Longrightarrow> ds \<noteq> []"
    by (auto simp: validate_rule_def validate_require_def split: if_splits)
next
  assume "po_unmatched p = Deny"
  then have "requireless_indices (po_rules p) = []"
    using assms(1) by (auto simp: validate_policy_def split: if_splits)
  then show "pr_require r \<noteq> None"
    using assms(2) by (auto simp: requireless_indices_def filter_empty_conv in_set_conv_nth)
qed

lemma validate_policy_id: "validate_policy p = Inr p' \<Longrightarrow> p' = p"
  by (auto simp: validate_policy_def split: if_splits)

lemma deny_matched_required:
  assumes "validate_policy p = Inr p" and "po_unmatched p = Deny" and "r \<in> set (matching_rules op (po_rules p))"
  shows "required_for p op \<noteq> []"
proof -
  have r: "r \<in> set (po_rules p)" using assms(3) by (simp add: matching_rules_def)
  obtain ds where "pr_require r = Some ds" "ds \<noteq> []"
    using validate_policy_rule [OF assms(1) r] assms(2) by (cases "pr_require r") auto
  then have "detail_of (hd ds) \<in> set (required_for p op)"
    using assms(3) by (auto simp: set_accumulated) (metis list.set_sel(1))
  then show ?thesis by auto
qed

lemma allowed_more_details:
  assumes "\<And>d. d \<in> set ds \<Longrightarrow> covers d ds'" and "covers r ds"
  shows "covers r ds'"
  using rar.covered_by_stronger assms unfolding covers_def by blast

lemma required_nonempty_mono:
  "set (po_rules p) \<subseteq> set (po_rules p') \<Longrightarrow> set (required_for p op) \<subseteq> set (required_for p' op)"
  by (intro accumulated_mono matching_mono)

section \<open>Properties\<close>

definition sample_policy_rule :: policy_rule where
  "sample_policy_rule =
     \<lparr>pr_match = \<lparr>pm_ids = [], pm_tags = [], pm_upstream = [''u''], pm_effect = [], pm_sensitivity = []\<rparr>,
      pr_require = Some [\<lparr>rq_type = ''t'', rq_actions = Some [''read''], rq_locations = None, rq_datatypes = None,
                         rq_identifier = None, rq_privileges = None\<rparr>],
      pr_carry = True\<rparr>"

definition sample_policy :: policy_config where
  "sample_policy = \<lparr>po_unmatched = Deny, po_rules = [sample_policy_rule]\<rparr>"

definition sample_detail :: auth_detail where
  "sample_detail =
     \<lparr>ad_type = ''t'', ad_actions = [''read'', ''write''], ad_locations = [], ad_datatypes = [],
      ad_identifier = None, ad_privileges = []\<rparr>"

lemma sample_policy_valid: "validate_policy sample_policy = Inr sample_policy"
  by code_simp

lemma sample_allowed: "pd_allowed (evaluate sample_policy (sample_op ''a'') [sample_detail])"
  by code_simp

text \<open>A call is allowed exactly when every requirement of every matching rule is covered by some
  presented detail of the same type with at least the required actions, locations, datatypes and
  privileges and the required identifier; when no requirement applies, the default decides.\<close>

theorem evaluate_allowed_iff:
  "pd_allowed (evaluate p op details) \<longleftrightarrow>
     (if required_for p op = [] then po_unmatched p = Allow
      else \<forall>r \<in> set (required_for p op). \<exists>d \<in> set details.
             ad_type d = ad_type r \<and> set (ad_actions r) \<subseteq> set (ad_actions d)
             \<and> set (ad_locations r) \<subseteq> set (ad_locations d) \<and> set (ad_datatypes r) \<subseteq> set (ad_datatypes d)
             \<and> set (ad_privileges r) \<subseteq> set (ad_privileges d)
             \<and> (ad_identifier r = None \<or> ad_identifier d = ad_identifier r))"
  by (simp add: evaluate_simps covers_iff covers_one_iff)

theorem evaluate_allowed_iff_witness:
  "\<not> pd_allowed (evaluate sample_policy (sample_op ''a'') [sample_detail\<lparr>ad_actions := [''write'']\<rparr>])"
proof -
  have r: "required_for sample_policy (sample_op ''a'') = [sample_detail\<lparr>ad_actions := [''read'']\<rparr>]"
    by code_simp
  show ?thesis unfolding evaluate_allowed_iff r by (simp add: sample_detail_def)
qed

text \<open>Rules only restrict: adding rules to a policy never allows a call that the smaller policy
  denied, provided its default is Allow or some rule already requires something of the operation.\<close>

theorem more_rules_restrict:
  assumes "set (po_rules p) \<subseteq> set (po_rules p')" and "po_unmatched p' = po_unmatched p"
    and "po_unmatched p = Allow \<or> required_for p op \<noteq> []"
    and "pd_allowed (evaluate p' op details)"
  shows "pd_allowed (evaluate p op details)"
proof (cases "required_for p op = []")
  case True
  then show ?thesis using assms(3) by (simp add: evaluate_simps)
next
  case False
  then show ?thesis
    using required_nonempty_mono [OF assms(1), of op] allowed_covers [OF assms(4)]
    by (auto simp: evaluate_simps)
qed

theorem more_rules_restrict_witness:
  "pd_allowed (evaluate sample_policy (sample_op ''a'') [sample_detail])"
proof (rule more_rules_restrict [of _ "sample_policy\<lparr>po_rules := [sample_policy_rule, sample_policy_rule]\<rparr>"])
  show "pd_allowed (evaluate (sample_policy\<lparr>po_rules := [sample_policy_rule, sample_policy_rule]\<rparr>) (sample_op ''a'') [sample_detail])"
    by code_simp
  show "po_unmatched sample_policy = Allow \<or> required_for sample_policy (sample_op ''a'') \<noteq> []"
    by code_simp
qed (simp_all add: sample_policy_def)

text \<open>Authority is monotone: a principal whose details cover everything another's do is never missing
  a requirement the other has met, and is allowed whenever the other is.\<close>

theorem stronger_principal:
  assumes "\<And>d. d \<in> set details \<Longrightarrow> covers d details'"
  shows "set (pd_missing (evaluate p op details')) \<subseteq> set (pd_missing (evaluate p op details))
         \<and> (pd_allowed (evaluate p op details) \<longrightarrow> pd_allowed (evaluate p op details'))"
proof
  show "set (pd_missing (evaluate p op details')) \<subseteq> set (pd_missing (evaluate p op details))"
    using rar.uncovered_mono [of details details' "required_for p op"] assms
    unfolding evaluate_simps covers_def by blast
  show "pd_allowed (evaluate p op details) \<longrightarrow> pd_allowed (evaluate p op details')"
    using allowed_more_details [of details details', OF assms] by (auto simp: evaluate_simps)
qed

theorem stronger_principal_witness:
  "pd_allowed (evaluate sample_policy (sample_op ''a'') [sample_detail, sample_detail\<lparr>ad_type := ''x''\<rparr>])"
proof -
  have "covers d [sample_detail, sample_detail\<lparr>ad_type := ''x''\<rparr>]" if "d \<in> set [sample_detail]" for d
    using that by (simp add: covers_iff covers_one_iff)
  then show ?thesis
    using stronger_principal [of "[sample_detail]" "[sample_detail, sample_detail\<lparr>ad_type := ''x''\<rparr>]" sample_policy "sample_op ''a''"] sample_allowed
    by blast
qed

text \<open>C19. Least privilege on the outbound leg: what a decision carries upstream is asked for by a matching
  rule that opted in, and in an allowed decision every carried detail is covered by the caller's own.\<close>

theorem carry_least_privilege:
  assumes "pd_allowed (evaluate p op details)" and "d \<in> set (pd_carry (evaluate p op details))"
  shows "covers d details
         \<and> (\<exists>r \<in> set (po_rules p). policy_matches op (pr_match r) \<and> pr_carry r
              \<and> (\<exists>ds. pr_require r = Some ds \<and> d \<in> detail_of ` set ds))"
proof
  show "covers d details"
    using assms(2) carry_subset_required [of p op details] by (intro allowed_covers [OF assms(1)]) blast
  show "\<exists>r \<in> set (po_rules p). policy_matches op (pr_match r) \<and> pr_carry r
              \<and> (\<exists>ds. pr_require r = Some ds \<and> d \<in> detail_of ` set ds)"
    using assms(2) by (auto simp: evaluate_simps(3) set_accumulated matching_rules_def)
qed

theorem carry_least_privilege_witness:
  "covers (sample_detail\<lparr>ad_actions := [''read'']\<rparr>) [sample_detail]"
proof -
  have "list_ex (\<lambda>d. d = sample_detail\<lparr>ad_actions := [''read'']\<rparr>) (pd_carry (evaluate sample_policy (sample_op ''a'') [sample_detail]))"
    by code_simp
  then have "sample_detail\<lparr>ad_actions := [''read'']\<rparr> \<in> set (pd_carry (evaluate sample_policy (sample_op ''a'') [sample_detail]))"
    by (simp add: list_ex_iff)
  then show ?thesis using carry_least_privilege [OF sample_allowed] by blast
qed

text \<open>A deny-by-default policy that validates fails closed: a call is allowed only when some rule
  matches it, and a caller with no authorization details is always denied.\<close>

lemma deny_fails_closed:
  assumes "validate_policy p = Inr p'" and "po_unmatched p = Deny" and "pd_allowed (evaluate p op details)"
  shows "matching_rules op (po_rules p) \<noteq> [] \<and> details \<noteq> []"
proof -
  have "required_for p op \<noteq> []"
    using assms(2,3) by (auto simp: evaluate_simps split: if_splits)
  moreover from this obtain r where "r \<in> set (required_for p op)" by (meson list.set_sel(1))
  then have "covers r details" by (rule allowed_covers [OF assms(3)])
  ultimately show ?thesis by (auto simp: accumulated_details_def)
qed

text \<open>A decision does not depend on the tool's name, nor on anything else of the operation that the
  rules are not written against.\<close>

theorem decision_name_blind:
  "evaluate p (op\<lparr>op_name := n\<rparr>) details = evaluate p op details"
  by (simp add: evaluate_def matching_rules_def policy_rules.rename_blind)

text \<open>Dead-rule warnings are exact: the indices reported are those of the rules that match none of
  the served operations, with the rule's own match.\<close>

theorem dead_rules_exact:
  "(i, m) \<in> set (dead_rule_warnings p ops) \<longleftrightarrow>
     i < length (po_rules p) \<and> m = pr_match (po_rules p ! i)
     \<and> (\<forall>op \<in> set ops. \<not> policy_matches op (pr_match (po_rules p ! i)))"
  by (force simp: dead_rule_warnings_def in_set_enumerate_eq list_ex_iff image_iff)

theorem dead_rules_exact_witness:
  "(0, pr_match sample_policy_rule) \<in> set (dead_rule_warnings sample_policy [(sample_op ''a'')\<lparr>op_upstream := ''v''\<rparr>])"
  by (simp add: dead_rules_exact)
    (simp add: sample_policy_def sample_policy_rule_def sample_op_def policy_matches_def ids_clause_def tags_clause_def)

end
