(* ===== verification/Principal.thy ===== *)
theory Principal
  imports Loader Rar Policy
begin

text \<open>
  The calling identity (\<open>auth/principal.py\<close>) and its resolution per HTTP request
  (\<open>_principal_for_request\<close> of \<open>server/http.py\<close>). \<open>access_token\<close> is the SDK's \<open>AccessToken\<close>, the fields the
  code reads; \<open>get_access_token()\<close> is an input.
\<close>

record principal =
  pi_identity :: string
  pi_details :: "auth_detail list"
  pi_subject_token :: "string option"
  pi_expires_at :: "int option"

record access_token =
  at_token :: string
  at_client_id :: string
  at_scopes :: "string list"
  at_expires_at :: "int option"
  at_subject :: "string option"
  at_claims :: "jobj option"

definition local_principal :: "local_principal_config \<Rightarrow> config_error + principal" where
  "local_principal config =
     (case parse_authorization_details (JList (map JObj (lp_authorization_details config))) of
        Inl _ \<Rightarrow> Inl BadLocalPrincipal
      | Inr details \<Rightarrow>
          Inr \<lparr>pi_identity = ''local'', pi_details = details, pi_subject_token = None, pi_expires_at = None\<rparr>)"

definition principal_from_access_token :: "access_token \<Rightarrow> principal option" where
  "principal_from_access_token tok =
     (let claims = (case at_claims tok of None \<Rightarrow> [] | Some d \<Rightarrow> d);
          raw_details = jget claims ''authorization_details'' (JList [])
      in case parse_authorization_details raw_details of
           Inl _ \<Rightarrow> None
         | Inr details \<Rightarrow>
             let identity = (case at_subject tok of
                               Some s \<Rightarrow> if s \<noteq> [] then s else at_client_id tok
                             | None \<Rightarrow> at_client_id tok)
             in Some \<lparr>pi_identity = identity, pi_details = details, pi_subject_token = Some (at_token tok),
                      pi_expires_at = at_expires_at tok\<rparr>)"

definition principal_for_request ::
    "portal_config \<Rightarrow> access_token option \<Rightarrow> config_error + principal option" where
  "principal_for_request config current =
     (if \<not> ia_enabled (au_inbound (pc_auth config))
      then bind_res (local_principal (au_local_principal (pc_auth config))) (\<lambda>p. Inr (Some p))
      else case current of
          None \<Rightarrow> Inr None
        | Some tok \<Rightarrow> Inr (principal_from_access_token tok))"

lemma principal_from_access_token_Some:
  "principal_from_access_token tok = Some p \<Longrightarrow>
     pi_subject_token p = Some (at_token tok) \<and> pi_expires_at p = at_expires_at tok
     \<and> parse_authorization_details
          (jget (case at_claims tok of None \<Rightarrow> [] | Some d \<Rightarrow> d) ''authorization_details'' (JList [])) = Inr (pi_details p)"
  by (auto simp: principal_from_access_token_def Let_def split: sum.splits)

section \<open>Properties\<close>

text \<open>Authenticated callers are never mixed with the local principal: with inbound authentication
  enabled, a request resolves to a principal only from its own access token, whose subject token
  and expiry it carries and whose claim parses to the principal's details; otherwise it is denied.\<close>

theorem inbound_principal_from_token:
  assumes "ia_enabled (au_inbound (pc_auth config))"
    and "principal_for_request config current = Inr (Some p)"
  shows "\<exists>tok. current = Some tok \<and> pi_subject_token p = Some (at_token tok)
           \<and> pi_expires_at p = at_expires_at tok
           \<and> parse_authorization_details
               (jget (case at_claims tok of None \<Rightarrow> [] | Some d \<Rightarrow> d) ''authorization_details'' (JList [])) = Inr (pi_details p)"
proof -
  obtain tok where "current = Some tok" "principal_from_access_token tok = Some p"
    using assms by (auto simp: principal_for_request_def split: option.splits)
  then show ?thesis using principal_from_access_token_Some by blast
qed

definition sample_token :: access_token where
  "sample_token =
     \<lparr>at_token = ''tok'', at_client_id = ''c'', at_scopes = [], at_expires_at = Some 9, at_subject = None,
      at_claims = None\<rparr>"

theorem inbound_principal_from_token_witness:
  "\<exists>tok. Some sample_token = Some tok \<and> Some ''tok'' = Some (at_token tok)"
proof -
  have e: "ia_enabled (au_inbound (pc_auth sample_portal))" by (simp add: sample_portal_defs)
  have p: "principal_for_request sample_portal (Some sample_token)
      = Inr (Some \<lparr>pi_identity = ''c'', pi_details = [], pi_subject_token = Some ''tok'', pi_expires_at = Some 9\<rparr>)"
    by code_simp
  show ?thesis using inbound_principal_from_token [OF e p] by auto
qed

end
