(* ===== verification/Sha256.thy ===== *)
theory Sha256
  imports PyStr "HOL-Library.Word"
begin

text \<open>
  \<open>hashlib.sha256(b).hexdigest()\<close> of the standard library (FIPS 180-4), over 32-bit words. The tool
  names of \<open>naming.py\<close> end in the first six digits of it. The components use two facts only, kept
  as the interface \<open>hex_digest\<close>: the digest is long enough and made of lower-case hex digits.
\<close>

unbundle bit_operations_syntax

type_synonym u32 = "32 word"

definition sha_K :: "u32 list" where
  "sha_K =
     [1116352408, 1899447441, 3049323471, 3921009573, 961987163, 1508970993, 2453635748, 2870763221,
      3624381080, 310598401, 607225278, 1426881987, 1925078388, 2162078206, 2614888103, 3248222580,
      3835390401, 4022224774, 264347078, 604807628, 770255983, 1249150122, 1555081692, 1996064986,
      2554220882, 2821834349, 2952996808, 3210313671, 3336571891, 3584528711, 113926993, 338241895,
      666307205, 773529912, 1294757372, 1396182291, 1695183700, 1986661051, 2177026350, 2456956037,
      2730485921, 2820302411, 3259730800, 3345764771, 3516065817, 3600352804, 4094571909, 275423344,
      430227734, 506948616, 659060556, 883997877, 958139571, 1322822218, 1537002063, 1747873779,
      1955562222, 2024104815, 2227730452, 2361852424, 2428436474, 2756734187, 3204031479, 3329325298]"

definition sha_init :: "u32 list" where
  "sha_init = [1779033703, 3144134277, 1013904242, 2773480762, 1359893119, 2600822924, 528734635, 1541459225]"

definition big_sigma0 :: "u32 \<Rightarrow> u32" where
  "big_sigma0 x = word_rotr 2 x XOR word_rotr 13 x XOR word_rotr 22 x"

definition big_sigma1 :: "u32 \<Rightarrow> u32" where
  "big_sigma1 x = word_rotr 6 x XOR word_rotr 11 x XOR word_rotr 25 x"

definition small_sigma0 :: "u32 \<Rightarrow> u32" where
  "small_sigma0 x = word_rotr 7 x XOR word_rotr 18 x XOR drop_bit 3 x"

definition small_sigma1 :: "u32 \<Rightarrow> u32" where
  "small_sigma1 x = word_rotr 17 x XOR word_rotr 19 x XOR drop_bit 10 x"

definition sha_ch :: "u32 \<Rightarrow> u32 \<Rightarrow> u32 \<Rightarrow> u32" where
  "sha_ch x y z = (x AND y) XOR (NOT x AND z)"

definition sha_maj :: "u32 \<Rightarrow> u32 \<Rightarrow> u32 \<Rightarrow> u32" where
  "sha_maj x y z = (x AND y) XOR (x AND z) XOR (y AND z)"

definition be_bytes64 :: "nat \<Rightarrow> string" where
  "be_bytes64 n = map (\<lambda>i. char_of (int n div 256 ^ i)) [7, 6, 5, 4, 3, 2, 1, 0]"

definition sha_pad :: "string \<Rightarrow> string" where
  "sha_pad m =
     m @ [char_of (128::nat)] @ replicate ((119 - length m mod 64) mod 64) (char_of (0::nat))
       @ be_bytes64 (8 * length m)"

fun be_words :: "string \<Rightarrow> u32 list" where
  "be_words (a # b # c # d # bs) =
     word_of_int (((of_char a * 256 + of_char b) * 256 + of_char c) * 256 + of_char d) # be_words bs"
| "be_words bs = []"

definition sha_extend :: "u32 list \<Rightarrow> u32 list" where
  "sha_extend ws =
     fold (\<lambda>t w. w @ [small_sigma1 (w ! (t - 2)) + w ! (t - 7) + small_sigma0 (w ! (t - 15)) + w ! (t - 16)])
       [16..<64] ws"

fun sha_round :: "u32 \<times> u32 \<Rightarrow> u32 list \<Rightarrow> u32 list" where
  "sha_round (k, w) [a, b, c, d, e, f, g, h] =
     (let t1 = h + big_sigma1 e + sha_ch e f g + k + w;
          t2 = big_sigma0 a + sha_maj a b c
      in [t1 + t2, a, b, c, d + t1, e, f, g])"
| "sha_round kw st = st"

definition sha_block :: "u32 list \<Rightarrow> u32 list \<Rightarrow> u32 list" where
  "sha_block ws st = map2 (+) st (fold sha_round (zip sha_K (sha_extend ws)) st)"

function sha_blocks :: "u32 list \<Rightarrow> u32 list \<Rightarrow> u32 list" where
  "sha_blocks ws st = (if ws = [] then st else sha_blocks (drop 16 ws) (sha_block (take 16 ws) st))"
  by pat_completeness auto
termination
  by (relation "measure (\<lambda>(ws, st). length ws)") (auto simp: neq_Nil_conv)

declare sha_blocks.simps [simp del]

definition sha256 :: "string \<Rightarrow> u32 list" where
  "sha256 m = sha_blocks (be_words (sha_pad m)) sha_init"

definition word_hex :: "u32 \<Rightarrow> string" where
  "word_hex w = map (\<lambda>i. hex_lower (nat (uint w div 16 ^ i mod 16))) [7, 6, 5, 4, 3, 2, 1, 0]"

definition sha256_hexdigest :: "string \<Rightarrow> string" where
  "sha256_hexdigest m = concat (map word_hex (sha256 m))"

section \<open>What the components rely on\<close>

definition is_hex_lower :: "char \<Rightarrow> bool" where
  "is_hex_lower c = (is_digit_ascii c \<or> (97 \<le> code c \<and> code c \<le> 102))"

locale hex_digest =
  fixes hexdigest :: "string \<Rightarrow> string"
  assumes length_hexdigest: "length (hexdigest m) = 64"
    and hexdigest_chars: "c \<in> set (hexdigest m) \<Longrightarrow> is_hex_lower c"
begin

lemma take_hexdigest:
  assumes "n \<le> 64"
  shows "length (take n (hexdigest m)) = n" "\<forall>c \<in> set (take n (hexdigest m)). is_hex_lower c"
  using assms by (auto simp: length_hexdigest dest: in_set_takeD hexdigest_chars)

end

lemma length_fold_sha_round: "length (fold sha_round kws st) = length st"
proof (induction kws arbitrary: st)
  case (Cons kw kws)
  have "length (sha_round kw st) = length st"
    by (cases "(kw, st)" rule: sha_round.cases) (simp_all add: Let_def)
  then show ?case by (simp add: Cons.IH)
qed simp

lemma length_sha_blocks: "length (sha_blocks ws st) = length st"
proof (induction ws st rule: sha_blocks.induct)
  case (1 ws st)
  then show ?case
    by (subst sha_blocks.simps) (simp add: sha_block_def length_fold_sha_round)
qed

lemma length_concat_word_hex: "length (concat (map word_hex ws)) = 8 * length ws"
  by (induction ws) (simp_all add: word_hex_def)

lemma hex_lower_is_hex: "n < 16 \<Longrightarrow> is_hex_lower (hex_lower n)"
  by (auto simp: hex_lower_def is_hex_lower_def is_digit_ascii_def of_char_of)

interpretation sha: hex_digest sha256_hexdigest
proof unfold_locales
  fix m
  show "length (sha256_hexdigest m) = 64"
    by (simp add: sha256_hexdigest_def length_concat_word_hex sha256_def length_sha_blocks
        sha_init_def)
next
  fix m c
  assume "c \<in> set (sha256_hexdigest m)"
  then show "is_hex_lower c"
    by (auto simp: sha256_hexdigest_def word_hex_def nat_less_iff intro!: hex_lower_is_hex)
qed

end
