(* ===== verification/Naming.thy ===== *)
theory Naming
  imports Operations ConfigModels Sha256 "HOL-Library.Multiset"
begin

text \<open>
  Tool names (\<open>naming.py\<close>): normalised, capped at 64 characters, made unique by a hash suffix. The
  result of \<open>generate_names\<close> is a dictionary from operation id to name, in the order of the sorted
  ids. Its three ways to fail are values: the two \<open>NameCollisionError\<close>s and the final assertion.
\<close>

datatype naming_error =
    DuplicateIds "string list"
  | CollisionSurvived "string list"
  | UnpublishableName "string list"

definition SUFFIX_LENGTH :: nat where
  "SUFFIX_LENGTH = 6"

definition TRUNCATE_TO :: nat where
  "TRUNCATE_TO = MAX_NAME_LENGTH - SUFFIX_LENGTH - 1"

record naming_options =
  no_strategy :: naming_strategy
  no_prefix_with_group_tag :: bool
  no_prefix_with_upstream :: bool

section \<open>Definitions\<close>

definition keeps_char :: "char \<Rightarrow> bool" where
  "keeps_char c = (is_lower_ascii c \<or> is_digit_ascii c)"

lemma length_dropWhile_less_Suc [termination_simp]: "length (dropWhile P xs) < Suc (length xs)"
  by (simp add: length_dropWhile_le le_imp_less_Suc)

text \<open>\<open>_INVALID.sub("_", s)\<close> with \<open>[^a-z0-9]+\<close>: each maximal run of other characters becomes one \<open>_\<close>.\<close>

fun sub_invalid :: "string \<Rightarrow> string" where
  "sub_invalid [] = []"
| "sub_invalid (c # cs) =
     (if keeps_char c then c # sub_invalid cs
      else CHR ''_'' # sub_invalid (dropWhile (\<lambda>d. \<not> keeps_char d) cs))"

definition normalize :: "string \<Rightarrow> string" where
  "normalize text = str_strip_chars (\<lambda>c. c = CHR ''_'') (sub_invalid (str_lower text))"

definition suffix :: "string \<Rightarrow> string" where
  "suffix oid = take SUFFIX_LENGTH (sha256_hexdigest (utf8_encode oid))"

definition base_name :: "operation \<Rightarrow> naming_options \<Rightarrow> string" where
  "base_name op options =
     (let core = (case op_binding op of
                    Http b \<Rightarrow> if no_strategy options = ByMethodPath
                              then hb_method b @ ''_'' @ hb_path b else op_id op
                  | GraphQl _ \<Rightarrow> op_id op);
          parts = (if no_prefix_with_upstream options then [op_upstream op] else [])
                  @ (if no_prefix_with_group_tag options
                     then (case op_group_tags op of [] \<Rightarrow> [] | t # _ \<Rightarrow> [t]) else [])
                  @ [core];
          base = normalize (str_join ''_'' parts)
      in if base \<noteq> [] then base else ''op_'' @ suffix (op_id op))"

definition cap_name :: "string \<Rightarrow> string" where
  "cap_name name =
     (if length name \<le> MAX_NAME_LENGTH then name
      else take TRUNCATE_TO name @ ''_'' @ suffix name)"

definition resolve_name :: "(string, nat) pydict \<Rightarrow> string \<Rightarrow> string \<Rightarrow> string" where
  "resolve_name counts oid base =
     (if map_of counts base = Some 1 then base
      else take TRUNCATE_TO base @ ''_'' @ suffix oid)"

definition generate_names ::
    "operation list \<Rightarrow> naming_options \<Rightarrow> naming_error + (string, string) pydict" where
  "generate_names ops options =
     (let ids = map op_id ops
      in if duplicates ids \<noteq> [] then Inl (DuplicateIds (sorted_set (duplicates ids)))
         else
           let bases = dict_of (map (\<lambda>op. (op_id op, cap_name (base_name op options))) ops);
               counts = count_dict (map snd bases);
               names = map (\<lambda>oid. (oid, resolve_name counts oid (the (map_of bases oid))))
                         (sort (map fst bases));
               final = map snd names
           in if duplicates final \<noteq> [] then Inl (CollisionSurvived (sorted_set (duplicates final)))
              else if \<not> list_all matches_name_pattern final then Inl (UnpublishableName final)
              else Inr names)"

section \<open>Characters and lengths\<close>

lemma keeps_is_name_char: "keeps_char c \<Longrightarrow> is_name_char c"
  by (auto simp: keeps_char_def is_name_char_def)

lemma is_name_char_underscore [simp]: "is_name_char (CHR ''_'')"
  by (simp add: is_name_char_def)

lemma sub_invalid_chars: "c \<in> set (sub_invalid s) \<Longrightarrow> is_name_char c"
  by (induction s rule: sub_invalid.induct) (auto split: if_splits dest: keeps_is_name_char)

lemma normalize_chars [py_chars]: "c \<in> set (normalize s) \<Longrightarrow> is_name_char c"
  using set_strip_chars sub_invalid_chars unfolding normalize_def by fastforce

lemma hex_is_name_char: "is_hex_lower c \<Longrightarrow> is_name_char c"
  by (auto simp: is_hex_lower_def is_name_char_def is_lower_ascii_def)

lemma length_suffix [simp]: "length (suffix oid) = SUFFIX_LENGTH"
  by (simp only: suffix_def) (rule sha.take_hexdigest(1), simp add: SUFFIX_LENGTH_def)

lemma suffix_chars [py_chars]: "c \<in> set (suffix oid) \<Longrightarrow> is_name_char c"
  using sha.take_hexdigest(2) [of SUFFIX_LENGTH]
  by (auto simp: suffix_def SUFFIX_LENGTH_def intro: hex_is_name_char)

lemma base_name_not_Nil: "base_name op options \<noteq> []"
  by (auto simp: base_name_def Let_def)

lemma op_prefix_chars: "c \<in> set ''op_'' \<Longrightarrow> is_name_char c"
  by (auto simp: is_name_char_def is_lower_ascii_def)

lemma base_name_chars: "c \<in> set (base_name op options) \<Longrightarrow> is_name_char c"
  using op_prefix_chars
  by (auto simp: base_name_def Let_def split: if_splits dest: normalize_chars suffix_chars)

lemmas name_lengths = MAX_NAME_LENGTH_def TRUNCATE_TO_def SUFFIX_LENGTH_def

lemma suffixed_pattern:
  assumes "\<forall>c \<in> set name. is_name_char c"
  shows "matches_name_pattern (take TRUNCATE_TO name @ CHR ''_'' # suffix oid)"
  using assms
  by (auto simp: matches_name_pattern_def list_all_iff name_lengths min_def
      dest: in_set_takeD suffix_chars)

lemma cap_name_pattern:
  assumes "\<forall>c \<in> set name. is_name_char c" "name \<noteq> []"
  shows "matches_name_pattern (cap_name name)"
  using assms suffixed_pattern [OF assms(1)]
  by (auto simp: cap_name_def matches_name_pattern_def list_all_iff)

lemma base_pattern: "matches_name_pattern (cap_name (base_name op options))"
  by (intro cap_name_pattern ballI base_name_chars base_name_not_Nil)

lemma pattern_chars: "matches_name_pattern s \<Longrightarrow> \<forall>c \<in> set s. is_name_char c"
  by (simp add: matches_name_pattern_def list_all_iff)

lemma resolve_name_pattern: "matches_name_pattern base \<Longrightarrow> matches_name_pattern (resolve_name counts oid base)"
  by (simp add: resolve_name_def suffixed_pattern [OF pattern_chars])

section \<open>The normal form of a run\<close>

text \<open>
  With distinct ids the dictionaries are plain lists: the names are those of the sorted ids, each
  computed from the multiset of bases alone.
\<close>

definition capped_bases :: "operation list \<Rightarrow> naming_options \<Rightarrow> (string, string) pydict" where
  "capped_bases ops options = map (\<lambda>op. (op_id op, cap_name (base_name op options))) ops"

definition unique_base :: "string list \<Rightarrow> string \<Rightarrow> string \<Rightarrow> string" where
  "unique_base bs oid base =
     (if count_list bs base = 1 then base else take TRUNCATE_TO base @ ''_'' @ suffix oid)"

definition names_of :: "operation list \<Rightarrow> naming_options \<Rightarrow> (string, string) pydict" where
  "names_of ops options =
     (let bases = capped_bases ops options
      in map (\<lambda>oid. (oid, unique_base (map snd bases) oid (the (map_of bases oid))))
           (sort (map fst bases)))"

lemma fst_capped_bases [simp]: "map fst (capped_bases ops options) = map op_id ops"
  by (simp add: capped_bases_def comp_def)

lemma map_of_capped_pattern:
  "oid \<in> op_id ` set ops \<Longrightarrow> matches_name_pattern (the (map_of (capped_bases ops options) oid))"
proof -
  assume "oid \<in> op_id ` set ops"
  then have "oid \<in> set (map fst (capped_bases ops options))"
    by (simp only: fst_capped_bases set_map)
  then obtain b where m: "map_of (capped_bases ops options) oid = Some b"
    and "(oid, b) \<in> set (capped_bases ops options)"
    by (rule map_of_key_ex)
  then show ?thesis using m base_pattern by (auto simp: capped_bases_def)
qed

lemma resolve_unique:
  "base \<in> set bs \<Longrightarrow> resolve_name (count_dict bs) oid base = unique_base bs oid base"
  by (simp add: resolve_name_def unique_base_def map_of_count_dict)

lemma names_of_pattern: "list_all matches_name_pattern (map snd (names_of ops options))"
proof -
  have "matches_name_pattern (unique_base bs oid base)" if "matches_name_pattern base" for bs oid base
    using that by (simp add: unique_base_def suffixed_pattern [OF pattern_chars])
  then show ?thesis
    using map_of_capped_pattern [of _ ops options] by (auto simp: names_of_def Let_def list_all_iff)
qed

lemma generate_names_eq:
  assumes "distinct (map op_id ops)"
  shows "generate_names ops options =
    (let final = map snd (names_of ops options)
     in if distinct final then Inr (names_of ops options)
        else Inl (CollisionSurvived (sorted_set (duplicates final))))"
proof -
  let ?b = "capped_bases ops options"
  have b: "dict_of (map (\<lambda>op. (op_id op, cap_name (base_name op options))) ops) = ?b"
    using assms by (simp add: capped_bases_def dict_of_distinct_id comp_def)
  have n: "map (\<lambda>oid. (oid, resolve_name (count_dict (map snd ?b)) oid (the (map_of ?b oid)))) (sort (map fst ?b))
      = names_of ops options"
  proof -
    have "the (map_of ?b oid) \<in> set (map snd ?b)" if "oid \<in> set (map fst ?b)" for oid
    proof -
      from that obtain v where "map_of ?b oid = Some v" "(oid, v) \<in> set ?b"
        by (rule map_of_key_ex)
      then show ?thesis by force
    qed
    then show ?thesis by (auto simp: names_of_def Let_def resolve_unique)
  qed
  have d: "duplicates (map op_id ops) = []" using assms by simp
  show ?thesis
    unfolding generate_names_def Let_def d b n
    using names_of_pattern [of ops options] by auto
qed

lemma generate_names_dup:
  "\<not> distinct (map op_id ops) \<Longrightarrow>
   generate_names ops options = Inl (DuplicateIds (sorted_set (duplicates (map op_id ops))))"
  by (simp add: generate_names_def Let_def)

lemma generate_names_Inr:
  assumes "generate_names ops options = Inr names"
  shows "distinct (map op_id ops)" and "names = names_of ops options" and "distinct (map snd names)"
proof -
  show d: "distinct (map op_id ops)"
    using assms generate_names_dup by (metis sum.distinct(1))
  show "names = names_of ops options" and "distinct (map snd names)"
    using assms unfolding generate_names_eq [OF d] by (auto simp: Let_def split: if_splits)
qed

lemma fst_names_of: "map fst (names_of ops options) = sort (map op_id ops)"
  by (simp add: names_of_def Let_def comp_def)

lemma names_of_perm:
  assumes "mset ops = mset ops'" "distinct (map op_id ops)"
  shows "names_of ops options = names_of ops' options"
proof -
  have ids: "mset (map op_id ops) = mset (map op_id ops')"
    using assms(1) by simp
  have d': "distinct (map op_id ops')"
    using assms(2) mset_eq_imp_distinct_iff [OF ids] by simp
  have bm: "mset (capped_bases ops options) = mset (capped_bases ops' options)"
    using assms(1) by (simp add: capped_bases_def)
  have mo: "map_of (capped_bases ops options) = map_of (capped_bases ops' options)"
    by (rule map_of_inject_set [THEN iffD2]) (use assms d' bm in \<open>auto dest: mset_eq_setD\<close>)
  have "sort (map op_id ops) = sort (map op_id ops')"
    using ids by (metis properties_for_sort mset_sort sorted_sort)
  moreover have "mset (map snd (capped_bases ops options)) = mset (map snd (capped_bases ops' options))"
    using bm by simp
  then have "count_list (map snd (capped_bases ops options)) b = count_list (map snd (capped_bases ops' options)) b" for b
    by (metis count_mset)
  ultimately show ?thesis
    by (simp add: names_of_def Let_def mo unique_base_def)
qed

section \<open>The name of one operation\<close>

text \<open>The specification: an operation keeps its capped base name unless another one has the same, then both get the hash suffix of
  their id.\<close>

definition published_name :: "operation list \<Rightarrow> naming_options \<Rightarrow> operation \<Rightarrow> string" where
  "published_name ops options op =
     (let base = cap_name (base_name op options)
      in if \<exists>op' \<in> set ops. op_id op' \<noteq> op_id op \<and> cap_name (base_name op' options) = base
         then take TRUNCATE_TO base @ ''_'' @ suffix (op_id op) else base)"

lemma duplicates_of_map:
  assumes "distinct xs"
  shows "n \<in> set (duplicates (map f xs)) \<longleftrightarrow> (\<exists>x \<in> set xs. \<exists>y \<in> set xs. x \<noteq> y \<and> f x = n \<and> f y = n)"
proof -
  have hit: "0 < count_list (map f ys) n \<longleftrightarrow> (\<exists>y \<in> set ys. f y = n)" for ys
    by (induction ys) auto
  show ?thesis
    unfolding set_duplicates using assms
  proof (induction xs)
    case (Cons x xs)
    then show ?case using hit [of xs] by (cases "f x = n") auto
  qed simp
qed

lemma unique_base_published:
  assumes "distinct (map op_id ops)" "op \<in> set ops"
  shows "unique_base (map (\<lambda>op. cap_name (base_name op options)) ops) (op_id op) (cap_name (base_name op options))
     = published_name ops options op"
proof -
  let ?f = "\<lambda>op. cap_name (base_name op options)"
  have inj: "x = y" if "x \<in> set ops" "y \<in> set ops" "op_id x = op_id y" for x y
    using assms(1) that by (auto simp: distinct_map dest: inj_onD)
  have d: "distinct ops" using assms(1) by (simp add: distinct_map)
  have "?f op \<in> set (map ?f ops)" using assms(2) by simp
  then have "count_list (map ?f ops) (?f op) \<noteq> 0" by (simp add: count_list_0_iff)
  moreover have "1 < count_list (map ?f ops) (?f op) \<longleftrightarrow> (\<exists>op' \<in> set ops. op_id op' \<noteq> op_id op \<and> ?f op' = ?f op)"
    using duplicates_of_map [OF d, of "?f op" ?f] assms(2) inj unfolding set_duplicates by metis
  ultimately have "count_list (map ?f ops) (?f op) = 1 \<longleftrightarrow> \<not> (\<exists>op' \<in> set ops. op_id op' \<noteq> op_id op \<and> ?f op' = ?f op)"
    by linarith
  then show ?thesis
    unfolding unique_base_def published_name_def Let_def
    by (cases "\<exists>op' \<in> set ops. op_id op' \<noteq> op_id op \<and> ?f op' = ?f op") (simp_all only: if_True if_False not_True_eq_False not_False_eq_True)
qed

lemma names_of_published:
  assumes "distinct (map op_id ops)" "op \<in> set ops"
  shows "map_of (names_of ops options) (op_id op) = Some (published_name ops options op)"
proof -
  have "map_of (capped_bases ops options) (op_id op) = Some (cap_name (base_name op options))"
    using assms by (simp add: capped_bases_def map_of_map_key [of op_id ops op "\<lambda>x. cap_name (base_name x options)"])
  moreover have "map snd (capped_bases ops options) = map (\<lambda>op. cap_name (base_name op options)) ops"
    by (simp add: capped_bases_def comp_def)
  moreover have "op_id op \<in> set (sort (map fst (capped_bases ops options)))" using assms(2) by simp
  ultimately show ?thesis
    using unique_base_published [OF assms, of options] by (simp add: names_of_def Let_def map_of_map_restrict)
qed

lemma names_of_collisions:
  assumes "distinct (map op_id ops)"
  shows "n \<in> set (duplicates (map snd (names_of ops options))) \<longleftrightarrow>
     (\<exists>op \<in> set ops. \<exists>op' \<in> set ops. op_id op \<noteq> op_id op' \<and> published_name ops options op = n \<and> published_name ops options op' = n)"
proof -
  define f where "f i = the (map_of (names_of ops options) i)" for i
  have f: "f (op_id op) = published_name ops options op" if "op \<in> set ops" for op
    using names_of_published [OF assms that, of options] by (simp add: f_def)
  have dis: "distinct (map fst (names_of ops options))" using assms by (simp add: fst_names_of)
  have "snd p = f (fst p)" if "p \<in> set (names_of ops options)" for p
    using map_of_is_SomeI [OF dis, of "fst p" "snd p"] that by (simp add: f_def)
  then have "map snd (names_of ops options) = map f (map fst (names_of ops options))" by simp
  then have "map snd (names_of ops options) = map f (sort (map op_id ops))" by (simp add: fst_names_of)
  then have "n \<in> set (duplicates (map snd (names_of ops options))) \<longleftrightarrow>
     (\<exists>x \<in> set (map op_id ops). \<exists>y \<in> set (map op_id ops). x \<noteq> y \<and> f x = n \<and> f y = n)"
    using duplicates_of_map [of "sort (map op_id ops)" n f] assms by simp
  then show ?thesis using f by auto
qed

section \<open>Properties\<close>

text \<open>C34. Naming fails only for a reason. With distinct operation ids and no two operations whose published names coincide - the
  capped base name, with the hash suffix of the id when another operation has the same - it succeeds: one
  name per id, each the operation's published name, all distinct and of the form every MCP client accepts
  (\<open>^[a-z0-9_]{1,64}$\<close>). Otherwise the ids have duplicates, and it names them, or two operations of different ids really
  have the same published name, and it names exactly those names. The guard against an unpublishable name never fires.\<close>

theorem generate_names_total:
  "case generate_names ops options of
     Inr names \<Rightarrow> distinct (map op_id ops) \<and> map fst names = sort (map op_id ops) \<and> distinct (map snd names)
                  \<and> list_all matches_name_pattern (map snd names)
                  \<and> (\<forall>op \<in> set ops. map_of names (op_id op) = Some (published_name ops options op))
   | Inl e \<Rightarrow> (e = DuplicateIds (sorted_set (duplicates (map op_id ops))) \<and> \<not> distinct (map op_id ops))
              \<or> (\<exists>ns. e = CollisionSurvived ns \<and> ns \<noteq> [] \<and> distinct (map op_id ops)
                   \<and> (\<forall>n. n \<in> set ns \<longleftrightarrow> (\<exists>op \<in> set ops. \<exists>op' \<in> set ops. op_id op \<noteq> op_id op'
                        \<and> published_name ops options op = n \<and> published_name ops options op' = n)))"
proof (cases "distinct (map op_id ops)")
  case True
  show ?thesis
  proof (cases "distinct (map snd (names_of ops options))")
    case False
    then have "sorted_set (duplicates (map snd (names_of ops options))) \<noteq> []" by simp
    then show ?thesis
      using True False names_of_collisions [OF True, of _ options]
      by (simp add: generate_names_eq Let_def del: duplicates_Nil sorted_set_Nil)
  qed (use True fst_names_of [of ops options] names_of_pattern [of ops options] names_of_published [OF True, of _ options]
      in \<open>simp add: generate_names_eq Let_def\<close>)
next
  case False
  then show ?thesis by (simp add: generate_names_dup)
qed

text \<open>Names do not depend on the order in which the sources yield the operations: any permutation
  of the list gives the same dictionary, or the same error.\<close>

theorem generate_names_order_independent:
  assumes "mset ops = mset ops'"
  shows "generate_names ops options = generate_names ops' options"
proof -
  have ids: "mset (map op_id ops) = mset (map op_id ops')"
    using assms by simp
  have d: "distinct (map op_id ops) = distinct (map op_id ops')"
    using mset_eq_imp_distinct_iff [OF ids] .
  have "count_list (map op_id ops) = count_list (map op_id ops')"
    using ids by (metis count_mset ext)
  then have "set (duplicates (map op_id ops)) = set (duplicates (map op_id ops'))"
    by (auto simp: set_duplicates)
  then have "sorted_set (duplicates (map op_id ops)) = sorted_set (duplicates (map op_id ops'))"
    by (rule sorted_set_cong)
  then show ?thesis
    using d names_of_perm [OF assms, of options]
    by (cases "distinct (map op_id ops)") (simp_all add: generate_names_eq generate_names_dup Let_def)
qed

definition plain_naming :: naming_options where
  "plain_naming =
     \<lparr>no_strategy = ByOperationId, no_prefix_with_group_tag = False, no_prefix_with_upstream = False\<rparr>"

theorem generate_names_total_witness:
  "published_name [sample_op ''a'', sample_op ''b''] plain_naming (sample_op ''a'') = ''a''"
proof -
  have g: "generate_names [sample_op ''a'', sample_op ''b''] plain_naming = Inr [(''a'', ''a''), (''b'', ''b'')]"
    by code_simp
  have i: "op_id (sample_op x) = x" for x by (simp add: sample_op_def)
  show ?thesis
    using generate_names_total [of "[sample_op ''a'', sample_op ''b'']" plain_naming] unfolding g by (simp add: i)
qed

theorem generate_names_order_independent_witness:
  "generate_names [sample_op ''a'', sample_op ''b''] plain_naming = generate_names [sample_op ''b'', sample_op ''a''] plain_naming"
  by (rule generate_names_order_independent) simp

text \<open>Stability: adding an operation whose base name nobody else has does not rename any of the
  others. Only the ids that share the newcomer's base can change.\<close>

theorem generate_names_stable:
  assumes old: "generate_names ops options = Inr names"
    and new: "generate_names (op # ops) options = Inr names'"
    and fresh: "\<And>o'. o' \<in> set ops \<Longrightarrow> cap_name (base_name o' options) \<noteq> cap_name (base_name op options)"
    and oid: "oid \<in> op_id ` set ops"
  shows "map_of names' oid = map_of names oid"
proof -
  let ?b = "capped_bases ops options" and ?b' = "capped_bases (op # ops) options"
  have d: "distinct (op_id op # map op_id ops)" using generate_names_Inr(1) [OF new] by simp
  then have neq: "oid \<noteq> op_id op" using oid by (metis distinct.simps(2) list.set_map)
  obtain o' where o': "o' \<in> set ops" "oid = op_id o'" using oid by auto
  have b: "map_of ?b oid = Some (cap_name (base_name o' options))"
    using d o' by (simp add: capped_bases_def map_of_map_key [of op_id ops o' "\<lambda>x. cap_name (base_name x options)"])
  then have b': "map_of ?b' oid = Some (cap_name (base_name o' options))"
    using neq by (simp add: capped_bases_def)
  have look: "map_of (names_of os options) x
      = Some (unique_base (map snd (capped_bases os options)) x (the (map_of (capped_bases os options) x)))"
    if "x \<in> op_id ` set os" for os x
    using that by (simp add: names_of_def Let_def map_of_map_restrict)
  have cnt: "count_list (map snd ?b') (cap_name (base_name o' options))
      = count_list (map snd ?b) (cap_name (base_name o' options))"
    using fresh [OF o'(1)] by (simp add: capped_bases_def)
  show ?thesis
    using look [of oid ops] look [of oid "op # ops"] oid b b' cnt
    unfolding generate_names_Inr(2) [OF old] generate_names_Inr(2) [OF new]
    by (simp add: unique_base_def)
qed

theorem generate_names_stable_witness:
  "map_of [(''a'', ''a''), (''b'', ''b''), (''c'', ''c'')] ''b'' = map_of [(''b'', ''b''), (''c'', ''c'')] ''b''"
proof (rule generate_names_stable [of "[sample_op ''c'', sample_op ''b'']" plain_naming _ "sample_op ''a''"])
  show "generate_names [sample_op ''c'', sample_op ''b''] plain_naming = Inr [(''b'', ''b''), (''c'', ''c'')]"
    by code_simp
  show "generate_names [sample_op ''a'', sample_op ''c'', sample_op ''b''] plain_naming
      = Inr [(''a'', ''a''), (''b'', ''b''), (''c'', ''c'')]"
    by code_simp
  have "cap_name (base_name (sample_op ''a'') plain_naming) = ''a''"
    "cap_name (base_name (sample_op ''b'') plain_naming) = ''b''"
    "cap_name (base_name (sample_op ''c'') plain_naming) = ''c''"
    by code_simp+
  then show "cap_name (base_name o' plain_naming) \<noteq> cap_name (base_name (sample_op ''a'') plain_naming)"
    if "o' \<in> set [sample_op ''c'', sample_op ''b'']" for o'
    using that by auto
qed (simp add: sample_op_def)

end
