(* ===== verification/Registry.thy ===== *)
theory Registry
  imports Naming Matching
begin

text \<open>
  The registry (\<open>registry.py\<close>): classify, apply the mode's posture, select, name. Sets of strings are
  lists whose order does not matter; the set \<open>used\<close> that \<open>_select\<close> collects while it filters is
  threaded through the loop.
\<close>

record toolset =
  ts_operations :: "operation list"
  ts_by_name :: "(string, operation) pydict"
  ts_warnings :: "string list"

datatype registry_error =
    Naming naming_error
  | BothDeclare string string string
  | GeneratedNameTaken string string string
  | NameShadowed

section \<open>Matching and classification\<close>

definition registry_matches :: "operation \<Rightarrow> match_spec \<Rightarrow> bool" where
  "registry_matches op spec =
     (if ids_clause op (ms_ids spec) then False
      else if tags_clause op (ms_tags spec) then False
      else if ms_upstream spec \<noteq> [] \<and> op_upstream op \<notin> set (ms_upstream spec) then False
      else \<not> (ms_effect spec \<noteq> [] \<and> op_effect op \<notin> set (ms_effect spec)))"

interpretation registry_rules: op_matcher registry_matches
  by unfold_locales
    (simp add: registry_matches_def ids_clause_def tags_clause_def same_match_key_def)

definition apply_classification :: "classification_rule \<Rightarrow> operation \<Rightarrow> operation" where
  "apply_classification rule op =
     (if \<not> registry_matches op (cr_match rule) then op
      else
        let op1 = (case cr_effect rule of None \<Rightarrow> op | Some e \<Rightarrow> op\<lparr>op_effect := e\<rparr>)
        in (case cr_sensitivity rule of None \<Rightarrow> op1 | Some s \<Rightarrow> op1\<lparr>op_sensitivity := s\<rparr>))"

definition classify_ops :: "operation list \<Rightarrow> classification_rule list \<Rightarrow> operation list" where
  "classify_ops ops rules = map (fold apply_classification rules) ops"

definition apply_mode_posture :: "operation list \<Rightarrow> portal_mode \<Rightarrow> operation list" where
  "apply_mode_posture ops mode =
     (if mode \<noteq> IntrospectSafe then ops
      else filter (\<lambda>op. op_effect op = READ_ONLY \<and> op_sensitivity op = NORMAL) ops)"

section \<open>Selection\<close>

definition tag_hits :: "operation \<Rightarrow> string list \<Rightarrow> string list" where
  "tag_hits op tags = filter (\<lambda>t. t \<in> set (op_group_tags op)) tags"

definition id_hits :: "operation \<Rightarrow> string list \<Rightarrow> string list" where
  "id_hits op pats = filter (fnmatch (op_id op)) pats"

definition include_step :: "string list option \<Rightarrow> (string list \<Rightarrow> string list) \<Rightarrow> string list \<Rightarrow> string list option" where
  "include_step rules hits used =
     (case rules of
        None \<Rightarrow> Some used
      | Some rs \<Rightarrow> if hits rs = [] then None else Some (used @ hits rs))"

definition keep_op :: "selection_config \<Rightarrow> operation \<Rightarrow> string list \<Rightarrow> bool \<times> string list" where
  "keep_op selection op used0 =
     (case include_step (se_include_tags selection) (tag_hits op) used0 of
        None \<Rightarrow> (False, used0)
      | Some used1 \<Rightarrow>
          (case include_step (se_include_ids selection) (id_hits op) used1 of
             None \<Rightarrow> (False, used1)
           | Some used2 \<Rightarrow>
               let hit_tags = tag_hits op (se_exclude_tags selection);
                   hit_ids = id_hits op (se_exclude_ids selection)
               in if hit_tags \<noteq> [] then (False, used2 @ hit_tags)
                  else if hit_ids \<noteq> [] then (False, used2 @ hit_ids)
                  else (True, used2)))"

fun select_loop :: "selection_config \<Rightarrow> operation list \<Rightarrow> string list \<Rightarrow> operation list \<times> string list" where
  "select_loop selection [] used = ([], used)"
| "select_loop selection (op # ops) used =
     (let (k, used1) = keep_op selection op used;
          (kept, used2) = select_loop selection ops used1
      in (if k then op # kept else kept, used2))"

definition declared_rules :: "selection_config \<Rightarrow> string list" where
  "declared_rules selection =
     se_exclude_tags selection @ se_exclude_ids selection
     @ (case se_include_tags selection of None \<Rightarrow> [] | Some ts \<Rightarrow> ts)
     @ (case se_include_ids selection of None \<Rightarrow> [] | Some ps \<Rightarrow> ps)"

definition stale_warning :: "string \<Rightarrow> string" where
  "stale_warning rule = ''selection rule '' @ str_repr rule @ '' matched no operations; it may be stale''"

definition select_ops :: "operation list \<Rightarrow> selection_config \<Rightarrow> operation list \<times> string list" where
  "select_ops ops selection =
     (let (kept, used) = select_loop selection ops []
      in (kept, map stale_warning
                  (sorted_set (filter (\<lambda>r. r \<notin> set used) (declared_rules selection)))))"

section \<open>Names\<close>

text \<open>\<open>owner\<close> maps a tool name to the id of the operation that holds it.\<close>

fun reserve_explicit :: "operation list \<Rightarrow> (string, string) pydict \<Rightarrow> registry_error + (string, string) pydict" where
  "reserve_explicit [] owner = Inr owner"
| "reserve_explicit (op # ops) owner =
     (case map_of owner (op_name op) of
        Some other \<Rightarrow> Inl (BothDeclare other (op_id op) (op_name op))
      | None \<Rightarrow> reserve_explicit ops (AList.update (op_name op) (op_id op) owner))"

fun reserve_generated :: "(string \<times> string) list \<Rightarrow> (string, string) pydict \<Rightarrow> registry_error + (string, string) pydict" where
  "reserve_generated [] owner = Inr owner"
| "reserve_generated ((oid, name) # gen) owner =
     (case map_of owner name of
        Some other \<Rightarrow> Inl (GeneratedNameTaken oid name other)
      | None \<Rightarrow> reserve_generated gen (AList.update name oid owner))"

definition assign_names :: "operation list \<Rightarrow> naming_options \<Rightarrow> registry_error + operation list" where
  "assign_names selected options =
     (let ids = map op_id selected
      in if duplicates ids \<noteq> [] then Inl (Naming (DuplicateIds (sorted_set (duplicates ids))))
         else
           bind_res (reserve_explicit (sort_key op_id (filter (\<lambda>op. op_name op \<noteq> []) selected)) []) (\<lambda>owner.
           case generate_names (filter (\<lambda>op. op_name op = []) selected) options of
             Inl e \<Rightarrow> Inl (Naming e)
           | Inr generated \<Rightarrow>
               bind_res (reserve_generated (map (\<lambda>oid. (oid, the (map_of generated oid)))
                                              (sort (map fst generated))) owner) (\<lambda>_.
               Inr (map (\<lambda>op. op\<lparr>op_name := (if op_name op \<noteq> [] then op_name op
                                             else the (map_of generated (op_id op)))\<rparr>) selected))))"

definition naming_options_of :: "naming_config \<Rightarrow> naming_options" where
  "naming_options_of c =
     \<lparr>no_strategy = nc_strategy c, no_prefix_with_group_tag = nc_prefix_with_group_tag c,
      no_prefix_with_upstream = nc_prefix_with_upstream c\<rparr>"

definition build_toolset :: "operation list \<Rightarrow> portal_config \<Rightarrow> registry_error + toolset" where
  "build_toolset operations config =
     (let classified = classify_ops operations (pc_classification config);
          postured = apply_mode_posture classified (pc_mode config);
          (selected, warnings) = select_ops postured (pc_selection config)
      in bind_res (assign_names selected (naming_options_of (pc_naming config))) (\<lambda>named.
         let by_name = dict_of (map (\<lambda>op. (op_name op, op)) named)
         in if length by_name \<noteq> length named then Inl NameShadowed
            else Inr \<lparr>ts_operations = named, ts_by_name = by_name, ts_warnings = warnings\<rparr>))"

section \<open>Classification\<close>

lemma apply_classification_frame [frame_simps, simp]:
  "op_id (apply_classification r op) = op_id op"
  "op_upstream (apply_classification r op) = op_upstream op"
  "op_name (apply_classification r op) = op_name op"
  "op_title (apply_classification r op) = op_title op"
  "op_description (apply_classification r op) = op_description op"
  "op_group_tags (apply_classification r op) = op_group_tags op"
  "op_input_schema (apply_classification r op) = op_input_schema op"
  "op_binding (apply_classification r op) = op_binding op"
  by (simp_all add: apply_classification_def Let_def split: option.splits)

lemma fold_classification_frame [frame_simps, simp]:
  "op_id (fold apply_classification rs op) = op_id op"
  "op_upstream (fold apply_classification rs op) = op_upstream op"
  "op_name (fold apply_classification rs op) = op_name op"
  "op_title (fold apply_classification rs op) = op_title op"
  "op_description (fold apply_classification rs op) = op_description op"
  "op_group_tags (fold apply_classification rs op) = op_group_tags op"
  "op_input_schema (fold apply_classification rs op) = op_input_schema op"
  "op_binding (fold apply_classification rs op) = op_binding op"
  by (induction rs arbitrary: op) simp_all

section \<open>Selection refines a filter\<close>

definition selected_spec :: "selection_config \<Rightarrow> operation \<Rightarrow> bool" where
  "selected_spec sel op \<longleftrightarrow>
     opt_all (\<lambda>ts. set ts \<inter> set (op_group_tags op) \<noteq> {}) (se_include_tags sel)
     \<and> opt_all (\<lambda>ps. \<exists>p \<in> set ps. fnmatch (op_id op) p) (se_include_ids sel)
     \<and> set (se_exclude_tags sel) \<inter> set (op_group_tags op) = {}
     \<and> (\<forall>p \<in> set (se_exclude_ids sel). \<not> fnmatch (op_id op) p)"

lemma tag_hits_Nil: "tag_hits op ts = [] \<longleftrightarrow> set ts \<inter> set (op_group_tags op) = {}"
  by (auto simp: tag_hits_def filter_empty_conv)

lemma id_hits_Nil: "id_hits op ps = [] \<longleftrightarrow> (\<forall>p \<in> set ps. \<not> fnmatch (op_id op) p)"
  by (simp add: id_hits_def filter_empty_conv)

lemma keep_op_spec: "fst (keep_op sel op used) = selected_spec sel op"
  by (auto simp: keep_op_def include_step_def selected_spec_def Let_def opt_all_def tag_hits_Nil id_hits_Nil
      split: option.splits if_splits)

lemma select_loop_filter: "fst (select_loop sel ops used) = filter (selected_spec sel) ops"
proof (induction ops arbitrary: used)
  case (Cons op ops)
  then show ?case
    using keep_op_spec [of sel op used] by (simp add: case_prod_beta Let_def)
qed simp

lemma select_ops_filter: "fst (select_ops ops sel) = filter (selected_spec sel) ops"
  using select_loop_filter [of sel ops "[]"] by (simp add: select_ops_def case_prod_beta)

lemma keep_op_used_mono: "set used \<subseteq> set (snd (keep_op sel op used))"
  by (auto simp: keep_op_def include_step_def Let_def split: option.splits if_splits)

lemma select_loop_used_mono: "set used \<subseteq> set (snd (select_loop sel ops used))"
proof (induction ops arbitrary: used)
  case (Cons op ops)
  then show ?case
    using keep_op_used_mono [of used sel op] by (fastforce simp: case_prod_beta Let_def)
qed simp

text \<open>Every rule the loop records was hit by some operation.\<close>

definition rule_hits :: "operation \<Rightarrow> string \<Rightarrow> bool" where
  "rule_hits op r \<longleftrightarrow> r \<in> set (op_group_tags op) \<or> fnmatch (op_id op) r"

lemma keep_op_used_hits: "r \<in> set (snd (keep_op sel op used)) \<Longrightarrow> r \<in> set used \<or> rule_hits op r"
  by (auto simp: keep_op_def include_step_def Let_def tag_hits_def id_hits_def rule_hits_def
      split: option.splits if_splits)

lemma select_loop_used_hits:
  "r \<in> set (snd (select_loop sel ops used)) \<Longrightarrow> r \<in> set used \<or> (\<exists>op \<in> set ops. rule_hits op r)"
proof (induction ops arbitrary: used)
  case (Cons op ops)
  then show ?case
    using keep_op_used_hits [of r sel op used]
    by (fastforce simp: case_prod_beta Let_def)
qed simp

lemma posture_subset: "set (apply_mode_posture ops m) \<subseteq> set ops"
  by (auto simp: apply_mode_posture_def)

section \<open>Names stay unique\<close>

lemma reserve_explicit_Inr:
  "reserve_explicit ops owner = Inr owner' \<Longrightarrow>
     distinct (map op_name ops) \<and> op_name ` set ops \<inter> dom (map_of owner) = {}
     \<and> dom (map_of owner') = dom (map_of owner) \<union> op_name ` set ops"
proof (induction ops arbitrary: owner)
  case (Cons op ops)
  have "map_of owner (op_name op) = None"
    and "reserve_explicit ops (AList.update (op_name op) (op_id op) owner) = Inr owner'"
    using Cons.prems by (auto split: option.splits)
  with Cons.IH [of "AList.update (op_name op) (op_id op) owner"] show ?case
    by (auto simp: update_conv')
qed simp

lemma reserve_generated_Inr:
  "reserve_generated gen owner = Inr owner' \<Longrightarrow> snd ` set gen \<inter> dom (map_of owner) = {}"
proof (induction gen arbitrary: owner)
  case (Cons p gen)
  obtain oid name where p: "p = (oid, name)" by (cases p)
  have "map_of owner name = None"
    and "reserve_generated gen (AList.update name oid owner) = Inr owner'"
    using Cons.prems p by (auto split: option.splits)
  with Cons.IH [of "AList.update name oid owner"] show ?case
    by (auto simp: update_conv' p)
qed simp

definition final_name :: "(string, string) pydict \<Rightarrow> operation \<Rightarrow> string" where
  "final_name generated op = (if op_name op \<noteq> [] then op_name op else the (map_of generated (op_id op)))"

lemma assign_names_Inr:
  assumes "assign_names sel options = Inr named"
  obtains generated where
    "distinct (map op_id sel)"
    "generate_names (filter (\<lambda>op. op_name op = []) sel) options = Inr generated"
    "named = map (\<lambda>op. op\<lparr>op_name := final_name generated op\<rparr>) sel"
    "distinct (map op_name (filter (\<lambda>op. op_name op \<noteq> []) sel))"
    "snd ` set generated \<inter> op_name ` set (filter (\<lambda>op. op_name op \<noteq> []) sel) = {}"
proof -
  let ?e = "sort_key op_id (filter (\<lambda>op. op_name op \<noteq> []) sel)"
  have d: "distinct (map op_id sel)"
    using assms by (auto simp: assign_names_def Let_def split: if_splits)
  obtain generated where g: "generate_names (filter (\<lambda>op. op_name op = []) sel) options = Inr generated"
    using assms d
    by (cases "generate_names (filter (\<lambda>op. op_name op = []) sel) options")
      (auto simp: assign_names_def Let_def)
  obtain owner owner' where o1: "reserve_explicit ?e [] = Inr owner"
    and o2: "reserve_generated (map (\<lambda>oid. (oid, the (map_of generated oid))) (sort (map fst generated))) owner = Inr owner'"
    and n: "named = map (\<lambda>op. op\<lparr>op_name := final_name generated op\<rparr>) sel"
    using assms d g by (auto simp: assign_names_def Let_def final_name_def)
  have "distinct (map fst generated)"
    using generate_names_Inr(1,2) [OF g] by (simp add: fst_names_of)
  then have gs: "snd ` set (map (\<lambda>oid. (oid, the (map_of generated oid))) (sort (map fst generated))) = snd ` set generated"
    by (force simp: image_image)
  from reserve_explicit_Inr [OF o1]
  have "distinct (map op_name ?e)" and dom: "dom (map_of owner) = op_name ` set ?e"
    by auto
  moreover have "mset (map op_name ?e) = mset (map op_name (filter (\<lambda>op. op_name op \<noteq> []) sel))"
    by simp
  ultimately have "distinct (map op_name (filter (\<lambda>op. op_name op \<noteq> []) sel))"
    by (metis mset_eq_imp_distinct_iff)
  moreover have "snd ` set generated \<inter> op_name ` set (filter (\<lambda>op. op_name op \<noteq> []) sel) = {}"
    using reserve_generated_Inr [OF o2] unfolding gs dom by simp
  ultimately show thesis using that d g n by blast
qed

lemma generated_lookup:
  assumes "generate_names ops options = Inr generated" and "op \<in> set ops"
  shows "\<exists>n. map_of generated (op_id op) = Some n \<and> n \<in> snd ` set generated"
proof -
  have "op_id op \<in> set (map fst generated)"
    using assms(2) generate_names_Inr(2) [OF assms(1)] by (simp add: fst_names_of)
  then show ?thesis by (rule map_of_key_ex) force
qed

lemma final_name_inj:
  assumes g: "generate_names (filter (\<lambda>op. op_name op = []) sel) options = Inr generated"
    and d: "distinct (map op_id sel)"
    and e: "distinct (map op_name (filter (\<lambda>op. op_name op \<noteq> []) sel))"
    and disj: "snd ` set generated \<inter> op_name ` set (filter (\<lambda>op. op_name op \<noteq> []) sel) = {}"
    and a: "a \<in> set sel" and b: "b \<in> set sel" and eq: "final_name generated a = final_name generated b"
  shows "a = b"
proof -
  have look: "\<exists>n. map_of generated (op_id x) = Some n \<and> n \<in> snd ` set generated"
    if "x \<in> set sel" "op_name x = []" for x
    using that by (intro generated_lookup [OF g]) simp
  have ids: "op_id a = op_id b \<Longrightarrow> a = b"
    using d a b by (simp add: distinct_map inj_on_def)
  show ?thesis
  proof (cases "op_name a = []"; cases "op_name b = []")
    assume "op_name a = []" "op_name b = []"
    with look [OF a] look [OF b] eq have "op_id a = op_id b"
      by (auto simp: final_name_def intro: map_of_inj_values [OF generate_names_Inr(3) [OF g]])
    then show ?thesis by (rule ids)
  next
    assume "op_name a = []" "op_name b \<noteq> []"
    with look [OF a] eq disj b show ?thesis by (fastforce simp: final_name_def)
  next
    assume "op_name a \<noteq> []" "op_name b = []"
    with look [OF b] eq disj a show ?thesis by (fastforce simp: final_name_def)
  next
    assume "op_name a \<noteq> []" "op_name b \<noteq> []"
    with eq e a b show ?thesis by (simp add: final_name_def distinct_map inj_on_def)
  qed
qed

lemma assign_names_distinct:
  assumes "assign_names sel options = Inr named"
  shows "distinct (map op_name named)"
  using assms
proof (rule assign_names_Inr)
  fix generated
  assume d: "distinct (map op_id sel)"
    and g: "generate_names (filter (\<lambda>op. op_name op = []) sel) options = Inr generated"
    and n: "named = map (\<lambda>op. op\<lparr>op_name := final_name generated op\<rparr>) sel"
    and e: "distinct (map op_name (filter (\<lambda>op. op_name op \<noteq> []) sel))"
    and disj: "snd ` set generated \<inter> op_name ` set (filter (\<lambda>op. op_name op \<noteq> []) sel) = {}"
  have "inj_on (final_name generated) (set sel)"
    by (rule inj_onI) (rule final_name_inj [OF g d e disj])
  moreover have "distinct sel" using d by (simp add: distinct_map)
  ultimately show ?thesis by (simp add: n comp_def distinct_map)
qed

lemma assign_names_frame:
  assumes "assign_names sel options = Inr named"
  obtains f where "named = map (\<lambda>op. op\<lparr>op_name := f op\<rparr>) sel"
    and "\<And>op. op \<in> set sel \<Longrightarrow> op_name op \<noteq> [] \<Longrightarrow> f op = op_name op"
    and "\<And>op. op \<in> set sel \<Longrightarrow> op_name op = [] \<Longrightarrow> matches_name_pattern (f op)"
  using assms
proof (rule assign_names_Inr)
  fix generated
  assume g: "generate_names (filter (\<lambda>op. op_name op = []) sel) options = Inr generated"
    and n: "named = map (\<lambda>op. op\<lparr>op_name := final_name generated op\<rparr>) sel"
  have "matches_name_pattern (final_name generated op)" if "op \<in> set sel" "op_name op = []" for op
  proof -
    have "\<exists>n. map_of generated (op_id op) = Some n \<and> n \<in> snd ` set generated"
      using that by (intro generated_lookup [OF g]) simp
    then obtain v where "map_of generated (op_id op) = Some v" "v \<in> snd ` set generated"
      by blast
    then show ?thesis
      using that(2) generate_names_Inr(2) [OF g] names_of_pattern
      by (auto simp: final_name_def list_all_iff)
  qed
  then show thesis using that [OF n] by (simp add: final_name_def)
qed

lemma build_toolset_Inr:
  assumes "build_toolset ops config = Inr ts"
  obtains sel where
    "sel = filter (selected_spec (pc_selection config))
             (apply_mode_posture (classify_ops ops (pc_classification config)) (pc_mode config))"
    "assign_names sel (naming_options_of (pc_naming config)) = Inr (ts_operations ts)"
    "ts_by_name ts = map (\<lambda>op. (op_name op, op)) (ts_operations ts)"
proof -
  let ?p = "apply_mode_posture (classify_ops ops (pc_classification config)) (pc_mode config)"
  obtain w where sel: "select_ops ?p (pc_selection config) = (filter (selected_spec (pc_selection config)) ?p, w)"
    using select_ops_filter by (metis prod.collapse)
  obtain named where n: "assign_names (filter (selected_spec (pc_selection config)) ?p) (naming_options_of (pc_naming config)) = Inr named"
    and ts: "ts = \<lparr>ts_operations = named, ts_by_name = dict_of (map (\<lambda>op. (op_name op, op)) named), ts_warnings = w\<rparr>"
    using assms by (auto simp: build_toolset_def Let_def sel split: if_splits)
  have "dict_of (map (\<lambda>op. (op_name op, op)) named) = map (\<lambda>op. (op_name op, op)) named"
    using assign_names_distinct [OF n] by (simp add: dict_of_distinct_id comp_def)
  then show thesis using that n ts by simp
qed

lemma build_toolset_lookup:
  assumes "build_toolset ops config = Inr ts"
  shows "map_of (ts_by_name ts) n = Some op \<longleftrightarrow> op \<in> set (ts_operations ts) \<and> op_name op = n"
  using assms
proof (rule build_toolset_Inr)
  fix sel
  assume n: "assign_names sel (naming_options_of (pc_naming config)) = Inr (ts_operations ts)"
    and b: "ts_by_name ts = map (\<lambda>op. (op_name op, op)) (ts_operations ts)"
  have d: "distinct (map fst (ts_by_name ts))"
    using assign_names_distinct [OF n] by (simp add: b comp_def)
  show ?thesis
    using map_of_eq_Some_iff [OF d] by (auto simp: b)
qed

lemma assign_names_error: "assign_names sel options = Inl e \<Longrightarrow> e \<noteq> NameShadowed"
proof -
  have "reserve_explicit os ow = Inl e \<Longrightarrow> e \<noteq> NameShadowed" for os ow
    by (induction os arbitrary: ow) (auto split: option.splits)
  moreover have "reserve_generated g ow = Inl e \<Longrightarrow> e \<noteq> NameShadowed" for g ow
    by (induction g arbitrary: ow) (auto split: option.splits)
  moreover assume "assign_names sel options = Inl e"
  ultimately show ?thesis
    by (cases "generate_names (filter (\<lambda>op. op_name op = []) sel) options")
      (auto simp: assign_names_def Let_def bind_res_eq_Inl split: if_splits)
qed

lemma stale_not_used:
  assumes "r \<in> set (declared_rules sel)" "\<And>op. op \<in> set ops \<Longrightarrow> \<not> rule_hits op r"
  shows "stale_warning r \<in> set (snd (select_ops ops sel))"
proof -
  have "r \<notin> set (snd (select_loop sel ops []))"
    using assms(2) select_loop_used_hits [of r sel ops "[]"] by auto
  then show ?thesis using assms(1) by (simp add: select_ops_def case_prod_beta)
qed

section \<open>Properties\<close>

text \<open>C18. Posture is enforced on the served set: in introspect-safe mode every tool of a built toolset
  is read-only and of normal sensitivity, whatever the sources, the classification rules and the
  selection say.\<close>

theorem introspect_safe_posture:
  assumes "build_toolset ops config = Inr ts" and "pc_mode config = IntrospectSafe" and "op \<in> set (ts_operations ts)"
  shows "op_effect op = READ_ONLY \<and> op_sensitivity op = NORMAL"
proof -
  obtain sel where sel: "sel = filter (selected_spec (pc_selection config))
             (apply_mode_posture (classify_ops ops (pc_classification config)) (pc_mode config))"
    and n: "assign_names sel (naming_options_of (pc_naming config)) = Inr (ts_operations ts)"
    using assms(1) by (rule build_toolset_Inr)
  obtain f where "ts_operations ts = map (\<lambda>op. op\<lparr>op_name := f op\<rparr>) sel"
    using n by (rule assign_names_frame)
  then show ?thesis using assms(2,3) sel by (auto simp: apply_mode_posture_def)
qed

definition sample_ops :: "operation list" where
  "sample_ops = [(sample_op ''B'')\<lparr>op_name := ''kept''\<rparr>, (sample_op ''w'')\<lparr>op_effect := ACTION\<rparr>, sample_op ''a'']"

definition sample_named :: "operation list" where
  "sample_named = [(sample_op ''B'')\<lparr>op_name := ''kept''\<rparr>, (sample_op ''a'')\<lparr>op_name := ''a''\<rparr>]"

definition sample_toolset :: toolset where
  "sample_toolset =
     \<lparr>ts_operations = sample_named, ts_by_name = map (\<lambda>op. (op_name op, op)) sample_named,
      ts_warnings = [stale_warning ''gone'']\<rparr>"

lemma sample_build_toolset: "build_toolset sample_ops sample_portal = Inr sample_toolset"
  by code_simp

theorem introspect_safe_posture_witness:
  "op_effect (hd (ts_operations sample_toolset)) = READ_ONLY \<and> op_sensitivity (hd (ts_operations sample_toolset)) = NORMAL"
  by (rule introspect_safe_posture [OF sample_build_toolset])
    (simp_all add: sample_portal_def sample_toolset_def sample_named_def)

text \<open>The served set is the classified, postured and selected operations, in order, each changed in
  its name only: an explicit name is kept as written, a generated one has the published form, and
  selection keeps an operation exactly when it hits every present include list and no exclusion.\<close>

theorem build_toolset_tools:
  assumes "build_toolset ops config = Inr ts"
  shows "\<exists>name. ts_operations ts =
           map (\<lambda>op. op\<lparr>op_name := name op\<rparr>)
             (filter (selected_spec (pc_selection config))
                (apply_mode_posture (classify_ops ops (pc_classification config)) (pc_mode config)))
         \<and> (\<forall>op \<in> set (apply_mode_posture (classify_ops ops (pc_classification config)) (pc_mode config)).
              selected_spec (pc_selection config) op \<longrightarrow>
              (if op_name op \<noteq> [] then name op = op_name op else matches_name_pattern (name op)))"
proof -
  obtain sel where sel: "sel = filter (selected_spec (pc_selection config))
             (apply_mode_posture (classify_ops ops (pc_classification config)) (pc_mode config))"
    and n: "assign_names sel (naming_options_of (pc_naming config)) = Inr (ts_operations ts)"
    using assms by (rule build_toolset_Inr)
  obtain f where "ts_operations ts = map (\<lambda>op. op\<lparr>op_name := f op\<rparr>) sel"
    and "\<And>op. op \<in> set sel \<Longrightarrow> op_name op \<noteq> [] \<Longrightarrow> f op = op_name op"
    and "\<And>op. op \<in> set sel \<Longrightarrow> op_name op = [] \<Longrightarrow> matches_name_pattern (f op)"
    using n by (rule assign_names_frame) blast
  then show ?thesis using sel by auto
qed

theorem build_toolset_tools_witness: "length sample_named \<le> 3"
proof -
  obtain name where t: "sample_named =
           map (\<lambda>op. op\<lparr>op_name := name op\<rparr>)
             (filter (selected_spec (pc_selection sample_portal))
                (apply_mode_posture (classify_ops sample_ops (pc_classification sample_portal)) (pc_mode sample_portal)))"
    using build_toolset_tools [OF sample_build_toolset] by (auto simp: sample_toolset_def)
  have "length sample_named \<le> length sample_ops"
    by (subst t) (simp add: apply_mode_posture_def classify_ops_def le_trans [OF length_filter_le])
  then show ?thesis by (simp add: sample_ops_def)
qed

text \<open>The lookup table is exact: a name is found in \<open>by_name\<close> exactly when a served tool has it,
  it is found with that tool, and no two served tools share a name or an id.\<close>

theorem build_toolset_by_name:
  assumes "build_toolset ops config = Inr ts"
  shows "(map_of (ts_by_name ts) n = Some op \<longleftrightarrow> op \<in> set (ts_operations ts) \<and> op_name op = n)
         \<and> distinct (map op_name (ts_operations ts)) \<and> distinct (map op_id (ts_operations ts))"
proof -
  obtain sel where n: "assign_names sel (naming_options_of (pc_naming config)) = Inr (ts_operations ts)"
    using assms by (rule build_toolset_Inr)
  have "distinct (map op_id sel)" using n by (rule assign_names_Inr)
  moreover obtain f where "ts_operations ts = map (\<lambda>op. op\<lparr>op_name := f op\<rparr>) sel"
    using n by (rule assign_names_frame)
  ultimately have "distinct (map op_id (ts_operations ts))" by (simp add: comp_def)
  then show ?thesis using build_toolset_lookup [OF assms] assign_names_distinct [OF n] by simp
qed

theorem build_toolset_by_name_witness:
  "map_of (ts_by_name sample_toolset) ''kept'' = Some ((sample_op ''B'')\<lparr>op_name := ''kept''\<rparr>)"
  using build_toolset_by_name [OF sample_build_toolset, of "''kept''" "(sample_op ''B'')\<lparr>op_name := ''kept''\<rparr>"]
  by (simp add: sample_toolset_def sample_named_def)

text \<open>The guard against a shadowed name never fires: assembling a toolset fails only for naming errors
  (duplicate ids, a surviving collision) and for two operations that claim one name.\<close>

theorem build_toolset_never_shadowed:
  "build_toolset ops config \<noteq> Inl NameShadowed"
proof -
  let ?sel = "fst (select_ops (apply_mode_posture (classify_ops ops (pc_classification config)) (pc_mode config)) (pc_selection config))"
  show ?thesis
  proof (cases "assign_names ?sel (naming_options_of (pc_naming config))")
    case (Inr named)
    have "length (dict_of (map (\<lambda>op. (op_name op, op)) named)) = length named"
      using assign_names_distinct [OF Inr] by (simp add: dict_of_distinct_id comp_def)
    then show ?thesis using Inr by (simp add: build_toolset_def case_prod_beta Let_def)
  next
    case (Inl e)
    then show ?thesis
      using assign_names_error [OF Inl] by (simp add: build_toolset_def case_prod_beta Let_def)
  qed
qed

text \<open>Stale rules are reported: a declared selection rule that no classified, postured operation
  matches, as a tag or as an id pattern, always yields its warning.\<close>

theorem stale_rules_warned:
  assumes "build_toolset ops config = Inr ts" and "r \<in> set (declared_rules (pc_selection config))"
    and "\<And>op. op \<in> set (apply_mode_posture (classify_ops ops (pc_classification config)) (pc_mode config)) \<Longrightarrow> \<not> rule_hits op r"
  shows "stale_warning r \<in> set (ts_warnings ts)"
  using stale_not_used [OF assms(2,3)] assms(1)
  by (auto simp: build_toolset_def case_prod_beta Let_def split: if_splits)

theorem stale_rules_warned_witness: "stale_warning ''gone'' \<in> set (ts_warnings sample_toolset)"
proof (rule stale_rules_warned [OF sample_build_toolset])
  show "''gone'' \<in> set (declared_rules (pc_selection sample_portal))"
    by (simp add: sample_portal_def declared_rules_def)
  have "list_all (\<lambda>op. \<not> rule_hits op ''gone'') (apply_mode_posture
      (classify_ops sample_ops (pc_classification sample_portal)) (pc_mode sample_portal))"
    by code_simp
  then show "\<not> rule_hits op ''gone''"
    if "op \<in> set (apply_mode_posture (classify_ops sample_ops (pc_classification sample_portal)) (pc_mode sample_portal))" for op
    using that by (simp add: list_all_iff)
qed

end
