(* ===== verification/JsonText.thy ===== *)
theory JsonText
  imports PyJson
begin

text \<open>
  A reference reader of JSON texts, as a recipient applies it to what \<open>json.dumps\<close> wrote: strings with their escapes, arrays and
  objects, with blanks between tokens. (Numbers and the three literals are not read: what is sent as text here has none.)
  \<open>read_dumped\<close> is the round trip.
\<close>

section \<open>The reader\<close>

definition hex_value :: "char \<Rightarrow> nat option" where
  "hex_value c =
     (if 48 \<le> code c \<and> code c \<le> 57 then Some (code c - 48)
      else if 97 \<le> code c \<and> code c \<le> 102 then Some (code c - 87)
      else None)"

text \<open>The character of an escape, and how many characters stand after the backslash.\<close>

fun read_escape :: "string \<Rightarrow> (char \<times> nat) option" where
  "read_escape [] = None"
| "read_escape (c # cs) =
     (if c = CHR 0x22 \<or> c = CHR 0x5C \<or> c = CHR ''/'' then Some (c, 1)
      else if c = CHR ''n'' then Some (char_of (10 :: nat), 1)
      else if c = CHR ''r'' then Some (char_of (13 :: nat), 1)
      else if c = CHR ''t'' then Some (char_of (9 :: nat), 1)
      else if c = CHR ''f'' then Some (char_of (12 :: nat), 1)
      else if c = CHR ''b'' then Some (char_of (8 :: nat), 1)
      else if c = CHR ''u''
      then (case map hex_value (take 4 cs) of
              [Some x, Some y, Some h, Some l] \<Rightarrow>
                if x = 0 \<and> y = 0 then Some (char_of (16 * h + l), 5) else None
            | _ \<Rightarrow> None)
      else None)"

text \<open>The rest of a string, after its opening quote.\<close>

function (sequential) read_chars :: "string \<Rightarrow> (string \<times> string) option" where
  "read_chars [] = None"
| "read_chars (c # cs) =
     (if c = CHR 0x22 then Some ([], cs)
      else if c = CHR 0x5C
      then (case read_escape cs of
              None \<Rightarrow> None
            | Some (d, n) \<Rightarrow> map_option (\<lambda>(s, r). (d # s, r)) (read_chars (drop n cs)))
      else map_option (\<lambda>(s, r). (c # s, r)) (read_chars cs))"
  by pat_completeness auto
termination by (relation "measure length") auto

definition skip_blanks :: "string \<Rightarrow> string" where
  "skip_blanks s = dropWhile (\<lambda>c. code c \<in> {9, 10, 13, 32}) s"

text \<open>Values, with a bound on the nesting; the length of the text is enough.\<close>

fun read_value :: "nat \<Rightarrow> string \<Rightarrow> (json \<times> string) option"
  and read_items :: "nat \<Rightarrow> string \<Rightarrow> (json list \<times> string) option"
  and read_members :: "nat \<Rightarrow> string \<Rightarrow> (jobj \<times> string) option"
where
  "read_value 0 s = None"
| "read_value (Suc n) s =
     (case skip_blanks s of
        [] \<Rightarrow> None
      | c # cs \<Rightarrow>
          if c = CHR 0x22 then map_option (\<lambda>(t, r). (JStr t, r)) (read_chars cs)
          else if c = CHR ''['' then
            (case skip_blanks cs of
               d # r \<Rightarrow> if d = CHR '']'' then Some (JList [], r) else map_option (\<lambda>(vs, r). (JList vs, r)) (read_items n cs)
             | [] \<Rightarrow> None)
          else if c = CHR 0x7B then
            (case skip_blanks cs of
               d # r \<Rightarrow> if d = CHR 0x7D then Some (JObj [], r) else map_option (\<lambda>(kvs, r). (JObj (dict_of kvs), r)) (read_members n cs)
             | [] \<Rightarrow> None)
          else None)"
| "read_items 0 s = None"
| "read_items (Suc n) s =
     (case read_value n s of
        None \<Rightarrow> None
      | Some (v, r) \<Rightarrow>
          (case skip_blanks r of
             d # r' \<Rightarrow>
               if d = CHR '']'' then Some ([v], r')
               else if d = CHR '','' then map_option (\<lambda>(vs, r). (v # vs, r)) (read_items n r')
               else None
           | [] \<Rightarrow> None))"
| "read_members 0 s = None"
| "read_members (Suc n) s =
     (case skip_blanks s of
        c # cs \<Rightarrow>
          if c \<noteq> CHR 0x22 then None
          else (case read_chars cs of
                  None \<Rightarrow> None
                | Some (k, r) \<Rightarrow>
                    (case skip_blanks r of
                       d # r' \<Rightarrow>
                         if d \<noteq> CHR '':'' then None
                         else (case read_value n r' of
                                 None \<Rightarrow> None
                               | Some (v, r2) \<Rightarrow>
                                   (case skip_blanks r2 of
                                      e # r3 \<Rightarrow>
                                        if e = CHR 0x7D then Some ([(k, v)], r3)
                                        else if e = CHR '','' then map_option (\<lambda>(kvs, r). ((k, v) # kvs, r)) (read_members n r3)
                                        else None
                                    | [] \<Rightarrow> None))
                     | [] \<Rightarrow> None))
      | [] \<Rightarrow> None)"

definition read_json :: "string \<Rightarrow> json option" where
  "read_json text =
     (case read_value (length text) text of
        Some (v, r) \<Rightarrow> if skip_blanks r = [] then Some v else None
      | None \<Rightarrow> None)"

section \<open>Strings\<close>

lemma hex_value_lower: "n < 16 \<Longrightarrow> hex_value (hex_lower n) = Some n"
  by (simp add: hex_value_def hex_lower_def of_char_of)

lemma read_escaped:
  assumes "dumps_char c = CHR 0x5C # e"
  shows "read_escape (e @ s) = Some (c, length e)"
proof -
  have "code c < 256" by (rule code_less)
  then have small: "code c div 16 < 16" "code c mod 16 < 16" by (simp_all add: less_mult_imp_div_less)
  have same: "char_of n = c" if "code c = n" for n using that by auto
  have "char_of (16 * (code c div 16) + code c mod 16) = c" by simp
  moreover have "hex_value (CHR ''0'') = Some 0" by (simp add: hex_value_def)
  ultimately show ?thesis
    using assms small same
    by (auto simp: dumps_char_def hex_value_lower split: if_splits) (metis char_of_char)+
qed

lemma dumps_char_plain:
  assumes "dumps_char c \<noteq> CHR 0x5C # tl (dumps_char c)"
  shows "dumps_char c = [c] \<and> c \<noteq> CHR 0x22 \<and> c \<noteq> CHR 0x5C"
  using assms by (auto simp: dumps_char_def split: if_splits)

lemma read_chars_dumped: "read_chars (concat (map dumps_char s) @ CHR 0x22 # rest) = Some (s, rest)"
proof (induction s)
  case (Cons c s)
  show ?case
  proof (cases "dumps_char c = CHR 0x5C # tl (dumps_char c)")
    case True
    then obtain e where e: "dumps_char c = CHR 0x5C # e" by blast
    show ?thesis using Cons by (simp add: e read_escaped [OF e])
  next
    case False
    then show ?thesis using Cons dumps_char_plain [OF False] by simp
  qed
qed simp

section \<open>Values\<close>

text \<open>The values that are read: strings, and lists and objects of such, objects without a repeated key.\<close>

fun textual :: "json \<Rightarrow> bool" where
  "textual (JStr s) = True"
| "textual (JList vs) = list_all textual vs"
| "textual (JObj kvs) = (distinct (map fst kvs) \<and> list_all (\<lambda>(k, v). textual v) kvs)"
| "textual _ = False"

lemma skip_blanks_Cons: "code c \<notin> {9, 10, 13, 32} \<Longrightarrow> skip_blanks (c # cs) = c # cs"
  by (simp add: skip_blanks_def)

lemma skip_blank: "skip_blanks (CHR '' '' # cs) = skip_blanks cs"
  by (simp add: skip_blanks_def)

definition token_starts :: "char list" where
  "token_starts = [CHR 0x22, CHR ''['', CHR 0x7B, CHR '']'', CHR 0x7D, CHR '','', CHR '':'']"

lemma skip_token: "c \<in> set token_starts \<Longrightarrow> skip_blanks (c # cs) = c # cs"
  by (rule skip_blanks_Cons) (auto simp: token_starts_def)

definition starts_in :: "char list \<Rightarrow> string \<Rightarrow> bool" where
  "starts_in cs s \<longleftrightarrow> s \<noteq> [] \<and> hd s \<in> set cs"

lemma dumped_start: "textual v \<Longrightarrow> starts_in [CHR 0x22, CHR ''['', CHR 0x7B] (json_dumps v)"
  by (cases v) (auto simp: dumps_str_def starts_in_def)

lemma read_value_blank: "read_value n (CHR '' '' # s) = read_value n s"
  by (cases n) (simp_all add: skip_blank)

lemma read_members_blank: "read_members n (CHR '' '' # s) = read_members n s"
  by (cases n) (simp_all add: skip_blank)

lemma read_items_blank: "read_items n (CHR '' '' # s) = read_items n s"
  by (cases n) (simp_all add: read_value_blank)

text \<open>What reading one value back means, at every place in a text.\<close>

definition read_back :: "json \<Rightarrow> bool" where
  "read_back v \<longleftrightarrow> (\<forall>n rest. length (json_dumps v) \<le> n \<longrightarrow> read_value n (json_dumps v @ rest) = Some (v, rest))"

lemma skip_ends [simp]:
  "skip_blanks (CHR '']'' # s) = CHR '']'' # s" "skip_blanks (CHR 0x7D # s) = CHR 0x7D # s"
  "skip_blanks (CHR '','' # s) = CHR '','' # s" "skip_blanks (CHR '':'' # s) = CHR '':'' # s"
  "skip_blanks (CHR 0x22 # s) = CHR 0x22 # s" "skip_blanks (CHR ''['' # s) = CHR ''['' # s"
  "skip_blanks (CHR 0x7B # s) = CHR 0x7B # s"
  by (simp_all add: skip_token token_starts_def)

lemma str_join_Cons: "str_join sep (s # ss) = (if ss = [] then s else s @ sep @ str_join sep ss)"
  by (cases ss) simp_all

lemma read_items_dumped:
  assumes "\<forall>v \<in> set vs. read_back v" "vs \<noteq> []" "length (str_join '', '' (map json_dumps vs)) < n"
  shows "read_items n (str_join '', '' (map json_dumps vs) @ CHR '']'' # rest) = Some (vs, rest)"
  using assms
proof (induction vs arbitrary: n)
  case (Cons v vs)
  then obtain m where n: "n = Suc m" by (cases n) auto
  have v: "read_value m (json_dumps v @ r) = Some (v, r)" for r
    using Cons.prems(1,3) unfolding read_back_def n by (auto simp: str_join_Cons split: if_splits)
  show ?case
  proof (cases "vs = []")
    case False
    have "read_items m (str_join '', '' (map json_dumps vs) @ CHR '']'' # rest) = Some (vs, rest)"
      by (rule Cons.IH) (use Cons.prems False n in \<open>auto simp: str_join_Cons\<close>)
    then show ?thesis using v False by (simp add: n str_join_Cons read_items_blank)
  qed (use v in \<open>simp add: n\<close>)
qed simp

abbreviation dumped_member :: "string \<times> json \<Rightarrow> string" where
  "dumped_member p \<equiv> dumps_str (fst p) @ '': '' @ json_dumps (snd p)"

lemma read_members_dumped:
  assumes "\<forall>p \<in> set kvs. read_back (snd p)" "kvs \<noteq> []" "length (str_join '', '' (map dumped_member kvs)) < n"
  shows "read_members n (str_join '', '' (map dumped_member kvs) @ CHR 0x7D # rest) = Some (kvs, rest)"
  using assms
proof (induction kvs arbitrary: n)
  case (Cons p kvs)
  then obtain m where n: "n = Suc m" by (cases n) auto
  obtain k v where p: "p = (k, v)" by (cases p)
  have v: "read_value m (json_dumps v @ r) = Some (v, r)" for r
    using Cons.prems(1,3) unfolding read_back_def n p by (auto simp: str_join_Cons split: if_splits)
  show ?case
  proof (cases "kvs = []")
    case False
    have "read_members m (str_join '', '' (map dumped_member kvs) @ CHR 0x7D # rest) = Some (kvs, rest)"
      by (rule Cons.IH) (use Cons.prems False n in \<open>auto simp: str_join_Cons\<close>)
    then show ?thesis
      using v False by (simp add: n p str_join_Cons dumps_str_def read_chars_dumped read_value_blank read_members_blank)
  qed (use v in \<open>simp add: n p dumps_str_def read_chars_dumped read_value_blank\<close>)
qed simp

lemma json_dumps_members: "map (\<lambda>(k, v). dumps_str k @ '': '' @ json_dumps v) kvs = map dumped_member kvs"
  by (simp add: case_prod_beta)

lemma json_dumps_obj: "json_dumps (JObj kvs) = CHR 0x7B # str_join '', '' (map dumped_member kvs) @ [CHR 0x7D]"
  unfolding json_dumps.simps json_dumps_members by simp

lemma join_start: "ss \<noteq> [] \<Longrightarrow> \<forall>s \<in> set ss. starts_in cs s \<Longrightarrow> starts_in cs (str_join sep ss)"
  by (cases ss) (auto simp: str_join_Cons starts_in_def)

lemma starts_in_obtain:
  assumes "starts_in cs s"
  obtains c t where "s = c # t" "c \<in> set cs"
  using assms by (cases s) (auto simp: starts_in_def)

lemma dumped_read_back: "textual v \<Longrightarrow> read_back v"
proof (induction v rule: textual.induct)
  case (1 s)
  show ?case unfolding read_back_def
  proof (intro allI impI)
    fix n rest
    assume "length (json_dumps (JStr s)) \<le> n"
    then obtain m where "n = Suc m" by (cases n) (auto simp: dumps_str_def)
    then show "read_value n (json_dumps (JStr s) @ rest) = Some (JStr s, rest)"
      by (simp add: dumps_str_def read_chars_dumped)
  qed
next
  case (2 vs)
  show ?case unfolding read_back_def
  proof (intro allI impI)
    fix n rest
    assume len: "length (json_dumps (JList vs)) \<le> n"
    then obtain m where n: "n = Suc m" by (cases n) auto
    show "read_value n (json_dumps (JList vs) @ rest) = Some (JList vs, rest)"
    proof (cases "vs = []")
      case False
      let ?t = "str_join '', '' (map json_dumps vs)"
      have "\<forall>s \<in> set (map json_dumps vs). starts_in [CHR 0x22, CHR ''['', CHR 0x7B] s"
        using "2.prems" dumped_start by (simp add: list_all_iff)
      then have "starts_in [CHR 0x22, CHR ''['', CHR 0x7B] ?t" using False by (intro join_start) simp_all
      then obtain c cs where c: "?t = c # cs" "c \<in> set [CHR 0x22, CHR ''['', CHR 0x7B]" by (rule starts_in_obtain)
      have "read_items m (?t @ CHR '']'' # rest) = Some (vs, rest)"
        by (rule read_items_dumped) (use 2 False len n in \<open>auto simp: list_all_iff\<close>)
      then show ?thesis using c by (auto simp: n)
    qed (simp add: n)
  qed
next
  case (3 kvs)
  show ?case unfolding read_back_def
  proof (intro allI impI)
    fix n rest
    assume len: "length (json_dumps (JObj kvs)) \<le> n"
    then obtain m where n: "n = Suc m" by (cases n) auto
    show "read_value n (json_dumps (JObj kvs) @ rest) = Some (JObj kvs, rest)"
    proof (cases "kvs = []")
      case False
      let ?t = "str_join '', '' (map dumped_member kvs)"
      have "\<forall>s \<in> set (map dumped_member kvs). starts_in [CHR 0x22] s"
        by (auto simp: dumps_str_def starts_in_def)
      then have "starts_in [CHR 0x22] ?t" using False by (intro join_start) simp_all
      then obtain c cs where c: "?t = c # cs" "c \<in> set [CHR 0x22]" by (rule starts_in_obtain)
      have "read_back (snd p)" if "p \<in> set kvs" for p
        using "3.IH" [of p "fst p" "snd p"] "3.prems" that by (auto simp: list_all_iff)
      moreover have "length ?t < m" using len by (simp add: n json_dumps_obj del: json_dumps.simps)
      ultimately have "read_members m (?t @ CHR 0x7D # rest) = Some (kvs, rest)"
        using False by (intro read_members_dumped) simp_all
      moreover have "dict_of kvs = kvs" using "3.prems" by (simp add: dict_of_distinct_id)
      ultimately show ?thesis using c by (auto simp: n json_dumps_obj simp del: json_dumps.simps)
    qed (simp add: n)
  qed
qed simp_all

lemma read_dumped: "textual v \<Longrightarrow> read_json (json_dumps v) = Some v"
proof -
  assume "textual v"
  then have "read_value (length (json_dumps v)) (json_dumps v @ []) = Some (v, [])"
    using dumped_read_back unfolding read_back_def by blast
  then show ?thesis by (simp add: read_json_def skip_blanks_def)
qed

lemma read_dumped_sample:
  "read_json (json_dumps (JList [JObj [(''type'', JStr [CHR 0x22, CHR 0x0A, CHR 0xE9])], JStr []])) = Some (JList [JObj [(''type'', JStr [CHR 0x22, CHR 0x0A, CHR 0xE9])], JStr []])"
  by (rule read_dumped) simp

end
