(* ===== verification/Outbound.thy ===== *)
theory Outbound
  imports Loader TransportCommon Rar JsonText
begin

text \<open>
  Outbound credentials (\<open>auth/outbound.py\<close>, and \<open>StaticCredentialSource\<close> of \<open>transports/http.py\<close>). The token
  endpoint's answer is an input: its status and \<open>response.json()\<close> (\<open>None\<close> for a \<open>ValueError\<close>). Python's
  \<open>hash\<close>, the reading of a decimal string as a \<open>float\<close>, and the clock are arguments, and so is the
  cache's answer to \<open>get_or_fetch\<close>, which the theory of the cache is about. Log lines are left out.
\<close>

section \<open>Static credentials\<close>

definition credential_for :: "outbound_config \<Rightarrow> (string, string) pydict \<Rightarrow> config_error + credential option" where
  "credential_for outbound secrets =
     (if ob_mode outbound = OutNone then Inr None
      else case ob_value outbound of
          None \<Rightarrow> Inl StaticWithoutValue
        | Some ref \<Rightarrow>
            (case map_of secrets ref of
               None \<Rightarrow> Inl (UnresolvedSecret ref)
             | Some secret \<Rightarrow>
                 let value = (case ob_scheme outbound of
                                Some s \<Rightarrow> if s \<noteq> [] then s @ '' '' @ secret else secret
                              | None \<Rightarrow> secret)
                 in Inr (Some \<lparr>cred_header = ob_header outbound, cred_value = value\<rparr>)))"

definition static_get ::
    "credential option \<Rightarrow> auth_detail list \<Rightarrow> string option \<Rightarrow> int option \<Rightarrow> credential_error + credential option" where
  "static_get credential carry subject_token expires_at = Inr credential"

section \<open>Authorization details on the wire\<close>

definition strings_json :: "string list \<Rightarrow> json option" where
  "strings_json ss = (if ss = [] then None else Some (JList (map JStr ss)))"

definition detail_json :: "auth_detail \<Rightarrow> json" where
  "detail_json d =
     JObj (List.map_filter (\<lambda>(k, v). map_option (Pair k) v)
       [(''type'', Some (JStr (ad_type d))), (''actions'', strings_json (ad_actions d)),
        (''locations'', strings_json (ad_locations d)), (''datatypes'', strings_json (ad_datatypes d)),
        (''identifier'', map_option JStr (ad_identifier d)), (''privileges'', strings_json (ad_privileges d))])"

definition details_value :: "auth_detail list \<Rightarrow> json" where
  "details_value details = JList (map detail_json details)"

definition authorization_details_json :: "auth_detail list \<Rightarrow> string option" where
  "authorization_details_json details =
     (if details = [] then None else Some (json_dumps (details_value details)))"

section \<open>Token requests\<close>

record token_response =
  ts_status :: int
  ts_payload :: "json option"

definition EXPIRY_LEEWAY_S :: rat where
  "EXPIRY_LEEWAY_S = 60"

text \<open>\<open>float(v)\<close>: \<open>None\<close> is a \<open>ValueError\<close> or \<open>TypeError\<close>, which the code turns into \<open>OutboundError\<close>; an
  \<open>OverflowError\<close> (an integer beyond the floats) is not caught.\<close>

definition FLOAT_LIMIT :: int where
  "FLOAT_LIMIT = 2 ^ 1024 - 2 ^ 970"

fun float_of_json :: "(string \<Rightarrow> rat option) \<Rightarrow> json \<Rightarrow> credential_error + rat option" where
  "float_of_json parse (JInt i) =
     (if \<bar>i\<bar> \<ge> FLOAT_LIMIT then Inl (CredentialCrash ''OverflowError'') else Inr (Some (of_int i)))"
| "float_of_json parse (JFloat q s) = Inr (Some q)"
| "float_of_json parse (JBool b) = Inr (Some (if b then 1 else 0))"
| "float_of_json parse (JStr s) = Inr (parse s)"
| "float_of_json parse v = Inr None"

definition post_token_request ::
    "(string \<Rightarrow> rat option) \<Rightarrow> string \<Rightarrow> token_response \<Rightarrow> credential_error + string \<times> rat" where
  "post_token_request parse token_endpoint response =
     (if ts_status response \<noteq> 200
      then Inl (OutboundError (''token request to '' @ str_repr token_endpoint @ '' failed with '' @ int_str (ts_status response)))
      else case ts_payload response of
          None \<Rightarrow> Inl (OutboundError (''token response from '' @ str_repr token_endpoint @ '' was malformed''))
        | Some (JObj payload) \<Rightarrow>
            (case jget payload ''access_token'' JNull of
               JStr token \<Rightarrow>
                 bind_res (float_of_json parse (jget payload ''expires_in'' (JInt 300))) (\<lambda>f.
                 case f of
                   None \<Rightarrow> Inl (OutboundError (''token response from '' @ str_repr token_endpoint @ '' was malformed''))
                 | Some secs \<Rightarrow> Inr (token, max 0 (secs - EXPIRY_LEEWAY_S)))
             | _ \<Rightarrow> Inl (OutboundError (''token response from '' @ str_repr token_endpoint @ '' has no \"access_token\"'')))
        | Some _ \<Rightarrow> Inl (CredentialCrash ''AttributeError''))"

text \<open>\<open>repr\<close> of the tuple of scopes, inside the cache key.\<close>

definition tuple_repr :: "string list \<Rightarrow> string" where
  "tuple_repr ss =
     ''('' @ str_join '', '' (map str_repr ss) @ (if length ss = 1 then '','' else []) @ '')''"

type_synonym get_or_fetch = "string \<Rightarrow> credential_error + string \<times> rat \<Rightarrow> credential_error + string"

definition bearer :: "string \<Rightarrow> credential" where
  "bearer token = \<lparr>cred_header = ''Authorization'', cred_value = ''Bearer '' @ token\<rparr>"

definition add_optional :: "string \<Rightarrow> string option \<Rightarrow> (string, string) pydict \<Rightarrow> (string, string) pydict" where
  "add_optional k v data = (case v of None \<Rightarrow> data | Some x \<Rightarrow> AList.update k x data)"

definition scope_value :: "string list \<Rightarrow> string option" where
  "scope_value scopes = (if scopes = [] then None else Some (str_join '' '' scopes))"

section \<open>Client credentials\<close>

definition cc_key :: "(auth_detail list \<Rightarrow> int) \<Rightarrow> string \<Rightarrow> outbound_config \<Rightarrow> auth_detail list \<Rightarrow> string" where
  "cc_key hash_carry upstream_key outbound carry =
     ''client_credentials:'' @ upstream_key @ '':'' @ tuple_repr (sort (ob_scopes outbound)) @ '':'' @ int_str (hash_carry carry)"

definition cc_data :: "outbound_config \<Rightarrow> auth_detail list \<Rightarrow> (string, string) pydict" where
  "cc_data outbound carry =
     add_optional ''authorization_details'' (authorization_details_json carry)
       (add_optional ''scope'' (scope_value (sort (ob_scopes outbound)))
          [(''grant_type'', ''client_credentials'')])"

definition client_secret :: "outbound_config \<Rightarrow> (string, string) pydict \<Rightarrow> credential_error + string" where
  "client_secret outbound secrets =
     (case ob_client_secret outbound of
        None \<Rightarrow> Inl (CredentialCrash ''client_secret is not None'')
      | Some ref \<Rightarrow>
          (case map_of secrets ref of
             None \<Rightarrow> Inl (OutboundError (''secret reference '' @ str_repr ref @ '' was not resolved at load time''))
           | Some s \<Rightarrow> Inr s))"

text \<open>\<open>endpoint\<close> answers a request: endpoint, client id, client secret and form data.\<close>

type_synonym token_endpoint = "string \<Rightarrow> string \<Rightarrow> string \<Rightarrow> (string, string) pydict \<Rightarrow> token_response"

definition cc_fetch ::
    "(string \<Rightarrow> rat option) \<Rightarrow> token_endpoint \<Rightarrow> outbound_config \<Rightarrow> (string, string) pydict \<Rightarrow> auth_detail list
     \<Rightarrow> credential_error + string \<times> rat" where
  "cc_fetch parse endpoint outbound secrets carry =
     (case ob_token_endpoint outbound of
        None \<Rightarrow> Inl (CredentialCrash ''token_endpoint is not None'')
      | Some url \<Rightarrow>
          (case ob_client_id outbound of
             None \<Rightarrow> Inl (CredentialCrash ''client_id is not None'')
           | Some cid \<Rightarrow>
               bind_res (client_secret outbound secrets) (\<lambda>secret.
               post_token_request parse url (endpoint url cid secret (cc_data outbound carry)))))"

definition cc_get ::
    "get_or_fetch \<Rightarrow> (auth_detail list \<Rightarrow> int) \<Rightarrow> (string \<Rightarrow> rat option) \<Rightarrow> token_endpoint \<Rightarrow> string \<Rightarrow> outbound_config
     \<Rightarrow> (string, string) pydict \<Rightarrow> auth_detail list \<Rightarrow> string option \<Rightarrow> int option \<Rightarrow> credential_error + credential option" where
  "cc_get cache hash_carry parse endpoint upstream_key outbound secrets carry subject_token expires_at =
     bind_res (cache (cc_key hash_carry upstream_key outbound carry) (cc_fetch parse endpoint outbound secrets carry))
       (\<lambda>token. Inr (Some (bearer token)))"

section \<open>Token exchange\<close>

record token_exchange_source =
  te_token_endpoint :: string
  te_client_id :: string
  te_client_secret :: string
  te_requested_token_type :: string
  te_scopes :: "string list"
  te_upstream_key :: string
  te_audience :: "string option"
  te_resource :: "string option"

definition te_key ::
    "(string \<Rightarrow> int) \<Rightarrow> (auth_detail list \<Rightarrow> int) \<Rightarrow> token_exchange_source \<Rightarrow> string \<Rightarrow> auth_detail list \<Rightarrow> string" where
  "te_key hash_str hash_carry src subject_token carry =
     ''token_exchange:'' @ te_upstream_key src @ '':'' @ int_str (hash_str subject_token) @ '':''
     @ tuple_repr (sort (te_scopes src)) @ '':'' @ int_str (hash_carry carry)"

definition te_data :: "token_exchange_source \<Rightarrow> string \<Rightarrow> auth_detail list \<Rightarrow> (string, string) pydict" where
  "te_data src subject_token carry =
     add_optional ''authorization_details'' (authorization_details_json carry)
       (add_optional ''scope'' (scope_value (sort (te_scopes src)))
          (add_optional ''resource'' (te_resource src)
             (add_optional ''audience'' (te_audience src)
                [(''grant_type'', ''urn:ietf:params:oauth:grant-type:token-exchange''),
                 (''subject_token'', subject_token),
                 (''subject_token_type'', ''urn:ietf:params:oauth:token-type:access_token''),
                 (''requested_token_type'', te_requested_token_type src)])))"

definition te_fetch ::
    "(string \<Rightarrow> rat option) \<Rightarrow> token_endpoint \<Rightarrow> rat \<Rightarrow> token_exchange_source \<Rightarrow> auth_detail list \<Rightarrow> string \<Rightarrow> int option
     \<Rightarrow> credential_error + string \<times> rat" where
  "te_fetch parse endpoint now src carry subject_token expires_at =
     bind_res (post_token_request parse (te_token_endpoint src)
                 (endpoint (te_token_endpoint src) (te_client_id src) (te_client_secret src)
                    (te_data src subject_token carry))) (\<lambda>(token, ttl).
     case expires_at of
       None \<Rightarrow> Inr (token, ttl)
     | Some e \<Rightarrow> Inr (token, min ttl (max 0 (of_int e - now - EXPIRY_LEEWAY_S))))"

definition te_get ::
    "get_or_fetch \<Rightarrow> (string \<Rightarrow> int) \<Rightarrow> (auth_detail list \<Rightarrow> int) \<Rightarrow> (string \<Rightarrow> rat option) \<Rightarrow> token_endpoint \<Rightarrow> rat
     \<Rightarrow> token_exchange_source \<Rightarrow> auth_detail list \<Rightarrow> string option \<Rightarrow> int option \<Rightarrow> credential_error + credential option" where
  "te_get cache hash_str hash_carry parse endpoint now src carry subject_token expires_at =
     (case subject_token of
        None \<Rightarrow> Inl (OutboundError ''token_exchange requires an inbound subject_token'')
      | Some tok \<Rightarrow>
          bind_res (cache (te_key hash_str hash_carry src tok carry) (te_fetch parse endpoint now src carry tok expires_at))
            (\<lambda>token. Inr (Some (bearer token))))"

section \<open>The credential source contract\<close>

text \<open>
  What the transports rely on: the header a source's credential goes into is known beforehand, and
  only a source that is marked optional may come without one.
\<close>

locale credential_source =
  fixes get :: "auth_detail list \<Rightarrow> string option \<Rightarrow> int option \<Rightarrow> credential_error + credential option"
    and header :: string
    and optional :: bool
  assumes in_header: "get carry token expires = Inr (Some c) \<Longrightarrow> cred_header c = header"
    and present: "get carry token expires = Inr None \<Longrightarrow> optional"
begin

lemma sent_in_header:
  assumes "get carry token expires = Inr cred" "\<not> optional" "build_request b base args cred = Inr req"
  shows "\<exists>c. cred = Some c \<and> map_of (req_headers req) header = Some (cred_value c)"
proof -
  obtain c where "cred = Some c" using assms(1,2) present by (cases cred) auto
  then show ?thesis using assms(1,3) in_header build_request_headers_form(2) [OF assms(3)] by blast
qed

end

interpretation client_credentials: credential_source
  "cc_get cache hash_carry parse endpoint upstream_key outbound secrets" "''Authorization''" False
  for cache hash_carry parse endpoint upstream_key outbound secrets
  by unfold_locales (auto simp: cc_get_def bearer_def)

interpretation token_exchange: credential_source
  "te_get cache hash_str hash_carry parse endpoint now src" "''Authorization''" False
  for cache hash_str hash_carry parse endpoint now src
  by unfold_locales (auto simp: te_get_def bearer_def split: option.splits)

interpretation static: credential_source
  "static_get credential" "case credential of Some c \<Rightarrow> cred_header c | None \<Rightarrow> []" "credential = None"
  for credential
  by unfold_locales (auto simp: static_get_def)

section \<open>Decimal strings\<close>

lemma digits_value_nat_str: "digits_value (nat_str n) = n"
proof (induction n rule: nat_str.induct)
  case (1 n)
  show ?case
  proof (cases "n < 10")
    case True
    then show ?thesis by (subst nat_str.simps) (simp add: digits_value_def digit_char_def)
  next
    case False
    then have "digits_value (nat_str n) = digits_value (nat_str (n div 10)) * 10 + n mod 10"
      by (subst nat_str.simps) (simp add: digits_value_def digit_char_def)
    then show ?thesis using 1 [OF False] by simp
  qed
qed

lemma int_str_inj: "int_str i = int_str j \<longleftrightarrow> i = j"
proof
  assume eq: "int_str i = int_str j"
  have minus: "nat_str n \<noteq> CHR ''-'' # s" for n s
    using nat_str_digits [of n] by (auto simp: is_digit_ascii_def)
  have "nat \<bar>i\<bar> = nat \<bar>j\<bar>" and "(i < 0) = (j < 0)"
    using eq minus by (auto simp: int_str_def dest: arg_cong [where f = digits_value] split: if_splits)
      (metis digits_value_nat_str)+
  then show "i = j" by (auto simp: abs_if split: if_splits)
qed simp

lemma int_str_no_colon: "CHR '':'' \<notin> set (int_str i)"
  using nat_str_digits [of "nat i"] nat_str_digits [of "nat (- i)"] by (auto simp: int_str_def is_digit_ascii_def)

lemma takeWhile_tail': "x \<notin> set b \<Longrightarrow> takeWhile (\<lambda>y. y \<noteq> x) (b @ x # a) = b"
  by (induction b) auto

text \<open>A colon-free tail after the last colon is determined.\<close>

lemma last_colon_split:
  assumes "a @ CHR '':'' # b = c @ CHR '':'' # d" "CHR '':'' \<notin> set b" "CHR '':'' \<notin> set d"
  shows "a = c \<and> b = d"
proof -
  have "rev b @ CHR '':'' # rev a = rev d @ CHR '':'' # rev c"
    using arg_cong [OF assms(1), of rev] by simp
  moreover have "takeWhile (\<lambda>x. x \<noteq> CHR '':'') (rev b @ CHR '':'' # rev a) = rev b"
    "takeWhile (\<lambda>x. x \<noteq> CHR '':'') (rev d @ CHR '':'' # rev c) = rev d"
    by (rule takeWhile_tail', use assms in simp)+
  ultimately have "rev b = rev d" by metis
  then show ?thesis using assms(1) by simp
qed

lemma te_key_eq:
  "te_key hash_str hash_carry src t carry = te_key hash_str hash_carry src t' carry'
   \<longleftrightarrow> hash_str t = hash_str t' \<and> hash_carry carry = hash_carry carry'"
proof
  let ?a = "\<lambda>t. int_str (hash_str t) @ '':'' @ tuple_repr (sort (te_scopes src))"
  assume "te_key hash_str hash_carry src t carry = te_key hash_str hash_carry src t' carry'"
  then have "?a t @ CHR '':'' # int_str (hash_carry carry) = ?a t' @ CHR '':'' # int_str (hash_carry carry')"
    by (simp add: te_key_def)
  then have "?a t = ?a t' \<and> int_str (hash_carry carry) = int_str (hash_carry carry')"
    by (rule last_colon_split) (rule int_str_no_colon)+
  then show "hash_str t = hash_str t' \<and> hash_carry carry = hash_carry carry'"
    by (simp add: int_str_inj)
qed (simp add: te_key_def)

section \<open>Details round trip\<close>

lemma jget_tuple: "strings_json ss = v \<Longrightarrow> string_tuple (case v of Some j \<Rightarrow> j | None \<Rightarrow> JList []) f = Inr ss"
  using string_tuple_strings [of ss f] string_tuple_strings [of "[]" f] by (auto simp: strings_json_def)

lemma parse_detail_json: "parse_entry (detail_json d) = Inr d"
  by (cases "ad_actions d = []"; cases "ad_locations d = []"; cases "ad_datatypes d = []";
      cases "ad_privileges d = []"; cases "ad_identifier d")
    (simp_all add: detail_json_def parse_entry_def map_filter_simps strings_json_def jget_def
      string_tuple_strings string_tuple_strings [of "[]", simplified])

section \<open>Properties\<close>

lemma parse_details_value: "parse_authorization_details (details_value details) = Inr details"
proof -
  have "mapM parse_entry (map detail_json details) = Inr details"
    by (simp add: mapM_eq_Inr list_all2_conv_all_nth parse_detail_json)
  then show ?thesis by (simp add: parse_authorization_details_def details_value_def)
qed

lemma detail_textual: "textual (detail_json d)"
  by (cases "ad_actions d = []"; cases "ad_locations d = []"; cases "ad_datatypes d = []";
      cases "ad_privileges d = []"; cases "ad_identifier d")
    (simp_all add: detail_json_def map_filter_simps strings_json_def list_all_iff)

lemma map_of_add_optional: "map_of (add_optional k v d) x = (if x = k \<and> v \<noteq> None then v else map_of d x)"
  by (auto simp: add_optional_def update_conv' split: option.splits)

text \<open>C37. What the portal sends as \<open>authorization_details\<close> means exactly the details it was asked to carry. Both token requests
  send the text of \<open>_authorization_details_json\<close> under that key, or nothing when there is nothing to carry; a recipient that reads the
  text as JSON (\<open>read_json\<close>) and parses the claim, as the portal itself does, gets back those details.\<close>

theorem details_roundtrip:
  "map_of (cc_data outbound details) ''authorization_details'' = authorization_details_json details
   \<and> map_of (te_data src subject_token details) ''authorization_details'' = authorization_details_json details
   \<and> (case authorization_details_json details of
        None \<Rightarrow> details = []
      | Some sent \<Rightarrow> details \<noteq> []
          \<and> (\<exists>claim. read_json sent = Some claim \<and> parse_authorization_details claim = Inr details))"
proof -
  have "textual (details_value details)" by (simp add: details_value_def list_all_iff detail_textual)
  then have "read_json (json_dumps (details_value details)) = Some (details_value details)" by (rule read_dumped)
  then show ?thesis
    using parse_details_value
    by (auto simp: authorization_details_json_def cc_data_def te_data_def map_of_add_optional)
qed

text \<open>An exchanged token is never cached longer than the caller's own token lives: its time to live is
  not negative, at most the endpoint's \<open>expires_in\<close> less the leeway, and at most what is left of
  the subject token less the leeway.\<close>

theorem exchanged_token_lifetime:
  assumes "te_fetch parse endpoint now src carry subject (Some e) = Inr (token, ttl)"
  shows "0 \<le> ttl \<and> ttl \<le> max 0 (of_int e - now - EXPIRY_LEEWAY_S)
         \<and> (\<exists>ttl'. post_token_request parse (te_token_endpoint src)
                 (endpoint (te_token_endpoint src) (te_client_id src) (te_client_secret src)
                    (te_data src subject carry)) = Inr (token, ttl') \<and> ttl \<le> ttl')"
proof -
  obtain ttl' where p: "post_token_request parse (te_token_endpoint src)
                 (endpoint (te_token_endpoint src) (te_client_id src) (te_client_secret src)
                    (te_data src subject carry)) = Inr (token, ttl')"
    and t: "ttl = min ttl' (max 0 (of_int e - now - EXPIRY_LEEWAY_S))"
    using assms by (auto simp: te_fetch_def)
  have "0 \<le> ttl'"
    using p by (auto simp: post_token_request_def split: if_splits option.splits json.splits)
  then show ?thesis using p t by auto
qed

definition sample_endpoint :: token_endpoint where
  "sample_endpoint url cid secret data =
     \<lparr>ts_status = 200, ts_payload = Some (JObj [(''access_token'', JStr ''t''), (''expires_in'', JInt 3600)])\<rparr>"

definition sample_source :: token_exchange_source where
  "sample_source =
     \<lparr>te_token_endpoint = ''https://as/token'', te_client_id = ''c'', te_client_secret = ''s'',
      te_requested_token_type = ''t'', te_scopes = [], te_upstream_key = ''u'', te_audience = None, te_resource = None\<rparr>"

theorem exchanged_token_lifetime_witness: "(40 :: rat) \<le> max 0 (of_int 1100 - 1000 - EXPIRY_LEEWAY_S)"
proof -
  have "te_fetch (\<lambda>_. None) sample_endpoint 1000 sample_source [] ''x'' (Some 1100) = Inr (''t'', 40)"
    by (simp add: te_fetch_def sample_endpoint_def sample_source_def post_token_request_def jget_def EXPIRY_LEEWAY_S_def FLOAT_LIMIT_def)
  from exchanged_token_lifetime [OF this] show ?thesis by blast
qed

text \<open>Cache keys of a token-exchange source separate callers: two calls use the same entry exactly when
  the hashes of their subject tokens and of their carried details agree. (The separation is only
  as good as \<open>hash\<close>, which the key uses in place of the token.)\<close>

theorem exchange_key_separates:
  "te_key hash_str hash_carry src t carry = te_key hash_str hash_carry src t' carry'
   \<longleftrightarrow> hash_str t = hash_str t' \<and> hash_carry carry = hash_carry carry'"
  by (rule te_key_eq)

text \<open>A dynamic credential source never lets a call go out without its token: whenever it answers, the
  prepared request carries \<open>Authorization: Bearer\<close> and the token the cache returned.\<close>

theorem exchange_always_authorized:
  assumes "te_get cache hash_str hash_carry parse endpoint now src carry subject expires = Inr cred"
    and "build_request b base args cred = Inr req"
  shows "\<exists>subj token. subject = Some subj
           \<and> cache (te_key hash_str hash_carry src subj carry) (te_fetch parse endpoint now src carry subj expires) = Inr token
           \<and> map_of (req_headers req) ''Authorization'' = Some (''Bearer '' @ token)"
proof -
  obtain subj token where s: "subject = Some subj"
    "cache (te_key hash_str hash_carry src subj carry) (te_fetch parse endpoint now src carry subj expires) = Inr token"
    "cred = Some (bearer token)"
    using assms(1) by (auto simp: te_get_def split: option.splits)
  obtain c where "cred = Some c" "map_of (req_headers req) ''Authorization'' = Some (cred_value c)"
    using token_exchange.sent_in_header [OF assms(1) _ assms(2)] by blast
  then show ?thesis using s by (auto simp: bearer_def)
qed

theorem exchange_always_authorized_witness:
  "\<exists>token. map_of [(''Authorization'', ''Bearer t'')] ''Authorization'' = Some (''Bearer '' @ token)"
proof -
  have g: "te_get (\<lambda>_ r. bind_res r (\<lambda>(t, _). Inr t)) (\<lambda>_. 0) (\<lambda>_. 0) (\<lambda>_. None) sample_endpoint 1000 sample_source [] (Some ''x'') None
      = Inr (Some (bearer ''t''))"
    by (simp add: te_get_def te_fetch_def sample_endpoint_def sample_source_def post_token_request_def jget_def EXPIRY_LEEWAY_S_def FLOAT_LIMIT_def)
  have b: "build_request \<lparr>hb_method = ''GET'', hb_path = ''/c'', hb_parameters = [], hb_body = None\<rparr> ''http://u'' [] (Some (bearer ''t''))
      = Inr \<lparr>req_method = ''GET'', req_url = ''http://u/c'', req_headers = [(''Authorization'', ''Bearer t'')], req_body = None\<rparr>"
    by code_simp
  show ?thesis using exchange_always_authorized [OF g b] by auto
qed

end
