(* ===== verification/Invoker.thy ===== *)
theory Invoker
  imports Transports Principal Registry Outbound
begin

text \<open>
  Tool calls (\<open>server/mcp.py\<close>), and the dispatch between two transports of one upstream
  (\<open>_ProtocolRoutingTransport\<close> of \<open>app.py\<close>). \<open>jsonschema.validate\<close> is an argument: it finds the arguments
  valid, or raises a \<open>ValidationError\<close> (path and message) or, for a tool schema that is itself invalid, a
  \<open>SchemaError\<close>, which the code does not catch. A transport is its \<open>execute\<close>; what it
  sends on the way is kept in the result, so that a call's effects are visible. A message of \<open>httpx\<close>
  is the string the outcome carries.
\<close>

record tool_annotations =
  ta_title :: string
  ta_read_only :: bool
  ta_destructive :: bool
  ta_idempotent :: bool
  ta_open_world :: bool

record mcp_tool =
  mt_name :: string
  mt_title :: string
  mt_description :: string
  mt_input_schema :: jobj
  mt_annotations :: tool_annotations

record tool_result =
  tl_text :: codepoints
  tl_is_error :: bool

section \<open>Tools\<close>

definition ANNOTATIONS :: "effect \<Rightarrow> bool \<times> bool \<times> bool" where
  "ANNOTATIONS e =
     (case e of
        READ_ONLY \<Rightarrow> (True, False, True)
      | IDEMPOTENT_WRITE \<Rightarrow> (False, True, True)
      | ACTION \<Rightarrow> (False, True, False))"

definition annotations_for :: "operation \<Rightarrow> tool_annotations" where
  "annotations_for op =
     (let (read_only, destructive, idempotent) = ANNOTATIONS (op_effect op)
      in \<lparr>ta_title = op_title op, ta_read_only = read_only, ta_destructive = destructive,
          ta_idempotent = idempotent, ta_open_world = True\<rparr>)"

definition to_mcp_tool :: "operation \<Rightarrow> mcp_tool" where
  "to_mcp_tool op =
     \<lparr>mt_name = op_name op, mt_title = op_title op, mt_description = op_description op,
      mt_input_schema = op_input_schema op, mt_annotations = annotations_for op\<rparr>"

definition error_result :: "string \<Rightarrow> tool_result" where
  "error_result message = \<lparr>tl_text = cps message, tl_is_error = True\<rparr>"

section \<open>Calls\<close>

type_synonym transport =
  "operation \<Rightarrow> jobj \<Rightarrow> auth_detail list \<Rightarrow> string option \<Rightarrow> int option
   \<Rightarrow> (exec_error + transport_response) \<times> event list"

datatype validation = Valid | Invalid "json list" string | SchemaInvalid string

type_synonym validator = "jobj \<Rightarrow> jobj \<Rightarrow> validation"

record invoker =
  iv_toolset :: toolset
  iv_transports :: "(string, transport) pydict"
  iv_policy :: policy_config
  iv_principal :: principal

definition invoker_tools :: "invoker \<Rightarrow> mcp_tool list" where
  "invoker_tools portal = map to_mcp_tool (ts_operations (iv_toolset portal))"

definition build_error_message :: "build_error \<Rightarrow> string" where
  "build_error_message e =
     (case e of
        EmptyPathValue arg \<Rightarrow>
          ''empty value for path argument '' @ str_repr arg @ '' would collapse the segment and change the route''
      | MissingArgument arg \<Rightarrow> ''missing required argument '' @ str_repr arg
      | HeaderInjection name \<Rightarrow> 
          ''header '' @ str_repr name @ '' value contains CR or LF, which would allow header injection''
      | BadSchema _ \<Rightarrow> [])"

definition validation_message :: "string \<Rightarrow> json list \<times> string \<Rightarrow> string" where
  "validation_message name err =
     (let (path, message) = err;
          field = str_join ''.'' (map py_str path);
          loc = (if field \<noteq> [] then '' at '' @ field else [])
      in ''invalid arguments for '' @ str_repr name @ loc @ '': '' @ message)"

definition denial_message :: "string \<Rightarrow> policy_decision \<Rightarrow> string" where
  "denial_message name decision =
     (let missing = str_join '', '' (map ad_type (pd_missing decision))
      in ''authorization denied for '' @ str_repr name @ '': missing ''
         @ (if missing \<noteq> [] then missing else ''policy default is deny''))"

text \<open>The \<open>except\<close> clauses: \<open>Inl\<close> is an exception that none of them catches.\<close>

definition handle_exec_error :: "string \<Rightarrow> operation \<Rightarrow> exec_error \<Rightarrow> exec_error + tool_result" where
  "handle_exec_error name op e =
     (case e of
        BuildFailed (BadSchema s) \<Rightarrow> Inl e
      | BuildFailed b \<Rightarrow> Inr (error_result (''invalid arguments for '' @ str_repr name @ '': '' @ build_error_message b))
      | UpstreamTimeout \<Rightarrow> Inr (error_result (''upstream '' @ str_repr (op_upstream op) @ '' timed out''))
      | UpstreamFailed msg \<Rightarrow>
          Inr (error_result (''upstream '' @ str_repr (op_upstream op) @ '' request failed: '' @ msg))
      | CredentialFailed (OutboundError m) \<Rightarrow>
          Inr (error_result (''outbound credential acquisition failed for upstream '' @ str_repr (op_upstream op)))
      | CredentialFailed (CredentialCrash m) \<Rightarrow> Inl e
      | AssertionFailed m \<Rightarrow> Inl e
      | BadRetryAfter m \<Rightarrow> Inl e
      | BadToolSchema m \<Rightarrow> Inl e)"

definition call_tool ::
    "validator \<Rightarrow> invoker \<Rightarrow> string \<Rightarrow> jobj option \<Rightarrow> principal option \<Rightarrow> (exec_error + tool_result) \<times> event list" where
  "call_tool validate portal name arguments who =
     (case map_of (ts_by_name (iv_toolset portal)) name of
        None \<Rightarrow> (Inr (error_result (''unknown tool '' @ str_repr name)), [])
      | Some op \<Rightarrow>
          let args = (case arguments of None \<Rightarrow> [] | Some a \<Rightarrow> a)
          in case validate args (op_input_schema op) of
               SchemaInvalid m \<Rightarrow> (Inl (BadToolSchema m), [])
             | Invalid path message \<Rightarrow> (Inr (error_result (validation_message name (path, message))), [])
             | Valid \<Rightarrow>
                 let effective = (case who of Some p \<Rightarrow> p | None \<Rightarrow> iv_principal portal);
                     decision = evaluate (iv_policy portal) op (pi_details effective)
                 in if \<not> pd_allowed decision
                    then (Inr (error_result (denial_message name decision)), [])
                    else case map_of (iv_transports portal) (op_upstream op) of
                        None \<Rightarrow> (Inr (error_result (''no transport configured for upstream '' @ str_repr (op_upstream op))), [])
                      | Some execute \<Rightarrow>
                          (case execute op args (pd_carry decision) (pi_subject_token effective) (pi_expires_at effective) of
                             (Inl e, evs) \<Rightarrow> (handle_exec_error name op e, evs)
                           | (Inr response, evs) \<Rightarrow>
                               (Inr \<lparr>tl_text = tr_text response,
                                     tl_is_error = (\<not> (200 \<le> tr_status response \<and> tr_status response < 300))\<rparr>, evs)))"

definition routed_execute :: "transport \<Rightarrow> transport \<Rightarrow> transport" where
  "routed_execute http graphql op args carry token expires =
     (case op_binding op of
        GraphQl _ \<Rightarrow> graphql op args carry token expires
      | Http _ \<Rightarrow> http op args carry token expires)"

end
