(* ===== verification/UrlParts.thy ===== *)
theory UrlParts
  imports PyStr
begin

text \<open>
  \<open>urllib.parse.urlsplit\<close> as far as the source reads its result: the scheme and the network location,
  and of that the host name and the port. \<open>None\<close> is the \<open>ValueError\<close> of a malformed location; the check of what
  stands between brackets (an IPv6 literal) is the argument \<open>bracket_ok\<close>.
\<close>

definition is_control_or_space :: "char \<Rightarrow> bool" where
  "is_control_or_space c = (code c \<le> 32)"

definition is_scheme_char :: "char \<Rightarrow> bool" where
  "is_scheme_char c = (is_lower_ascii c \<or> is_upper_ascii c \<or> is_digit_ascii c \<or> c \<in> set ''+-.'')"

definition clean_url :: "string \<Rightarrow> string" where
  "clean_url s =
     filter (\<lambda>c. code c \<notin> {9, 10, 13}) (dropWhile is_control_or_space s)"

definition split_scheme :: "string \<Rightarrow> string \<times> string" where
  "split_scheme url =
     (let name = before_char (CHR '':'') url
      in if CHR '':'' \<in> set url \<and> name \<noteq> [] \<and> (is_lower_ascii (hd url) \<or> is_upper_ascii (hd url))
            \<and> list_all is_scheme_char name
         then (str_lower name, after_char (CHR '':'') url)
         else ([], url))"

definition netloc_of :: "string \<Rightarrow> string" where
  "netloc_of rest =
     (if starts_with ''//'' rest then takeWhile (\<lambda>c. c \<notin> set ''/?#'') (drop 2 rest) else [])"

definition urlsplit :: "(string \<Rightarrow> bool) \<Rightarrow> string \<Rightarrow> (string \<times> string) option" where
  "urlsplit bracket_ok s =
     (let (scheme, rest) = split_scheme (clean_url s); netloc = netloc_of rest;
          open_b = CHR ''['' \<in> set netloc; close_b = CHR '']'' \<in> set netloc
      in if open_b \<noteq> close_b then None
         else if open_b \<and> \<not> bracket_ok netloc then None
         else Some (scheme, netloc))"

text \<open>\<open>SplitResult.hostname\<close> and \<open>.port\<close>.\<close>

definition host_info :: "string \<Rightarrow> string \<times> string" where
  "host_info netloc =
     (let hostinfo = after_last_char (CHR ''@'') netloc
      in if CHR ''['' \<in> set hostinfo
         then let bracketed = after_char (CHR ''['') hostinfo
              in (before_char (CHR '']'') bracketed, after_char (CHR '':'') (after_char (CHR '']'') bracketed))
         else (before_char (CHR '':'') hostinfo, after_char (CHR '':'') hostinfo))"

definition url_hostname :: "string \<Rightarrow> string option" where
  "url_hostname netloc =
     (let host = fst (host_info netloc)
      in if host = [] then None
         else Some (str_lower (before_char (CHR ''%'') host) @ dropWhile (\<lambda>c. c \<noteq> CHR ''%'') host))"

definition url_port :: "string \<Rightarrow> nat option option" where
  "url_port netloc =
     (let port = snd (host_info netloc)
      in if port = [] then Some None
         else if \<not> list_all is_digit_ascii port then None
         else (case dec_digits 0 port of
                 None \<Rightarrow> None
               | Some n \<Rightarrow> if n \<le> 65535 then Some (Some n) else None))"

section \<open>Facts\<close>

lemma is_scheme_char_simps [simp]:
  "\<not> is_scheme_char (CHR ''/'')" "\<not> is_scheme_char (CHR '':'')" "\<not> is_scheme_char (CHR ''#'')"
  by (simp_all add: is_scheme_char_def is_lower_ascii_def is_upper_ascii_def is_digit_ascii_def)

text \<open>What \<open>fetch_text\<close> takes for a URL has a scheme in the eyes of \<open>urlsplit\<close>.\<close>

lemma http_prefix_scheme:
  assumes "starts_with ''http://'' s \<or> starts_with ''https://'' s"
  shows "fst (split_scheme (clean_url s)) \<noteq> []"
proof -
  obtain t where "s = ''http://'' @ t \<or> s = ''https://'' @ t" using assms by (auto simp: starts_with_iff)
  then show ?thesis
    by (auto simp: clean_url_def split_scheme_def before_char_def after_char_def is_control_or_space_def is_lower_ascii_def
        is_scheme_char_def str_lower_def Let_def)
qed

end
