(* ===== verification/Refs.thy ===== *)
theory Refs
  imports UrlParts PyJson
begin

text \<open>
  \<open>$ref\<close> resolution (\<open>sources/refs.py\<close>). A document is known by where it came from: \<open>None\<close> is the entry
  document, \<open>Some target\<close> a fetched one (\<open>id(root)\<close> in the code: the cache keeps one object per target).
  The fetcher is an argument; \<open>Inl\<close> is the \<open>OpenApiError\<close> it raises, and \<open>rs_fetched\<close> records its calls, failed ones
  included. \<open>fuel\<close> bounds the depth of references inside references; running out of it is \<open>TooDeep\<close>,
  Python's \<open>RecursionError\<close>; \<open>NotAnObject\<close> is the assertion at the end of \<open>resolve\<close>. \<open>resolve_returns\<close> shows how much is enough.
\<close>

datatype openapi_error =
    CannotFetch string string
  | OutsideBaseDir string
  | CannotRead string string
  | InvalidYaml string
  | InvalidJson string
  | NotAMapping
  | MissingOpenapiField
  | NoServers
  | ServerNotObject
  | NoDefault string
  | PathsNotObject

datatype ref_error =
    UnsupportedPointer string
  | Unresolvable string
  | ExternalDisabled string
  | HostNotAllowed string string
  | NoFetcher string
  | FetchFailed openapi_error
  | BadUrl string
  | TooDeep
  | NotAnObject

type_synonym doc_id = "string option"
type_synonym doc = "doc_id \<times> jobj"
type_synonym ref_key = "doc_id \<times> string"

record ref_config =
  rc_allow_external :: bool
  rc_allowed_hosts :: "string list"
  rc_fetch :: "(string \<Rightarrow> openapi_error + jobj) option"
  rc_bracket_ok :: "string \<Rightarrow> bool"

record ref_state =
  rs_external :: "(string, jobj) pydict"
  rs_resolved :: "(ref_key, json) pydict"
  rs_warnings :: "string list"
  rs_fetched :: "string list"

section \<open>Pointers\<close>

definition split_ref :: "string \<Rightarrow> string \<times> string" where
  "split_ref ref =
     (let pointer = after_char (CHR ''#'') ref
      in (before_char (CHR ''#'') ref, if pointer \<noteq> [] then CHR ''#'' # pointer else []))"

definition unescape :: "string \<Rightarrow> string" where
  "unescape raw = str_replace ''~0'' ''~'' (str_replace ''~1'' ''/'' raw)"

text \<open>\<open>vs[i]\<close>: a negative index counts from the end.\<close>

definition list_index :: "json list \<Rightarrow> int \<Rightarrow> json option" where
  "list_index vs i =
     (if 0 \<le> i \<and> i < int (length vs) then Some (vs ! nat i)
      else if i < 0 \<and> - int (length vs) \<le> i then Some (vs ! nat (int (length vs) + i))
      else None)"

fun child :: "json \<Rightarrow> string \<Rightarrow> json option" where
  "child (JList vs) key = (case py_int_str key of None \<Rightarrow> None | Some i \<Rightarrow> list_index vs i)"
| "child (JObj d) key = map_of d key"
| "child _ key = None"

fun descend :: "json \<Rightarrow> string list \<Rightarrow> json option" where
  "descend node [] = Some node"
| "descend node (raw # raws) =
     (case child node (unescape raw) of None \<Rightarrow> None | Some node' \<Rightarrow> descend node' raws)"

definition pointer_lookup :: "jobj \<Rightarrow> string \<Rightarrow> ref_error + json" where
  "pointer_lookup document pointer =
     (if pointer \<in> {[], ''#''} then Inr (JObj document)
      else if \<not> starts_with ''#/'' pointer then Inl (UnsupportedPointer pointer)
      else case descend (JObj document) (split_char (CHR ''/'') (drop 2 pointer)) of
             None \<Rightarrow> Inl (Unresolvable pointer)
           | Some node \<Rightarrow> Inr node)"

section \<open>External documents\<close>

definition external_allowed :: "ref_config \<Rightarrow> string \<Rightarrow> ref_error + unit" where
  "external_allowed c target =
     (if \<not> rc_allow_external c then Inl (ExternalDisabled target)
      else case urlsplit (rc_bracket_ok c) target of
             None \<Rightarrow> Inl (BadUrl target)
           | Some (scheme, host) \<Rightarrow>
               if scheme \<noteq> [] \<and> host \<notin> set (rc_allowed_hosts c) then Inl (HostNotAllowed target host)
               else Inr ())"

definition external_document :: "ref_config \<Rightarrow> string \<Rightarrow> ref_state \<Rightarrow> (ref_error + jobj) \<times> ref_state" where
  "external_document c target st =
     (case external_allowed c target of
        Inl e \<Rightarrow> (Inl e, st)
      | Inr _ \<Rightarrow>
          (case map_of (rs_external st) target of
             Some d \<Rightarrow> (Inr d, st)
           | None \<Rightarrow>
               (case rc_fetch c of
                  None \<Rightarrow> (Inl (NoFetcher target), st)
                | Some fetch \<Rightarrow>
                    let st' = st\<lparr>rs_fetched := rs_fetched st @ [target]\<rparr>
                    in (case fetch target of
                          Inl msg \<Rightarrow> (Inl (FetchFailed msg), st')
                        | Inr d \<Rightarrow> (Inr d, st'\<lparr>rs_external := AList.update target d (rs_external st)\<rparr>)))))"

section \<open>The walk\<close>

definition new_root :: "ref_config \<Rightarrow> string \<Rightarrow> doc \<Rightarrow> ref_state \<Rightarrow> (ref_error + doc) \<times> ref_state" where
  "new_root c target doc st =
     (if target \<noteq> [] then bind_st (external_document c target st) (\<lambda>d st'. (Inr (Some target, d), st'))
      else (Inr doc, st))"

definition ref_target :: "ref_config \<Rightarrow> string \<Rightarrow> doc \<Rightarrow> ref_state \<Rightarrow> (ref_error + doc \<times> json) \<times> ref_state" where
  "ref_target c ref doc st =
     (let (target, pointer) = split_ref ref
      in bind_st (new_root c target doc st) (\<lambda>doc' st'.
         (case pointer_lookup (snd doc') (if pointer \<noteq> [] then pointer else ''#'') of
            Inl e \<Rightarrow> (Inl e, st')
          | Inr node \<Rightarrow> (Inr (doc', node), st'))))"

fun string_of :: "json option \<Rightarrow> string option" where
  "string_of (Some (JStr s)) = Some s"
| "string_of _ = None"

definition ref_of :: "jobj \<Rightarrow> string option" where
  "ref_of d = string_of (map_of d ''$ref'')"

definition open_object :: json where
  "open_object = JObj [(''type'', JStr ''object'')]"

function (sequential) walk :: "ref_config \<Rightarrow> nat \<Rightarrow> json \<Rightarrow> ref_key list \<Rightarrow> doc \<Rightarrow> ref_state \<Rightarrow> (ref_error + json) \<times> ref_state"
  and walk_list :: "ref_config \<Rightarrow> nat \<Rightarrow> json list \<Rightarrow> ref_key list \<Rightarrow> doc \<Rightarrow> ref_state \<Rightarrow> (ref_error + json list) \<times> ref_state"
  and walk_fields :: "ref_config \<Rightarrow> nat \<Rightarrow> (string \<times> json) list \<Rightarrow> ref_key list \<Rightarrow> doc \<Rightarrow> ref_state \<Rightarrow> (ref_error + jobj) \<times> ref_state"
where
  "walk c fuel (JObj d) chain doc st =
     (case ref_of d of
        Some ref \<Rightarrow>
          (if (fst doc, ref) \<in> set chain then (Inr open_object, st\<lparr>rs_warnings := rs_warnings st @ [ref]\<rparr>)
           else case map_of (rs_resolved st) (fst doc, ref) of
               Some v \<Rightarrow> (Inr v, st)
             | None \<Rightarrow>
                 (case fuel of
                    0 \<Rightarrow> (Inl TooDeep, st)
                  | Suc fuel' \<Rightarrow>
                      bind_st (ref_target c ref doc st) (\<lambda>(doc', node) st1.
                      bind_st (walk c fuel' node (chain @ [(fst doc, ref)]) doc' st1) (\<lambda>v st2.
                      (Inr v, st2\<lparr>rs_resolved := AList.update (fst doc, ref) v (rs_resolved st2)\<rparr>)))))
      | None \<Rightarrow> bind_st (walk_fields c fuel d chain doc st) (\<lambda>kvs st'. (Inr (JObj kvs), st')))"
| "walk c fuel (JList vs) chain doc st =
     bind_st (walk_list c fuel vs chain doc st) (\<lambda>ws st'. (Inr (JList ws), st'))"
| "walk c fuel JNull chain doc st = (Inr JNull, st)"
| "walk c fuel (JBool b) chain doc st = (Inr (JBool b), st)"
| "walk c fuel (JInt i) chain doc st = (Inr (JInt i), st)"
| "walk c fuel (JFloat q s) chain doc st = (Inr (JFloat q s), st)"
| "walk c fuel (JStr s) chain doc st = (Inr (JStr s), st)"
| "walk_list c fuel [] chain doc st = (Inr [], st)"
| "walk_list c fuel (v # vs) chain doc st =
     bind_st (walk c fuel v chain doc st) (\<lambda>w st1.
     bind_st (walk_list c fuel vs chain doc st1) (\<lambda>ws st2. (Inr (w # ws), st2)))"
| "walk_fields c fuel [] chain doc st = (Inr [], st)"
| "walk_fields c fuel ((k, v) # kvs) chain doc st =
     bind_st (walk c fuel v chain doc st) (\<lambda>w st1.
     bind_st (walk_fields c fuel kvs chain doc st1) (\<lambda>ws st2. (Inr ((k, w) # ws), st2)))"
  by pat_completeness auto
termination
  by (relation "measures [case_sum (\<lambda>(c, fuel, v, r). fuel) (case_sum (\<lambda>(c, fuel, vs, r). fuel) (\<lambda>(c, fuel, kvs, r). fuel)),
                          case_sum (\<lambda>(c, fuel, v, r). size v)
                            (case_sum (\<lambda>(c, fuel, vs, r). size_list size vs) (\<lambda>(c, fuel, kvs, r). size_list (size_prod (\<lambda>_. 0) size) kvs))]")
    auto

definition empty_refs :: ref_state where
  "empty_refs = \<lparr>rs_external = [], rs_resolved = [], rs_warnings = [], rs_fetched = []\<rparr>"

definition resolve :: "ref_config \<Rightarrow> nat \<Rightarrow> jobj \<Rightarrow> (ref_error + jobj) \<times> ref_state" where
  "resolve c fuel document =
     bind_st (walk c fuel (JObj document) [] (None, document) empty_refs) (\<lambda>v st.
     (case v of JObj d \<Rightarrow> (Inr d, st) | _ \<Rightarrow> (Inl NotAnObject, st)))"

section \<open>Facts about every run\<close>

declare walk.simps(1) [simp del]

lemma external_document_state:
  "external_document c target st = (r, st') \<Longrightarrow>
     rs_warnings st' = rs_warnings st \<and> rs_resolved st' = rs_resolved st
     \<and> (rs_fetched st' = rs_fetched st \<or> rs_fetched st' = rs_fetched st @ [target] \<and> external_allowed c target = Inr ())"
  by (auto simp: external_document_def Let_def split: sum.splits option.splits)

lemma bind_st_error_state: "bind_st m f = (r, t) \<Longrightarrow> (\<And>x s. snd (f x s) = s) \<Longrightarrow> t = snd m"
  by (cases m; cases "fst m") (auto simp: bind_st_def dest: arg_cong [where f = snd])

lemma ref_target_root:
  assumes "ref_target c ref doc st = (r, st')"
  shows "st' = snd (new_root c (fst (split_ref ref)) doc st)"
proof -
  have "bind_st (new_root c (fst (split_ref ref)) doc st) (\<lambda>doc' st'.
         (case pointer_lookup (snd doc') (if snd (split_ref ref) \<noteq> [] then snd (split_ref ref) else ''#'') of
            Inl e \<Rightarrow> (Inl e, st')
          | Inr node \<Rightarrow> (Inr (doc', node), st'))) = (r, st')"
    using assms by (simp add: ref_target_def case_prod_beta)
  then show ?thesis by (rule bind_st_error_state) (simp split: sum.splits)
qed

lemma ref_target_state:
  assumes "ref_target c ref doc st = (r, st')"
  shows "rs_warnings st' = rs_warnings st" "rs_resolved st' = rs_resolved st"
    and "rs_fetched st' = rs_fetched st
           \<or> rs_fetched st' = rs_fetched st @ [fst (split_ref ref)] \<and> external_allowed c (fst (split_ref ref)) = Inr ()"
proof -
  obtain d st1 where e: "external_document c (fst (split_ref ref)) st = (d, st1)" by fastforce
  have "st' = st \<or> st' = st1"
    using ref_target_root [OF assms] e by (cases d) (auto simp: new_root_def)
  then show "rs_warnings st' = rs_warnings st" "rs_resolved st' = rs_resolved st"
    and "rs_fetched st' = rs_fetched st
           \<or> rs_fetched st' = rs_fetched st @ [fst (split_ref ref)] \<and> external_allowed c (fst (split_ref ref)) = Inr ()"
    using external_document_state [OF e] by auto
qed

lemma walk_ref_cases:
  assumes "walk c fuel (JObj d) chain doc st = (r, st')" "ref_of d = Some ref"
  obtains (circular) "(fst doc, ref) \<in> set chain" "r = Inr open_object" "st' = st\<lparr>rs_warnings := rs_warnings st @ [ref]\<rparr>"
  | (memo) v where "(fst doc, ref) \<notin> set chain" "map_of (rs_resolved st) (fst doc, ref) = Some v" "r = Inr v" "st' = st"
  | (deep) "(fst doc, ref) \<notin> set chain" "fuel = 0" "r = Inl TooDeep" "st' = st"
  | (target) e where "ref_target c ref doc st = (Inl e, st')" "r = Inl e"
  | (down) fuel' doc' node st1 r1 st2 where "fuel = Suc fuel'" "(fst doc, ref) \<notin> set chain"
      "map_of (rs_resolved st) (fst doc, ref) = None" "ref_target c ref doc st = (Inr (doc', node), st1)"
      "walk c fuel' node (chain @ [(fst doc, ref)]) doc' st1 = (r1, st2)"
      "r = r1" "st' = (case r1 of Inl e \<Rightarrow> st2 | Inr v \<Rightarrow> st2\<lparr>rs_resolved := AList.update (fst doc, ref) v (rs_resolved st2)\<rparr>)"
proof -
  note unfold = assms(1) [unfolded walk.simps(1) assms(2) option.case]
  show thesis
  proof (cases "(fst doc, ref) \<in> set chain")
    case True
    show thesis by (rule circular [OF True]) (use unfold True in simp_all)
  next
    case False
    note rest = unfold [unfolded if_not_P [OF False]]
    show thesis
    proof (cases "map_of (rs_resolved st) (fst doc, ref)")
      case (Some v)
      show thesis by (rule memo [OF False Some]) (use rest Some in simp_all)
    next
      case None
      note rest2 = rest [unfolded None option.case]
      show thesis
      proof (cases fuel)
        case 0
        show thesis by (rule deep [OF False 0]) (use rest2 0 in simp_all)
      next
        case (Suc fuel')
        obtain t st1 where t: "ref_target c ref doc st = (t, st1)" by fastforce
        show thesis
        proof (cases t)
          case (Inl e)
          show thesis by (rule target [of e]) (use rest2 Suc t Inl in simp_all)
        next
          case (Inr p)
          obtain doc' node where p: "p = (doc', node)" by (cases p)
          obtain r1 st2 where w: "walk c fuel' node (chain @ [(fst doc, ref)]) doc' st1 = (r1, st2)" by fastforce
          have "(r, st') = (r1, case r1 of Inl e \<Rightarrow> st2 | Inr v \<Rightarrow> st2\<lparr>rs_resolved := AList.update (fst doc, ref) v (rs_resolved st2)\<rparr>)"
            using rest2 [symmetric] Suc t Inr p w by (cases r1) simp_all
          moreover have "ref_target c ref doc st = (Inr (doc', node), st1)" using t Inr p by simp
          ultimately show thesis using down [OF Suc False None _ w] by blast
        qed
      qed
    qed
  qed
qed

text \<open>What every step on the state keeps, the walk keeps.\<close>

lemma walk_keeps:
  assumes "\<And>ref doc s. I s \<Longrightarrow> I (snd (ref_target c ref doc s))"
    and "\<And>s ref. I s \<Longrightarrow> I (s\<lparr>rs_warnings := rs_warnings s @ [ref]\<rparr>)"
    and "\<And>s k v. I s \<Longrightarrow> I (s\<lparr>rs_resolved := AList.update k v (rs_resolved s)\<rparr>)"
  shows "I st \<Longrightarrow> I (snd (walk c fuel v chain doc st))"
    and "I st \<Longrightarrow> I (snd (walk_list c fuel vs chain doc st))"
    and "I st \<Longrightarrow> I (snd (walk_fields c fuel kvs chain doc st))"
  using assms
proof (induction c fuel v chain doc st and c fuel vs chain doc st and c fuel kvs chain doc st
    rule: walk_walk_list_walk_fields.induct)
  case (1 c fuel d chain doc st)
  note target = "1.prems"(2) and warn = "1.prems"(3) and memo = "1.prems"(4)
  obtain r st' where w: "walk c fuel (JObj d) chain doc st = (r, st')" by fastforce
  show ?case
  proof (cases "ref_of d")
    case None
    have "I (snd (walk_fields c fuel d chain doc st))" using "1.IH"(1) [OF None "1.prems"(1)] "1.prems"(2-) by blast
    then show ?thesis using None by (auto simp: walk.simps(1) bind_st_def split: prod.splits sum.splits)
  next
    case (Some ref)
    from w Some show ?thesis
    proof (cases rule: walk_ref_cases)
      case circular
      then show ?thesis using w warn "1.prems"(1) by simp
    next
      case (target e)
      then show ?thesis using w "1.prems"(2) [OF "1.prems"(1), of ref doc] by simp
    next
      case (down fuel' doc' node st1 r1 st2)
      have "I st1" using target [OF "1.prems"(1), of ref doc] down(4) by simp
      then have "I (snd (walk c fuel' node (chain @ [(fst doc, ref)]) doc' st1))"
        using "1.IH"(2) [OF Some down(2,3,1,4) refl] "1.prems"(2-) by blast
      then show ?thesis using w down memo by (simp split: sum.splits)
    qed (use w "1.prems" in simp_all)
  qed
next
  case (2 c fuel vs chain doc st)
  then show ?case by (auto simp: bind_st_def split: prod.splits sum.splits)
next
  case (9 c fuel v vs chain doc st)
  have "I (snd (walk c fuel v chain doc st))" using 9 by blast
  then show ?case using "9.IH"(2) "9.prems"(2-) by (auto simp: bind_st_def split: prod.splits sum.splits)
next
  case (11 c fuel k v kvs chain doc st)
  have "I (snd (walk c fuel v chain doc st))" using 11 by blast
  then show ?case using "11.IH"(2) "11.prems"(2-) by (auto simp: bind_st_def split: prod.splits sum.splits)
qed simp_all

text \<open>Only targets that pass the check are ever handed to the fetcher, and none of them twice.\<close>

lemma fetched_allowed:
  assumes "\<forall>t \<in> set (rs_fetched st). external_allowed c t = Inr ()"
  shows "\<forall>t \<in> set (rs_fetched (snd (walk c fuel v chain doc st))). external_allowed c t = Inr ()"
proof -
  have "\<forall>t \<in> set (rs_fetched (snd (ref_target c ref doc s))). external_allowed c t = Inr ()"
    if "\<forall>t \<in> set (rs_fetched s). external_allowed c t = Inr ()" for ref doc s
  proof -
    obtain r s' where "ref_target c ref doc s = (r, s')" by fastforce
    then show ?thesis using ref_target_state(3) [of c ref doc s r s'] that by auto
  qed
  then show ?thesis using assms
    by (intro walk_keeps(1) [where I = "\<lambda>s. \<forall>t \<in> set (rs_fetched s). external_allowed c t = Inr ()"]) simp_all
qed

section \<open>How deep the references go\<close>

fun refs_in :: "json \<Rightarrow> string set" where
  "refs_in (JObj d) = set_option (ref_of d) \<union> (\<Union>p \<in> set d. refs_in (snd p))"
| "refs_in (JList vs) = (\<Union>v \<in> set vs. refs_in v)"
| "refs_in _ = {}"

lemma finite_refs_in [simp]: "finite (refs_in v)"
  by (induction v rule: refs_in.induct) auto

text \<open>The documents a run can meet: the entry document and what the fetcher answers.\<close>

definition content :: "ref_config \<Rightarrow> jobj \<Rightarrow> doc_id \<Rightarrow> jobj option" where
  "content c document d =
     (case d of None \<Rightarrow> Some document
      | Some t \<Rightarrow> (case rc_fetch c of None \<Rightarrow> None | Some fetch \<Rightarrow> (case fetch t of Inl _ \<Rightarrow> None | Inr e \<Rightarrow> Some e)))"

definition doc_refs :: "ref_config \<Rightarrow> jobj \<Rightarrow> doc_id \<Rightarrow> string set" where
  "doc_refs c document d = (case content c document d of None \<Rightarrow> {} | Some e \<Rightarrow> refs_in (JObj e))"

definition covers_docs :: "ref_config \<Rightarrow> jobj \<Rightarrow> doc_id set \<Rightarrow> bool" where
  "covers_docs c document D \<longleftrightarrow>
     None \<in> D
     \<and> (\<forall>d \<in> D. \<forall>ref \<in> doc_refs c document d.
           fst (split_ref ref) \<noteq> [] \<and> external_allowed c (fst (split_ref ref)) = Inr () \<longrightarrow> Some (fst (split_ref ref)) \<in> D)"

definition all_keys :: "ref_config \<Rightarrow> jobj \<Rightarrow> doc_id set \<Rightarrow> ref_key set" where
  "all_keys c document D = Sigma D (doc_refs c document)"

definition sound_external :: "ref_config \<Rightarrow> ref_state \<Rightarrow> bool" where
  "sound_external c st \<longleftrightarrow> (\<forall>t d. map_of (rs_external st) t = Some d \<longrightarrow> content c [] (Some t) = Some d)"

lemma content_Some: "content c document (Some t) = content c [] (Some t)"
  by (simp add: content_def)

lemma refs_in_child: "child node key = Some v \<Longrightarrow> refs_in v \<subseteq> refs_in node"
proof (induction node key rule: child.induct)
  case (1 vs key)
  then have "v \<in> set vs" by (auto simp: list_index_def split: option.splits if_splits intro!: nth_mem)
  then show ?case by auto
next
  case (2 d key)
  then have "(key, v) \<in> set d" by (auto dest: map_of_SomeD)
  then show ?case by fastforce
qed simp_all

lemma refs_in_descend: "descend node keys = Some v \<Longrightarrow> refs_in v \<subseteq> refs_in node"
proof (induction node keys rule: descend.induct)
  case (2 node raw raws)
  then show ?case using refs_in_child [of node "unescape raw"] by (fastforce split: option.splits)
qed simp

lemma refs_in_pointer:
  assumes "pointer_lookup e pointer = Inr node"
  shows "refs_in node \<subseteq> refs_in (JObj e)"
proof -
  have "node = JObj e \<or> descend (JObj e) (split_char (CHR ''/'') (drop 2 pointer)) = Some node"
    using assms by (auto simp: pointer_lookup_def split: if_splits option.splits)
  then show ?thesis using refs_in_descend by blast
qed

lemma external_allowed_TooDeep [simp]: "external_allowed c t \<noteq> Inl TooDeep"
  by (simp add: external_allowed_def split: option.splits)

lemma external_document_cases:
  assumes "external_document c target st = (r, st')"
  obtains (error) e where "r = Inl e" "e \<noteq> TooDeep" "rs_external st' = rs_external st"
  | (known) d where "r = Inr d" "map_of (rs_external st) target = Some d" "st' = st" "external_allowed c target = Inr ()"
  | (new) d where "r = Inr d" "content c [] (Some target) = Some d"
      "rs_external st' = AList.update target d (rs_external st)" "external_allowed c target = Inr ()"
  using assms external_allowed_TooDeep [of c target]
  by (cases "external_allowed c target") (auto simp: external_document_def Let_def content_def split: option.splits sum.splits)

lemma external_document_content:
  assumes "external_document c target st = (r, st')" "sound_external c st"
  shows "sound_external c st' \<and> r \<noteq> Inl TooDeep
         \<and> (\<forall>d. r = Inr d \<longrightarrow> content c [] (Some target) = Some d \<and> external_allowed c target = Inr ())"
  using assms(1)
proof (cases rule: external_document_cases)
  case known
  then show ?thesis using assms(2) by (auto simp: sound_external_def)
next
  case new
  then show ?thesis using assms(2) by (auto simp: sound_external_def update_conv')
next
  case error
  then show ?thesis using assms(2) by (auto simp: sound_external_def)
qed

definition in_docs :: "ref_config \<Rightarrow> jobj \<Rightarrow> doc_id set \<Rightarrow> doc \<Rightarrow> json \<Rightarrow> bool" where
  "in_docs c document D doc v \<longleftrightarrow>
     fst doc \<in> D \<and> content c document (fst doc) = Some (snd doc) \<and> refs_in v \<subseteq> doc_refs c document (fst doc)"

lemma ref_target_docs:
  assumes t: "ref_target c ref doc st = (r, st')" and sound: "sound_external c st"
    and D: "covers_docs c document D" and doc: "in_docs c document D doc v" "ref \<in> refs_in v"
  shows "sound_external c st' \<and> r \<noteq> Inl TooDeep \<and> (\<forall>doc' node. r = Inr (doc', node) \<longrightarrow> in_docs c document D doc' node)"
proof -
  define target where "target = fst (split_ref ref)"
  obtain d st1 where n: "new_root c target doc st = (d, st1)" by fastforce
  have st1: "st' = st1" using ref_target_root [OF t] n by (simp add: target_def)
  have d: "sound_external c st1 \<and> d \<noteq> Inl TooDeep \<and> (\<forall>doc'. d = Inr doc' \<longrightarrow> fst doc' \<in> D \<and> content c document (fst doc') = Some (snd doc'))"
  proof (cases "target = []")
    case True
    then have "d = Inr doc" "st1 = st" using n by (simp_all add: new_root_def)
    then show ?thesis using sound doc(1) by (auto simp: in_docs_def)
  next
    case False
    obtain e st2 where e: "external_document c target st = (e, st2)" by fastforce
    have "Some target \<in> D" if "external_allowed c target = Inr ()"
      using D doc that False unfolding covers_docs_def in_docs_def target_def by blast
    moreover have "d = (case e of Inl x \<Rightarrow> Inl x | Inr f \<Rightarrow> Inr (Some target, f))" "st1 = st2"
      using n e False by (cases e; simp add: new_root_def)+
    ultimately show ?thesis
      using external_document_content [OF e sound] by (cases e) (simp_all add: content_Some [of c document])
  qed
  show ?thesis
  proof (cases d)
    case (Inl x)
    then have "r = Inl x" using t n unfolding ref_target_def target_def by (simp add: case_prod_beta)
    then show ?thesis using d Inl st1 by simp
  next
    case (Inr doc')
    define pointer where "pointer = (if snd (split_ref ref) \<noteq> [] then snd (split_ref ref) else ''#'')"
    have r: "r = (case pointer_lookup (snd doc') pointer of Inl e \<Rightarrow> Inl e | Inr node \<Rightarrow> Inr (doc', node))"
      using t n Inr unfolding ref_target_def target_def pointer_def by (auto simp: case_prod_beta split: sum.splits)
    have "pointer_lookup (snd doc') pointer \<noteq> Inl TooDeep"
      by (simp add: pointer_lookup_def split: option.splits)
    moreover have "in_docs c document D doc' node" if "pointer_lookup (snd doc') pointer = Inr node" for node
      using d Inr refs_in_pointer [OF that] by (auto simp: in_docs_def doc_refs_def)
    ultimately show ?thesis using d st1 r by (auto split: sum.splits)
  qed
qed

lemma ref_target_sound: "sound_external c s \<Longrightarrow> sound_external c (snd (ref_target c ref doc s))"
proof -
  assume s: "sound_external c s"
  obtain r s' where t: "ref_target c ref doc s = (r, s')" by fastforce
  obtain d s1 where e: "external_document c (fst (split_ref ref)) s = (d, s1)" by fastforce
  have "s' = s \<or> s' = s1" using ref_target_root [OF t] e by (cases d) (auto simp: new_root_def)
  then show ?thesis using s t external_document_content [OF e s] by auto
qed

lemma walk_sound:
  assumes "sound_external c st"
  shows "sound_external c (snd (walk c fuel v chain doc st))"
proof (rule walk_keeps(1) [where I = "sound_external c"])
  show "sound_external c (snd (ref_target c ref doc s))" if "sound_external c s" for ref doc s
    using that by (rule ref_target_sound)
qed (use assms in \<open>simp_all add: sound_external_def\<close>)

lemma in_docs_parts:
  "in_docs c document D doc (JObj d) \<Longrightarrow> p \<in> set d \<Longrightarrow> in_docs c document D doc (snd p)"
  "in_docs c document D doc (JList vs) \<Longrightarrow> v \<in> set vs \<Longrightarrow> in_docs c document D doc v"
  by (auto simp: in_docs_def)

lemma walk_returns_aux:
  assumes "covers_docs c document D" "finite D"
  shows "in_docs c document D doc v \<Longrightarrow> sound_external c st \<Longrightarrow> distinct chain \<Longrightarrow> set chain \<subseteq> all_keys c document D
           \<Longrightarrow> card (all_keys c document D) \<le> fuel + length chain \<Longrightarrow> fst (walk c fuel v chain doc st) \<noteq> Inl TooDeep"
    and "(\<And>v. v \<in> set vs \<Longrightarrow> in_docs c document D doc v) \<Longrightarrow> sound_external c st \<Longrightarrow> distinct chain \<Longrightarrow> set chain \<subseteq> all_keys c document D
           \<Longrightarrow> card (all_keys c document D) \<le> fuel + length chain \<Longrightarrow> fst (walk_list c fuel vs chain doc st) \<noteq> Inl TooDeep"
    and "(\<And>p. p \<in> set kvs \<Longrightarrow> in_docs c document D doc (snd p)) \<Longrightarrow> sound_external c st \<Longrightarrow> distinct chain \<Longrightarrow> set chain \<subseteq> all_keys c document D
           \<Longrightarrow> card (all_keys c document D) \<le> fuel + length chain \<Longrightarrow> fst (walk_fields c fuel kvs chain doc st) \<noteq> Inl TooDeep"
  using assms
proof (induction c fuel v chain doc st and c fuel vs chain doc st and c fuel kvs chain doc st
    rule: walk_walk_list_walk_fields.induct)
  case (1 c fuel d chain doc st)
  have fin: "finite (all_keys c document D)"
    using \<open>finite D\<close> by (auto simp: all_keys_def doc_refs_def split: option.splits)
  show ?case
  proof (cases "ref_of d")
    case None
    have "fst (walk_fields c fuel d chain doc st) \<noteq> Inl TooDeep"
      by (rule "1.IH"(1) [OF None]) (use "1.prems" in_docs_parts(1) in auto)
    then show ?thesis using None by (auto simp: walk.simps(1) bind_st_def split: prod.splits sum.splits)
  next
    case (Some ref)
    have key: "(fst doc, ref) \<in> all_keys c document D"
      using "1.prems"(1) Some by (auto simp: in_docs_def all_keys_def)
    obtain r st' where w: "walk c fuel (JObj d) chain doc st = (r, st')" by fastforce
    from w Some show ?thesis
    proof (cases rule: walk_ref_cases)
      case deep
      have "set ((fst doc, ref) # chain) \<subseteq> all_keys c document D" using key "1.prems"(4) by simp
      then have "card (set ((fst doc, ref) # chain)) \<le> card (all_keys c document D)" by (rule card_mono [OF fin])
      then have "Suc (length chain) \<le> card (all_keys c document D)"
        using deep(1) distinct_card [OF \<open>distinct chain\<close>] by simp
      then show ?thesis using "1.prems"(5) deep(2) by simp
    next
      case (target e)
      then show ?thesis
        using w ref_target_docs [OF target(1) "1.prems"(2) "1.prems"(6) "1.prems"(1)] Some by simp
    next
      case (down fuel' doc' node st1 r1 st2)
      note t = ref_target_docs [OF down(4) "1.prems"(2) "1.prems"(6) "1.prems"(1)]
      have "fst (walk c fuel' node (chain @ [(fst doc, ref)]) doc' st1) \<noteq> Inl TooDeep"
        by (rule "1.IH"(2) [OF Some down(2,3,1,4) refl]) (use t "1.prems" Some key down(1,2) in auto)
      then show ?thesis using w down by simp
    qed (use w in simp_all)
  qed
next
  case (9 c fuel v vs chain doc st)
  have "fst (walk c fuel v chain doc st) \<noteq> Inl TooDeep" using 9 by simp
  moreover have "fst (walk_list c fuel vs chain doc s) \<noteq> Inl TooDeep" if "walk c fuel v chain doc st = (Inr x, s)" for x s
    by (rule "9.IH"(2) [OF that]) (use "9.prems" walk_sound [OF "9.prems"(2), of fuel v chain doc] that in auto)
  ultimately show ?case by (auto simp: bind_st_def split: prod.splits sum.splits)
next
  case (11 c fuel k v kvs chain doc st)
  have "fst (walk c fuel v chain doc st) \<noteq> Inl TooDeep" using "11.prems"(1) [of "(k, v)"] "11.prems"(2-) "11.IH"(1) by simp
  moreover have "fst (walk_fields c fuel kvs chain doc s) \<noteq> Inl TooDeep" if "walk c fuel v chain doc st = (Inr x, s)" for x s
    by (rule "11.IH"(2) [OF that]) (use "11.prems" walk_sound [OF "11.prems"(2), of fuel v chain doc] that in auto)
  ultimately show ?case by (auto simp: bind_st_def split: prod.splits sum.splits)
next
  case (2 c fuel vs chain doc st)
  have "fst (walk_list c fuel vs chain doc st) \<noteq> Inl TooDeep"
    by (rule "2.IH") (use "2.prems" in_docs_parts(2) in auto)
  then show ?case by (auto simp: bind_st_def split: prod.splits sum.splits)
qed simp_all

section \<open>What the result is\<close>

text \<open>
  The specification, without a cache, a chain or a bound: \<open>expands may_cut c doc v w\<close> says that \<open>w\<close> is \<open>v\<close>, read in
  \<open>doc\<close>, with every reference replaced by the expansion of what it points to; a reference that \<open>may_cut\<close> admits may also be
  replaced by the open object. A reference is circular when following references from it comes back to it.
\<close>

definition points_to :: "ref_config \<Rightarrow> string \<Rightarrow> doc \<Rightarrow> doc \<Rightarrow> json \<Rightarrow> bool" where
  "points_to c ref doc doc' node \<longleftrightarrow>
     (if fst (split_ref ref) = [] then doc' = doc
      else external_allowed c (fst (split_ref ref)) = Inr ()
           \<and> fst doc' = Some (fst (split_ref ref)) \<and> content c [] (fst doc') = Some (snd doc'))
     \<and> pointer_lookup (snd doc') (if snd (split_ref ref) \<noteq> [] then snd (split_ref ref) else ''#'') = Inr node"

fun is_leaf :: "json \<Rightarrow> bool" where
  "is_leaf (JObj _) = False"
| "is_leaf (JList _) = False"
| "is_leaf _ = True"

text \<open>The references a walk of a value meets: an object that is a reference hides what stands beside it.\<close>

fun live_refs :: "json \<Rightarrow> string set" where
  "live_refs (JObj d) = (case ref_of d of Some ref \<Rightarrow> {ref} | None \<Rightarrow> (\<Union>p \<in> set d. live_refs (snd p)))"
| "live_refs (JList vs) = (\<Union>v \<in> set vs. live_refs v)"
| "live_refs _ = {}"

definition leads_to :: "ref_config \<Rightarrow> doc \<times> string \<Rightarrow> doc \<times> string \<Rightarrow> bool" where
  "leads_to c a b \<longleftrightarrow> (\<exists>node. points_to c (snd a) (fst a) (fst b) node \<and> snd b \<in> live_refs node)"

definition circular :: "ref_config \<Rightarrow> doc \<Rightarrow> string \<Rightarrow> bool" where
  "circular c doc ref \<longleftrightarrow> (leads_to c)\<^sup>+\<^sup>+ (doc, ref) (doc, ref)"

type_synonym cuts = "doc \<Rightarrow> string \<Rightarrow> bool"

inductive expands :: "cuts \<Rightarrow> ref_config \<Rightarrow> doc \<Rightarrow> json \<Rightarrow> json \<Rightarrow> bool"
  and expands_list :: "cuts \<Rightarrow> ref_config \<Rightarrow> doc \<Rightarrow> json list \<Rightarrow> json list \<Rightarrow> bool"
  and expands_fields :: "cuts \<Rightarrow> ref_config \<Rightarrow> doc \<Rightarrow> jobj \<Rightarrow> jobj \<Rightarrow> bool"
  for may_cut c
where
  ex_ref: "ref_of d = Some ref \<Longrightarrow> points_to c ref doc doc' node \<Longrightarrow> expands may_cut c doc' node w \<Longrightarrow> expands may_cut c doc (JObj d) w"
| ex_cut: "may_cut doc ref \<Longrightarrow> ref_of d = Some ref \<Longrightarrow> expands may_cut c doc (JObj d) open_object"
| ex_obj: "ref_of d = None \<Longrightarrow> expands_fields may_cut c doc d kvs \<Longrightarrow> expands may_cut c doc (JObj d) (JObj kvs)"
| ex_list: "expands_list may_cut c doc vs ws \<Longrightarrow> expands may_cut c doc (JList vs) (JList ws)"
| ex_leaf: "is_leaf v \<Longrightarrow> expands may_cut c doc v v"
| ex_Nil: "expands_list may_cut c doc [] []"
| ex_Cons: "expands may_cut c doc v w \<Longrightarrow> expands_list may_cut c doc vs ws \<Longrightarrow> expands_list may_cut c doc (v # vs) (w # ws)"
| ex_no_field: "expands_fields may_cut c doc [] []"
| ex_field: "expands may_cut c doc v w \<Longrightarrow> expands_fields may_cut c doc kvs ws \<Longrightarrow> expands_fields may_cut c doc ((k, v) # kvs) ((k, w) # ws)"

definition at_doc :: "ref_config \<Rightarrow> jobj \<Rightarrow> doc \<Rightarrow> bool" where
  "at_doc c document doc \<longleftrightarrow> content c document (fst doc) = Some (snd doc)"

definition sound_memo :: "cuts \<Rightarrow> ref_config \<Rightarrow> jobj \<Rightarrow> ref_state \<Rightarrow> bool" where
  "sound_memo may_cut c document st \<longleftrightarrow>
     (\<forall>doc ref v. map_of (rs_resolved st) (fst doc, ref) = Some v \<and> at_doc c document doc \<longrightarrow>
        (\<exists>doc' node. points_to c ref doc doc' node \<and> expands may_cut c doc' node v))"

lemma ref_target_points:
  assumes t: "ref_target c ref doc st = (Inr (doc', node), st')" and "sound_external c st" "at_doc c document doc"
  shows "points_to c ref doc doc' node \<and> at_doc c document doc'"
proof -
  define target where "target = fst (split_ref ref)"
  define pointer where "pointer = (if snd (split_ref ref) \<noteq> [] then snd (split_ref ref) else ''#'')"
  have "bind_st (new_root c target doc st) (\<lambda>doc' st'.
         (case pointer_lookup (snd doc') pointer of Inl e \<Rightarrow> (Inl e, st') | Inr node \<Rightarrow> (Inr (doc', node), st')))
       = (Inr (doc', node), st')"
    using t by (simp add: ref_target_def target_def pointer_def case_prod_beta)
  then obtain dd s1 where n: "new_root c target doc st = (Inr dd, s1)"
    and l: "(case pointer_lookup (snd dd) pointer of Inl e \<Rightarrow> (Inl e, s1) | Inr node \<Rightarrow> (Inr (dd, node), s1)) = (Inr (doc', node), st')"
    unfolding bind_st_Inr by blast
  have p: "pointer_lookup (snd doc') pointer = Inr node" and d: "dd = doc'"
    using l by (cases "pointer_lookup (snd dd) pointer"; simp)+
  show ?thesis
  proof (cases "target = []")
    case True
    then show ?thesis using n d p assms(3) by (simp add: new_root_def points_to_def target_def pointer_def)
  next
    case False
    obtain e st2 where e: "external_document c target st = (e, st2)" by fastforce
    obtain f where "e = Inr f" "doc' = (Some target, f)" using n d e False by (cases e) (auto simp: new_root_def)
    then show ?thesis
      using external_document_content [OF e assms(2)] p False
      by (simp add: points_to_def target_def pointer_def at_doc_def content_Some [of c document])
  qed
qed

lemma warnings_grow_step:
  assumes "W \<subseteq> set (rs_warnings s)"
  shows "W \<subseteq> set (rs_warnings (snd (ref_target c ref doc s)))"
proof -
  obtain r s' where "ref_target c ref doc s = (r, s')" by fastforce
  then show ?thesis using assms ref_target_state(1) [of c ref doc s r s'] by simp
qed

lemma warnings_grow:
  "set (rs_warnings st) \<subseteq> set (rs_warnings (snd (walk c fuel v chain doc st)))"
  "set (rs_warnings st) \<subseteq> set (rs_warnings (snd (walk_list c fuel vs chain doc st)))"
  "set (rs_warnings st) \<subseteq> set (rs_warnings (snd (walk_fields c fuel kvs chain doc st)))"
proof -
  define I where "I s \<longleftrightarrow> set (rs_warnings st) \<subseteq> set (rs_warnings s)" for s :: ref_state
  have t: "\<And>ref doc s. I s \<Longrightarrow> I (snd (ref_target c ref doc s))" unfolding I_def by (rule warnings_grow_step)
  have w: "\<And>s ref. I s \<Longrightarrow> I (s\<lparr>rs_warnings := rs_warnings s @ [ref]\<rparr>)" by (auto simp: I_def)
  have m: "\<And>s k v. I s \<Longrightarrow> I (s\<lparr>rs_resolved := AList.update k v (rs_resolved s)\<rparr>)" by (simp add: I_def)
  have "I st" by (simp add: I_def)
  note k = walk_keeps [of I, OF t w m this]
  show "set (rs_warnings st) \<subseteq> set (rs_warnings (snd (walk c fuel v chain doc st)))"
    "set (rs_warnings st) \<subseteq> set (rs_warnings (snd (walk_list c fuel vs chain doc st)))"
    "set (rs_warnings st) \<subseteq> set (rs_warnings (snd (walk_fields c fuel kvs chain doc st)))"
    using k(1) [of fuel v chain doc] k(2) [of fuel vs chain doc] k(3) [of fuel kvs chain doc] by (simp_all add: I_def)
qed

text \<open>The walk keeps to the specification, and so does everything it memoizes; references are cut only when it warned.\<close>

definition honest :: "cuts \<Rightarrow> ref_config \<Rightarrow> jobj \<Rightarrow> ref_state \<Rightarrow> bool" where
  "honest may_cut c document st \<longleftrightarrow> sound_external c st \<and> sound_memo may_cut c document st"

lemma honest_target:
  assumes "ref_target c ref doc st = (r, st')" "honest may_cut c document st"
  shows "honest may_cut c document st'"
  using assms ref_target_state(2) [OF assms(1)] ref_target_sound [of c st ref doc] by (simp add: honest_def sound_memo_def)

lemma honest_memo:
  assumes "honest may_cut c document st" "points_to c ref doc doc' node" "expands may_cut c doc' node w" "at_doc c document doc"
  shows "honest may_cut c document (st\<lparr>rs_resolved := AList.update (fst doc, ref) w (rs_resolved st)\<rparr>)"
proof -
  have "doc2 = doc" if "at_doc c document doc2" "fst doc2 = fst doc" for doc2
    using that assms(4) by (auto simp: at_doc_def intro: prod_eqI)
  note same = this
  have "\<exists>doc' node. points_to c ref' doc2 doc' node \<and> expands may_cut c doc' node v"
    if m: "map_of (AList.update (fst doc, ref) w (rs_resolved st)) (fst doc2, ref') = Some v" and "at_doc c document doc2" for doc2 ref' v
  proof (cases "(fst doc2, ref') = (fst doc, ref)")
    case True
    then have "v = w" "doc2 = doc" "ref' = ref" using m that(2) same by (auto simp: update_conv')
    then show ?thesis using assms(2,3) by blast
  next
    case False
    then have "map_of (rs_resolved st) (fst doc2, ref') = Some v" using m by (auto simp: update_conv' split: if_splits)
    then show ?thesis using assms(1) that(2) unfolding honest_def sound_memo_def by blast
  qed
  then show ?thesis using assms(1) by (simp add: honest_def sound_external_def sound_memo_def)
qed

text \<open>Every open reference of the chain leads to each reference still to be met.\<close>

definition chain_leads :: "ref_config \<Rightarrow> jobj \<Rightarrow> ref_key list \<Rightarrow> doc \<Rightarrow> string set \<Rightarrow> bool" where
  "chain_leads c document chain doc refs \<longleftrightarrow>
     (\<forall>origin r ref. at_doc c document origin \<and> (fst origin, r) \<in> set chain \<and> ref \<in> refs \<longrightarrow> (leads_to c)\<^sup>+\<^sup>+ (origin, r) (doc, ref))"

lemma chain_leads_mono: "chain_leads c document chain doc refs \<Longrightarrow> refs' \<subseteq> refs \<Longrightarrow> chain_leads c document chain doc refs'"
  unfolding chain_leads_def by blast

lemma chain_leads_circular:
  "chain_leads c document chain doc {ref} \<Longrightarrow> at_doc c document doc \<Longrightarrow> (fst doc, ref) \<in> set chain \<Longrightarrow> circular c doc ref"
  unfolding chain_leads_def circular_def by blast

lemma chain_leads_down:
  assumes "chain_leads c document chain doc {ref}" "points_to c ref doc doc' node" "at_doc c document doc"
  shows "chain_leads c document (chain @ [(fst doc, ref)]) doc' (live_refs node)"
  unfolding chain_leads_def
proof (intro allI impI, elim conjE)
  fix origin r ref'
  assume o: "at_doc c document origin" "(fst origin, r) \<in> set (chain @ [(fst doc, ref)])" "ref' \<in> live_refs node"
  have step: "leads_to c (doc, ref) (doc', ref')" using assms(2) o(3) by (auto simp: leads_to_def)
  show "(leads_to c)\<^sup>+\<^sup>+ (origin, r) (doc', ref')"
  proof (cases "(fst origin, r) \<in> set chain")
    case True
    then have "(leads_to c)\<^sup>+\<^sup>+ (origin, r) (doc, ref)" using assms(1) o(1) unfolding chain_leads_def by blast
    then show ?thesis using step by (rule tranclp.trancl_into_trancl)
  next
    case False
    then have "fst origin = fst doc" "r = ref" using o(2) by auto
    moreover from this have "origin = doc" using o(1) assms(3) by (auto simp: at_doc_def intro: prod_eqI)
    ultimately show ?thesis using step by (simp add: tranclp.r_into_trancl)
  qed
qed

lemma walk_expands:
  assumes "\<And>doc ref. ref \<in> W \<Longrightarrow> circular c doc ref \<Longrightarrow> may_cut doc ref"
  shows "walk c fuel v chain doc st = (Inr w, st') \<Longrightarrow> at_doc c document doc \<Longrightarrow> honest may_cut c document st
           \<Longrightarrow> set (rs_warnings st') \<subseteq> W \<Longrightarrow> chain_leads c document chain doc (live_refs v)
           \<Longrightarrow> expands may_cut c doc v w \<and> honest may_cut c document st'"
    and "walk_list c fuel vs chain doc st = (Inr ws, st') \<Longrightarrow> at_doc c document doc \<Longrightarrow> honest may_cut c document st
           \<Longrightarrow> set (rs_warnings st') \<subseteq> W \<Longrightarrow> chain_leads c document chain doc (live_refs (JList vs))
           \<Longrightarrow> expands_list may_cut c doc vs ws \<and> honest may_cut c document st'"
    and "walk_fields c fuel kvs chain doc st = (Inr ks, st') \<Longrightarrow> at_doc c document doc \<Longrightarrow> honest may_cut c document st
           \<Longrightarrow> set (rs_warnings st') \<subseteq> W \<Longrightarrow> chain_leads c document chain doc (\<Union>p \<in> set kvs. live_refs (snd p))
           \<Longrightarrow> expands_fields may_cut c doc kvs ks \<and> honest may_cut c document st'"
  using assms
proof (induction c fuel v chain doc st and c fuel vs chain doc st and c fuel kvs chain doc st
    arbitrary: w st' and ws st' and ks st' rule: walk_walk_list_walk_fields.induct)
  case (1 c fuel d chain doc st)
  note allowed = "1.prems"(6)
  show ?case
  proof (cases "ref_of d")
    case None
    obtain ks where "walk_fields c fuel d chain doc st = (Inr ks, st')" "w = JObj ks"
      using "1.prems"(1) None by (auto simp: walk.simps(1) bind_st_Inr)
    then show ?thesis using "1.IH"(1) [OF None] "1.prems"(2-) None by (simp add: ex_obj)
  next
    case (Some ref)
    then have leads: "chain_leads c document chain doc {ref}" using "1.prems"(5) by simp
    from "1.prems"(1) Some show ?thesis
    proof (cases rule: walk_ref_cases)
      case circular
      then have "may_cut doc ref" "w = open_object"
        using "1.prems"(4) allowed chain_leads_circular [OF leads "1.prems"(2)] by auto
      then show ?thesis
        using circular(3) Some "1.prems"(3) by (auto simp: honest_def sound_external_def sound_memo_def intro: ex_cut)
    next
      case (memo v)
      then obtain doc' node where "points_to c ref doc doc' node" "expands may_cut c doc' node v"
        using "1.prems"(2,3) unfolding honest_def sound_memo_def by blast
      then show ?thesis using memo(3,4) Some "1.prems"(3) by (auto intro: ex_ref)
    next
      case (down fuel' doc' node st1 r1 st2)
      then have w: "walk c fuel' node (chain @ [(fst doc, ref)]) doc' st1 = (Inr w, st2)"
        and st': "st' = st2\<lparr>rs_resolved := AList.update (fst doc, ref) w (rs_resolved st2)\<rparr>" by auto
      have p: "points_to c ref doc doc' node" "at_doc c document doc'"
        using ref_target_points [OF down(4) _ "1.prems"(2)] "1.prems"(3) by (simp_all add: honest_def)
      have "expands may_cut c doc' node w \<and> honest may_cut c document st2"
        by (rule "1.IH"(2) [OF Some down(2,3,1,4) refl w p(2) honest_target [OF down(4) "1.prems"(3)] _
              chain_leads_down [OF leads p(1) "1.prems"(2)]])
           (use "1.prems"(4) allowed st' in simp_all)
      then show ?thesis using honest_memo [OF _ p(1) _ "1.prems"(2)] st' p(1) Some by (blast intro: ex_ref)
    qed simp_all
  qed
next
  case (2 c fuel vs chain doc st)
  then show ?case by (fastforce simp: bind_st_Inr intro: ex_list)
next
  case (9 c fuel v vs chain doc st)
  then obtain w0 s ws0 where w: "walk c fuel v chain doc st = (Inr w0, s)" "walk_list c fuel vs chain doc s = (Inr ws0, st')"
    "ws = w0 # ws0" by (auto simp: bind_st_Inr)
  have "set (rs_warnings s) \<subseteq> W" using "9.prems"(4) warnings_grow(2) [of s c fuel vs chain doc] w(2) by auto
  moreover have "chain_leads c document chain doc (live_refs v)" "chain_leads c document chain doc (live_refs (JList vs))"
    using "9.prems"(5) by (auto elim: chain_leads_mono)
  ultimately have "expands may_cut c doc v w0 \<and> honest may_cut c document s"
    and "honest may_cut c document s \<Longrightarrow> expands_list may_cut c doc vs ws0 \<and> honest may_cut c document st'"
    using "9.IH"(1) [OF w(1) "9.prems"(2,3)] "9.IH"(2) [OF w(1,2) "9.prems"(2) _ "9.prems"(4)] "9.prems"(6) by blast+
  then show ?case using w(3) by (simp add: ex_Cons)
next
  case (11 c fuel k v kvs chain doc st)
  then obtain w0 s ws0 where w: "walk c fuel v chain doc st = (Inr w0, s)" "walk_fields c fuel kvs chain doc s = (Inr ws0, st')"
    "ks = (k, w0) # ws0" by (auto simp: bind_st_Inr)
  have "set (rs_warnings s) \<subseteq> W" using "11.prems"(4) warnings_grow(3) [of s c fuel kvs chain doc] w(2) by auto
  moreover have "chain_leads c document chain doc (live_refs v)" "chain_leads c document chain doc (\<Union>p \<in> set kvs. live_refs (snd p))"
    using "11.prems"(5) by (auto elim: chain_leads_mono)
  ultimately have "expands may_cut c doc v w0 \<and> honest may_cut c document s"
    and "honest may_cut c document s \<Longrightarrow> expands_fields may_cut c doc kvs ws0 \<and> honest may_cut c document st'"
    using "11.IH"(1) [OF w(1) "11.prems"(2,3)] "11.IH"(2) [OF w(1,2) "11.prems"(2) _ "11.prems"(4)] "11.prems"(6) by blast+
  then show ?case using w(3) by (simp add: ex_field)
qed (auto intro: ex_leaf ex_Nil ex_no_field)

section \<open>Freedom from references\<close>

fun ref_free :: "json \<Rightarrow> bool" where
  "ref_free (JObj d) = (ref_of d = None \<and> (\<forall>p \<in> set d. ref_free (snd p)))"
| "ref_free (JList vs) = (\<forall>v \<in> set vs. ref_free v)"
| "ref_free _ = True"

text \<open>No \<open>$ref\<close> key holds anything but a string.\<close>

fun plain_refs :: "json \<Rightarrow> bool" where
  "plain_refs (JObj d) = ((ref_of d = None \<longrightarrow> ''$ref'' \<notin> fst ` set d) \<and> (\<forall>p \<in> set d. plain_refs (snd p)))"
| "plain_refs (JList vs) = (\<forall>v \<in> set vs. plain_refs v)"
| "plain_refs _ = True"

lemma plain_child: "child node key = Some v \<Longrightarrow> plain_refs node \<Longrightarrow> plain_refs v"
proof (induction node key rule: child.induct)
  case (1 vs key)
  then have "v \<in> set vs" by (auto simp: list_index_def split: option.splits if_splits intro!: nth_mem)
  then show ?case using 1 by simp
next
  case (2 d key)
  then have "(key, v) \<in> set d" by (auto dest: map_of_SomeD)
  then show ?case using 2 by fastforce
qed simp_all

lemma plain_descend: "descend node keys = Some v \<Longrightarrow> plain_refs node \<Longrightarrow> plain_refs v"
  by (induction node keys rule: descend.induct) (auto split: option.splits dest: plain_child)

lemma plain_pointer: "pointer_lookup e pointer = Inr node \<Longrightarrow> plain_refs (JObj e) \<Longrightarrow> plain_refs node"
  using plain_descend by (auto simp: pointer_lookup_def split: if_splits option.splits simp del: plain_refs.simps)

lemma points_to_at_doc: "points_to c ref doc doc' node \<Longrightarrow> at_doc c document doc \<Longrightarrow> at_doc c document doc'"
  by (cases "fst doc'") (auto simp: points_to_def at_doc_def content_Some [of c document] split: if_splits)

lemma ref_of_None_keys: "''$ref'' \<notin> fst ` set d \<Longrightarrow> ref_of d = None"
  by (metis map_of_eq_None_iff ref_of_def string_of.simps(2))

lemma expands_ref_free:
  assumes "\<And>d e. content c document d = Some e \<Longrightarrow> plain_refs (JObj e)"
  shows "expands may_cut c doc v w \<Longrightarrow> at_doc c document doc \<Longrightarrow> plain_refs v \<Longrightarrow> ref_free w"
    and "expands_list may_cut c doc vs ws \<Longrightarrow> at_doc c document doc \<Longrightarrow> \<forall>v \<in> set vs. plain_refs v \<Longrightarrow> \<forall>w \<in> set ws. ref_free w"
    and "expands_fields may_cut c doc kvs ks \<Longrightarrow> at_doc c document doc \<Longrightarrow> \<forall>p \<in> set kvs. plain_refs (snd p)
           \<Longrightarrow> (\<forall>p \<in> set ks. ref_free (snd p)) \<and> map fst ks = map fst kvs"
proof (induction rule: expands_expands_list_expands_fields.inducts)
  case (ex_ref d ref doc doc' node w)
  have to: "points_to c ref doc doc' node" by fact
  have "at_doc c document doc'" by (rule points_to_at_doc [OF to ex_ref.prems(1)])
  moreover have "plain_refs node"
    using assms [of "fst doc'" "snd doc'"] calculation to plain_pointer unfolding at_doc_def points_to_def by blast
  ultimately show ?case by (rule ex_ref.IH)
next
  case (ex_cut doc ref d)
  show ?case by (simp add: open_object_def ref_of_None_keys)
next
  case (ex_obj d doc kvs)
  have k: "(\<forall>p \<in> set kvs. ref_free (snd p)) \<and> map fst kvs = map fst d"
    using ex_obj.IH ex_obj.prems by simp
  moreover have "''$ref'' \<notin> fst ` set d" using ex_obj by simp
  ultimately have "''$ref'' \<notin> fst ` set kvs" by (metis list.set_map)
  then show ?case using k by (simp add: ref_of_None_keys)
next
  case (ex_leaf v doc)
  then show ?case by (cases v) simp_all
qed simp_all

section \<open>Properties\<close>

text \<open>C28. Resolution ends on circular documents: if finitely many documents \<open>D\<close> are reachable, the recursion never goes
  deeper than the number of distinct (document, reference) pairs in them, so with that much depth
  \<open>resolve\<close> never exhausts it. With external references disabled, \<open>D\<close> is the entry document alone.\<close>

theorem resolve_returns:
  assumes "covers_docs c document D" "finite D" "card (all_keys c document D) \<le> fuel"
  shows "fst (resolve c fuel document) \<noteq> Inl TooDeep"
proof -
  have "fst (walk c fuel (JObj document) [] (None, document) empty_refs) \<noteq> Inl TooDeep"
    by (rule walk_returns_aux(1) [OF assms(1,2)])
       (use assms in \<open>simp_all add: in_docs_def covers_docs_def content_def doc_refs_def sound_external_def empty_refs_def\<close>)
  then show ?thesis by (auto simp: resolve_def bind_st_def split: prod.splits sum.splits json.splits)
qed

definition circular_document :: jobj where
  "circular_document =
     [(''a'', JObj [(''b'', JObj [(''$ref'', JStr ''#/c'')])]), (''c'', JObj [(''d'', JObj [(''$ref'', JStr ''#/a'')])])]"

definition offline :: ref_config where
  "offline = \<lparr>rc_allow_external = False, rc_allowed_hosts = [], rc_fetch = None, rc_bracket_ok = (\<lambda>_. True)\<rparr>"

lemma resolve_returns_witness:
  "fst (resolve offline 2 circular_document) \<noteq> Inl TooDeep"
proof (rule resolve_returns [where D = "{None}"])
  show "covers_docs offline circular_document {None}"
    by (simp add: covers_docs_def external_allowed_def offline_def)
  have "doc_refs offline circular_document None = {''#/c'', ''#/a''}"
    by (auto simp: doc_refs_def content_def circular_document_def ref_of_def)
  then have "all_keys offline circular_document {None} = {(None, ''#/c''), (None, ''#/a'')}"
    by (auto simp: all_keys_def)
  then show "card (all_keys offline circular_document {None}) \<le> 2" by simp
qed simp

text \<open>C26. Resolution returns what the references mean: the answer is the document with every reference replaced by the
  expansion of its target, looked up in the document it stands in. Only a reference that is circular - following references
  from it comes back to it - and that a warning names is ever replaced by an open object instead; so without
  warnings the answer is the exact expansion. (Such a reference may be cut also where it is not open, because what the
  cache holds was cut: \<open>cached_cut\<close> below.) When no document has a \<open>$ref\<close> that is not a string, nothing in the answer
  is a reference.\<close>

theorem resolve_expands:
  assumes "resolve c fuel document = (Inr d, st)"
  shows "expands (\<lambda>doc ref. ref \<in> set (rs_warnings st) \<and> circular c doc ref) c (None, document) (JObj document) (JObj d)
         \<and> (rs_warnings st = [] \<longrightarrow> expands (\<lambda>_ _. False) c (None, document) (JObj document) (JObj d))
         \<and> ((\<forall>e \<in> range (content c document). \<forall>f. e = Some f \<longrightarrow> plain_refs (JObj f)) \<longrightarrow> ref_free (JObj d))"
proof -
  let ?cut = "\<lambda>doc ref. ref \<in> set (rs_warnings st) \<and> circular c doc ref"
  have w: "walk c fuel (JObj document) [] (None, document) empty_refs = (Inr (JObj d), st)"
    using assms unfolding resolve_def bind_st_Inr
  proof (elim exE conjE)
    fix v s
    assume "walk c fuel (JObj document) [] (None, document) empty_refs = (Inr v, s)"
      and "(case v of JObj d \<Rightarrow> (Inr d, s) | _ \<Rightarrow> (Inl NotAnObject, s)) = (Inr d, st)"
    then show ?thesis by (cases v) simp_all
  qed
  have at: "at_doc c document (None, document)" by (simp add: at_doc_def content_def)
  have e: "expands ?cut c (None, document) (JObj document) (JObj d)"
    using walk_expands(1) [of "set (rs_warnings st)" c ?cut, OF _ w at]
    by (simp add: honest_def sound_external_def sound_memo_def empty_refs_def chain_leads_def)
  have "expands (\<lambda>_ _. False) c (None, document) (JObj document) (JObj d)" if "rs_warnings st = []"
    using e by (simp add: that)
  moreover have "ref_free (JObj d)" if "\<forall>e \<in> range (content c document). \<forall>f. e = Some f \<longrightarrow> plain_refs (JObj f)"
  proof (rule expands_ref_free(1) [OF _ e at])
    show p: "plain_refs (JObj f)" if "content c document i = Some f" for i f
      using that \<open>\<forall>e \<in> range (content c document). _ e\<close> by (metis rangeI)
    show "plain_refs (JObj document)" by (rule p [of None]) (simp add: content_def)
  qed
  ultimately show ?thesis using e by blast
qed

lemma resolve_expands_witness:
  "\<exists>d st. resolve offline 2 circular_document = (Inr d, st) \<and> rs_warnings st = [''#/c'']
     \<and> expands (\<lambda>doc ref. ref = ''#/c'' \<and> circular offline doc ref) offline (None, circular_document) (JObj circular_document) (JObj d)"
proof -
  define r where "r = resolve offline 2 circular_document"
  have "case r of (Inr d, st) \<Rightarrow> rs_warnings st = [''#/c''] | _ \<Rightarrow> False"
    unfolding r_def by code_simp
  then obtain d st where "resolve offline 2 circular_document = (Inr d, st)" "rs_warnings st = [''#/c'']"
    by (auto simp: r_def split: prod.splits sum.splits)
  then show ?thesis using resolve_expands [of offline 2 circular_document d st] by auto
qed

text \<open>The answer for one reference is kept and used at another place, with the cut that was made inside the first: \<open>q\<close> alone
  resolves to \<open>b\<close> with its \<open>y\<close> expanded once, but after \<open>p\<close> it is \<open>b\<close> with \<open>y\<close> cut.\<close>

definition two_paths :: jobj where
  "two_paths =
     [(''p'', JObj [(''$ref'', JStr ''#/a'')]), (''q'', JObj [(''$ref'', JStr ''#/b'')]),
      (''a'', JObj [(''x'', JObj [(''$ref'', JStr ''#/b'')])]), (''b'', JObj [(''y'', JObj [(''$ref'', JStr ''#/a'')])])]"

lemma cached_cut:
  "map_option (\<lambda>d. map_of d ''q'') (case fst (resolve offline 9 two_paths) of Inr d \<Rightarrow> Some d | Inl _ \<Rightarrow> None)
     = Some (Some (JObj [(''y'', open_object)]))
   \<and> map_option (\<lambda>d. map_of d ''q'') (case fst (resolve offline 9 (drop 1 two_paths)) of Inr d \<Rightarrow> Some d | Inl _ \<Rightarrow> None)
     = Some (Some (JObj [(''y'', JObj [(''x'', open_object)])]))"
  by code_simp

text \<open>A \<open>$ref\<close> whose value is itself an object resolving to a string puts a reference into the result.\<close>

lemma resolve_leaves_reference:
  "fst (resolve offline 5 [(''p'', JObj [(''$ref'', JObj [(''$ref'', JStr ''#/t'')])]), (''t'', JStr ''#/p'')])
     = Inr [(''p'', JObj [(''$ref'', JStr ''#/p'')]), (''t'', JStr ''#/p'')]"
  by code_simp

end
