(* ===== verification/Dialect.thy ===== *)
theory Dialect
  imports PyJson
begin

text \<open>
  From OpenAPI 3.0 schemas to JSON Schema 2020-12 (\<open>sources/dialect.py\<close>). The conversion walks any value; the
  order of the keys is that of the Python dictionary it builds. \<open>Inl ()\<close> is the \<open>TypeError\<close> of sorting a
  \<open>type\<close> that holds anything but strings, which nothing catches.
\<close>

section \<open>Definitions\<close>

definition is_openapi_31 :: "string \<Rightarrow> bool" where
  "is_openapi_31 version = starts_with ''3.1'' version"

fun is_jbool :: "json \<Rightarrow> bool" where
  "is_jbool (JBool _) = True"
| "is_jbool _ = False"

fun json_string :: "json \<Rightarrow> string option" where
  "json_string (JStr s) = Some s"
| "json_string _ = None"

definition widened_type :: "json \<Rightarrow> unit + json" where
  "widened_type base =
     (let types = (case base of JList ts \<Rightarrow> ts | _ \<Rightarrow> [base])
      in if list_all (\<lambda>t. json_string t \<noteq> None) types
         then Inr (JList (map JStr (sorted_set (''null'' # map (\<lambda>t. the (json_string t)) types))))
         else Inl ())"

text \<open>\<open>out[target] = out.pop(source)\<close>\<close>

definition pop_into :: "string \<Rightarrow> string \<Rightarrow> jobj \<Rightarrow> jobj" where
  "pop_into target source out =
     (case map_of out source of
        None \<Rightarrow> out
      | Some v \<Rightarrow> AList.update target v (AList.delete source out))"

definition add_null :: "jobj \<Rightarrow> unit + jobj" where
  "add_null out =
     (case map_of out ''type'' of
        Some base \<Rightarrow> bind_res (widened_type base) (\<lambda>t. Inr (AList.update ''type'' t out))
      | None \<Rightarrow> Inr [(''anyOf'', JList [JObj out, JObj [(''type'', JStr ''null'')]])])"

definition is_true :: "jobj \<Rightarrow> string \<Rightarrow> bool" where
  "is_true d k = (map_of d k = Some (JBool True))"

definition strict_bounds :: "jobj \<Rightarrow> jobj \<Rightarrow> jobj" where
  "strict_bounds schema out =
     (let out' = (if is_true schema ''exclusiveMinimum'' then pop_into ''exclusiveMinimum'' ''minimum'' out else out)
      in if is_true schema ''exclusiveMaximum'' then pop_into ''exclusiveMaximum'' ''maximum'' out' else out')"

definition finish_30 :: "jobj \<Rightarrow> jobj \<Rightarrow> unit + jobj" where
  "finish_30 schema out =
     bind_res (if is_true schema ''nullable'' then add_null out else Inr out) (\<lambda>out'.
     Inr (strict_bounds schema out'))"

definition KEYS_30 :: "string list" where
  "KEYS_30 = [''nullable'', ''exclusiveMinimum'', ''exclusiveMaximum'']"

definition dropped_30 :: "string \<Rightarrow> json \<Rightarrow> bool" where
  "dropped_30 key value = (key \<in> set KEYS_30 \<and> is_jbool value)"

fun convert_30_schema :: "json \<Rightarrow> unit + json"
  and convert_30_list :: "json list \<Rightarrow> unit + json list"
  and convert_30_fields :: "(string \<times> json) list \<Rightarrow> jobj \<Rightarrow> unit + jobj"
where
  "convert_30_schema (JList vs) = bind_res (convert_30_list vs) (\<lambda>ws. Inr (JList ws))"
| "convert_30_schema (JObj schema) =
     bind_res (convert_30_fields schema []) (\<lambda>out. bind_res (finish_30 schema out) (\<lambda>out'. Inr (JObj out')))"
| "convert_30_schema JNull = Inr JNull"
| "convert_30_schema (JBool b) = Inr (JBool b)"
| "convert_30_schema (JInt i) = Inr (JInt i)"
| "convert_30_schema (JFloat q s) = Inr (JFloat q s)"
| "convert_30_schema (JStr s) = Inr (JStr s)"
| "convert_30_list [] = Inr []"
| "convert_30_list (v # vs) =
     bind_res (convert_30_schema v) (\<lambda>w. bind_res (convert_30_list vs) (\<lambda>ws. Inr (w # ws)))"
| "convert_30_fields [] out = Inr out"
| "convert_30_fields ((key, value) # kvs) out =
     (if dropped_30 key value then convert_30_fields kvs out
      else bind_res (convert_30_schema value) (\<lambda>w.
           if key = ''example'' then convert_30_fields kvs (AList.update ''examples'' (JList [w]) out)
           else convert_30_fields kvs (AList.update key w out)))"

section \<open>Documents without 3.0 keywords\<close>

fun plain_31 :: "json \<Rightarrow> bool" where
  "plain_31 (JList vs) = list_all plain_31 vs"
| "plain_31 (JObj d) =
     (distinct (map fst d) \<and> list_all (\<lambda>(k, v). k \<noteq> ''example'' \<and> \<not> dropped_30 k v \<and> plain_31 v) d)"
| "plain_31 _ = True"

lemma update_fresh: "k \<notin> fst ` set d \<Longrightarrow> AList.update k v d = d @ [(k, v)]"
  by (induction d) auto

lemma convert_plain:
  "plain_31 v \<Longrightarrow> convert_30_schema v = Inr v"
  "list_all plain_31 vs \<Longrightarrow> convert_30_list vs = Inr vs"
  "list_all (\<lambda>(k, v). k \<noteq> ''example'' \<and> \<not> dropped_30 k v \<and> plain_31 v) kvs \<Longrightarrow> distinct (map fst (out @ kvs))
     \<Longrightarrow> convert_30_fields kvs out = Inr (out @ kvs)"
proof (induction v and vs and kvs out rule: convert_30_schema_convert_30_list_convert_30_fields.induct)
  case (2 schema)
  have "\<not> is_true schema k" if "k \<in> {''nullable'', ''exclusiveMinimum'', ''exclusiveMaximum''}" for k
    using "2.prems" that by (auto simp: is_true_def dropped_30_def KEYS_30_def list_all_iff dest!: map_of_SomeD)
  then show ?case using "2" by (simp add: finish_30_def strict_bounds_def)
next
  case (11 key val kvs out)
  then show ?case by (auto simp: update_fresh)
qed simp_all

section \<open>What the keywords mean\<close>

text \<open>
  A validator for the keywords the two dialects spell differently, written from the two standards: in 3.0 a bound is
  made strict by a boolean next to it and \<open>nullable\<close> admits \<open>null\<close>; in 2020-12 a strict bound is a number of its own
  and \<open>null\<close> is a type or a branch of an \<open>anyOf\<close>.
\<close>

fun number_of :: "json \<Rightarrow> rat option" where
  "number_of (JInt i) = Some (of_int i)"
| "number_of (JFloat q s) = Some q"
| "number_of _ = None"

fun has_type :: "string \<Rightarrow> json \<Rightarrow> bool" where
  "has_type t JNull = (t = ''null'')"
| "has_type t (JBool b) = (t = ''boolean'')"
| "has_type t (JInt i) = (t = ''integer'' \<or> t = ''number'')"
| "has_type t (JFloat q s) = (t = ''number'' \<or> t = ''integer'' \<and> q \<in> \<int>)"
| "has_type t (JStr s) = (t = ''string'')"
| "has_type t (JList vs) = (t = ''array'')"
| "has_type t (JObj d) = (t = ''object'')"

fun type_admits :: "json \<Rightarrow> json \<Rightarrow> bool" where
  "type_admits (JStr t) v = has_type t v"
| "type_admits (JList ts) v = list_ex (\<lambda>t. case json_string t of Some s \<Rightarrow> has_type s v | None \<Rightarrow> False) ts"
| "type_admits _ v = True"

definition bound_ok :: "(rat \<Rightarrow> rat \<Rightarrow> bool) \<Rightarrow> json option \<Rightarrow> json \<Rightarrow> bool" where
  "bound_ok R bound v =
     (case (map_option number_of bound, number_of v) of
        (Some (Some b), Some x) \<Rightarrow> R b x
      | _ \<Rightarrow> True)"

definition flat_ok :: "jobj \<Rightarrow> json \<Rightarrow> bool" where
  "flat_ok d v =
     ((case map_of d ''type'' of None \<Rightarrow> True | Some t \<Rightarrow> type_admits t v)
      \<and> bound_ok (\<le>) (map_of d ''minimum'') v \<and> bound_ok (<) (map_of d ''exclusiveMinimum'') v
      \<and> bound_ok (\<ge>) (map_of d ''maximum'') v \<and> bound_ok (>) (map_of d ''exclusiveMaximum'') v)"

definition accepts_31 :: "jobj \<Rightarrow> json \<Rightarrow> bool" where
  "accepts_31 d v =
     (flat_ok d v
      \<and> (case map_of d ''anyOf'' of
           Some (JList bs) \<Rightarrow> list_ex (\<lambda>b. case b of JObj e \<Rightarrow> flat_ok e v | _ \<Rightarrow> False) bs
         | _ \<Rightarrow> True))"

definition accepts_30 :: "jobj \<Rightarrow> json \<Rightarrow> bool" where
  "accepts_30 d v =
     (is_true d ''nullable'' \<and> v = JNull
      \<or> ((case map_of d ''type'' of None \<Rightarrow> True | Some t \<Rightarrow> type_admits t v)
         \<and> bound_ok (if is_true d ''exclusiveMinimum'' then (<) else (\<le>)) (map_of d ''minimum'') v
         \<and> bound_ok (if is_true d ''exclusiveMaximum'' then (>) else (\<ge>)) (map_of d ''maximum'') v))"

text \<open>A leaf schema of 3.0: these keywords only, each with a value of its kind.\<close>

fun leaf_field :: "string \<times> json \<Rightarrow> bool" where
  "leaf_field (k, v) =
     (if k = ''type'' then json_string v \<noteq> None
      else if k \<in> {''minimum'', ''maximum''} then number_of v \<noteq> None
      else k \<in> set KEYS_30 \<and> is_jbool v)"

definition leaf_schema :: "jobj \<Rightarrow> bool" where
  "leaf_schema d = (distinct (map fst d) \<and> list_all leaf_field d)"

lemma leaf_value_unchanged: "leaf_field (k, v) \<Longrightarrow> convert_30_schema v = Inr v \<and> k \<noteq> ''example''"
  by (cases v) (auto simp: KEYS_30_def split: if_splits)

lemma convert_leaf_fields:
  assumes "list_all leaf_field kvs" "distinct (map fst (out @ kvs))"
  shows "convert_30_fields kvs out = Inr (out @ filter (\<lambda>(k, v). \<not> dropped_30 k v) kvs)"
  using assms
proof (induction kvs arbitrary: out)
  case (Cons p kvs)
  obtain k v where p: "p = (k, v)" by (cases p)
  show ?case
  proof (cases "dropped_30 k v")
    case True
    then show ?thesis using Cons p by simp
  next
    case False
    have "AList.update k v out = out @ [(k, v)]" using Cons.prems(2) p by (intro update_fresh) auto
    have h: "convert_30_schema v = Inr v" "k \<noteq> ''example''"
      using Cons.prems(1) p leaf_value_unchanged [of k v] by (simp_all del: leaf_field.simps)
    have "convert_30_fields kvs (out @ [(k, v)]) = Inr (out @ [(k, v)] @ filter (\<lambda>(k, v). \<not> dropped_30 k v) kvs)"
      using Cons.prems Cons.IH [of "out @ [(k, v)]"] p by (simp del: leaf_field.simps)
    then show ?thesis using h p False \<open>AList.update k v out = out @ [(k, v)]\<close> by simp
  qed
qed simp

lemma map_of_filter_leaf:
  assumes "leaf_schema d"
  shows "map_of (filter (\<lambda>(k, v). \<not> dropped_30 k v) d) k =
     (if k \<in> set KEYS_30 then None else map_of d k)"
proof -
  have m: "map_of (filter (\<lambda>(k, v). \<not> dropped_30 k v) d) k =
     (case map_of d k of Some v \<Rightarrow> if \<not> dropped_30 k v then Some v else None | None \<Rightarrow> None)"
    using assms map_of_filter_distinct [of d "\<lambda>(k, v). \<not> dropped_30 k v" k] by (simp add: leaf_schema_def split: option.splits)
  have "leaf_field (k, v)" if "map_of d k = Some v" for v
    using assms that by (auto simp: leaf_schema_def list_all_iff simp del: leaf_field.simps dest: map_of_SomeD)
  then have "dropped_30 k v \<longleftrightarrow> k \<in> set KEYS_30" if "map_of d k = Some v" for v
    using that by (auto simp: dropped_30_def KEYS_30_def split: if_splits)
  then show ?thesis unfolding m by (cases "map_of d k") simp_all
qed

lemma map_of_pop_into:
  "target \<noteq> source \<Longrightarrow> map_of (pop_into target source out) k =
     (if map_of out source = None then map_of out k
      else if k = target then map_of out source
      else if k = source then None else map_of out k)"
  by (auto simp: pop_into_def update_conv' delete_conv' split: option.splits)

lemma has_null_type: "v \<noteq> JNull \<Longrightarrow> \<not> has_type ''null'' v"
  by (cases v) auto

lemma widened_admits:
  assumes "widened_type (JStr t) = Inr w"
  shows "type_admits w v \<longleftrightarrow> v = JNull \<or> type_admits (JStr t) v"
proof -
  have w: "w = JList (map JStr (sorted_set [''null'', t]))" using assms by (simp add: widened_type_def)
  have "set (sorted_set [''null'', t]) = {''null'', t}" by (simp add: sorted_set_def)
  then show ?thesis
    unfolding w by (cases "v = JNull") (auto simp: list_ex_iff has_null_type simp del: set_simps)
qed

lemma leaf_no_anyOf:
  assumes "leaf_schema d"
  shows "map_of d ''anyOf'' = None"
proof (rule ccontr)
  assume "map_of d ''anyOf'' \<noteq> None"
  then obtain v where "(''anyOf'', v) \<in> set d" by (auto dest: map_of_SomeD)
  then have "leaf_field (''anyOf'', v)" using assms by (simp add: leaf_schema_def list_all_iff del: leaf_field.simps)
  then show False by (simp add: KEYS_30_def)
qed

lemma strict_bounds_lookup:
  assumes "map_of out ''exclusiveMinimum'' = None" "map_of out ''exclusiveMaximum'' = None"
  shows "map_of (strict_bounds schema out) ''type'' = map_of out ''type''"
    and "map_of (strict_bounds schema out) ''anyOf'' = map_of out ''anyOf''"
    and "map_of (strict_bounds schema out) ''minimum'' = (if is_true schema ''exclusiveMinimum'' then None else map_of out ''minimum'')"
    and "map_of (strict_bounds schema out) ''maximum'' = (if is_true schema ''exclusiveMaximum'' then None else map_of out ''maximum'')"
    and "map_of (strict_bounds schema out) ''exclusiveMinimum'' = (if is_true schema ''exclusiveMinimum'' then map_of out ''minimum'' else None)"
    and "map_of (strict_bounds schema out) ''exclusiveMaximum'' = (if is_true schema ''exclusiveMaximum'' then map_of out ''maximum'' else None)"
  using assms by (simp_all add: strict_bounds_def Let_def map_of_pop_into)

text \<open>Which values a schema with strictness flags \<open>lo\<close> and \<open>hi\<close> admits, once its bounds have been moved.\<close>

definition admits :: "json option \<Rightarrow> bool \<Rightarrow> json option \<Rightarrow> bool \<Rightarrow> json option \<Rightarrow> json \<Rightarrow> bool" where
  "admits t lo mini hi maxi v =
     ((case t of None \<Rightarrow> True | Some t \<Rightarrow> type_admits t v)
      \<and> bound_ok (if lo then (<) else (\<le>)) mini v \<and> bound_ok (if hi then (>) else (\<ge>)) maxi v)"

lemma bound_ok_None [simp]: "bound_ok R None v"
  by (simp add: bound_ok_def)

lemma bound_ok_JNull [simp]: "bound_ok R b JNull"
  by (simp add: bound_ok_def split: option.splits)

lemma flat_ok_strict_bounds:
  assumes "map_of out ''exclusiveMinimum'' = None" "map_of out ''exclusiveMaximum'' = None"
  shows "flat_ok (strict_bounds schema out) v \<longleftrightarrow>
     admits (map_of out ''type'') (is_true schema ''exclusiveMinimum'') (map_of out ''minimum'')
       (is_true schema ''exclusiveMaximum'') (map_of out ''maximum'') v"
  unfolding flat_ok_def strict_bounds_lookup [OF assms] admits_def by auto

lemma accepts_30_admits:
  "accepts_30 d v \<longleftrightarrow> is_true d ''nullable'' \<and> v = JNull
     \<or> admits (map_of d ''type'') (is_true d ''exclusiveMinimum'') (map_of d ''minimum'')
         (is_true d ''exclusiveMaximum'') (map_of d ''maximum'') v"
  by (simp add: accepts_30_def admits_def)

lemma finish_leaf_type:
  assumes "leaf_schema schema" and "map_of schema ''type'' = Some t"
  shows "\<exists>s. t = JStr s"
proof -
  have "leaf_field (''type'', t)"
    using assms by (auto simp: leaf_schema_def list_all_iff simp del: leaf_field.simps dest!: map_of_SomeD)
  then show ?thesis by (cases t) auto
qed

text \<open>C29. The conversion keeps the meaning of a schema: a leaf schema of OpenAPI 3.0 (\<open>type\<close>, \<open>nullable\<close>, the bounds
  and their strictness flags) always converts, and the result admits, read as JSON Schema 2020-12,
  exactly the values the original admits read as OpenAPI 3.0, unless the schema is
  nullable without a \<open>type\<close> and has a strict bound.\<close>

theorem convert_30_keeps_meaning:
  assumes leaf: "leaf_schema d"
    and scope: "is_true d ''nullable'' \<and> map_of d ''type'' = None \<Longrightarrow>
          \<not> (is_true d ''exclusiveMinimum'' \<and> jhas d ''minimum'') \<and> \<not> (is_true d ''exclusiveMaximum'' \<and> jhas d ''maximum'')"
  shows "\<exists>e. convert_30_schema (JObj d) = Inr (JObj e) \<and> (\<forall>v. accepts_31 e v \<longleftrightarrow> accepts_30 d v)"
proof -
  define out where "out = filter (\<lambda>(k, v). \<not> dropped_30 k v) d"
  have conv: "convert_30_schema (JObj d) = bind_res (finish_30 d out) (\<lambda>e. Inr (JObj e))"
    using convert_leaf_fields [of d "[]"] leaf by (simp add: leaf_schema_def out_def)
  have look: "map_of out k = (if k \<in> set KEYS_30 then None else map_of d k)" for k
    using map_of_filter_leaf [OF leaf, of k] by (simp add: out_def)
  have at: "map_of out ''type'' = map_of d ''type''" "map_of out ''minimum'' = map_of d ''minimum''"
    "map_of out ''maximum'' = map_of d ''maximum''" "map_of out ''exclusiveMinimum'' = None"
    "map_of out ''exclusiveMaximum'' = None" "map_of out ''anyOf'' = None"
    using look leaf_no_anyOf [OF leaf] by (simp_all add: KEYS_30_def)
  show ?thesis
  proof (cases "is_true d ''nullable''")
    case False
    have "accepts_31 (strict_bounds d out) v \<longleftrightarrow> accepts_30 d v" for v
      using False at flat_ok_strict_bounds [of out d v] strict_bounds_lookup(2) [of out d]
      by (simp add: accepts_31_def accepts_30_admits)
    then show ?thesis unfolding conv using False by (simp add: finish_30_def)
  next
    case nullable: True
    show ?thesis
    proof (cases "map_of d ''type''")
      case None
      define any where "any = [(''anyOf'', JList [JObj out, JObj [(''type'', JStr ''null'')]])]"
      have "accepts_31 (strict_bounds d any) v \<longleftrightarrow> flat_ok out v \<or> v = JNull" for v
        using flat_ok_strict_bounds [of any d v] strict_bounds_lookup(2) [of any d]
        by (auto simp: any_def accepts_31_def admits_def flat_ok_def has_null_type split: json.splits)
      moreover have "accepts_30 d v \<longleftrightarrow> flat_ok out v \<or> v = JNull" for v
        using at None nullable scope
        by (cases "map_of d ''minimum''"; cases "map_of d ''maximum''") (auto simp: flat_ok_def accepts_30_admits admits_def jhas_def)
      ultimately show ?thesis
        unfolding conv using nullable at None by (simp add: finish_30_def add_null_def any_def)
    next
      case (Some t)
      then obtain s where t: "t = JStr s" using finish_leaf_type [OF leaf] by blast
      obtain w where w: "widened_type (JStr s) = Inr w" by (simp add: widened_type_def)
      have look: "map_of (AList.update ''type'' w out) k = (if k = ''type'' then Some w else map_of out k)" for k
        by (simp add: update_conv')
      have "accepts_31 (strict_bounds d (AList.update ''type'' w out)) v \<longleftrightarrow> accepts_30 d v" for v
        using at nullable flat_ok_strict_bounds [of "AList.update ''type'' w out" d v]
          strict_bounds_lookup(2) [of "AList.update ''type'' w out" d] widened_admits [OF w, of v] Some t
        by (auto simp: accepts_31_def accepts_30_admits look admits_def)
      then show ?thesis unfolding conv using nullable at Some t w by (simp add: finish_30_def add_null_def)
    qed
  qed
qed

lemma convert_30_keeps_meaning_witness:
  "\<exists>e. convert_30_schema (JObj [(''type'', JStr ''integer''), (''minimum'', JInt 0), (''exclusiveMinimum'', JBool True), (''nullable'', JBool True)]) = Inr (JObj e)
     \<and> accepts_31 e JNull \<and> accepts_31 e (JInt 1) \<and> \<not> accepts_31 e (JInt 0)"
proof -
  let ?d = "[(''type'', JStr ''integer''), (''minimum'', JInt 0), (''exclusiveMinimum'', JBool True), (''nullable'', JBool True)]"
  obtain e where e: "convert_30_schema (JObj ?d) = Inr (JObj e)" "\<forall>v. accepts_31 e v \<longleftrightarrow> accepts_30 ?d v"
    using convert_30_keeps_meaning [of ?d] by (auto simp: leaf_schema_def is_true_def KEYS_30_def)
  have "accepts_30 ?d JNull" "accepts_30 ?d (JInt 1)" "\<not> accepts_30 ?d (JInt 0)"
    by (simp_all add: accepts_30_def is_true_def bound_ok_def)
  then show ?thesis using e by blast
qed

text \<open>The exception is real: without a \<open>type\<close>, the strict bound of a nullable schema is weakened.\<close>

lemma nullable_loses_strict_bound:
  "convert_30_schema (JObj [(''nullable'', JBool True), (''minimum'', JInt 0), (''exclusiveMinimum'', JBool True)])
     = Inr (JObj [(''anyOf'', JList [JObj [(''minimum'', JInt 0)], JObj [(''type'', JStr ''null'')]])])
   \<and> accepts_31 [(''anyOf'', JList [JObj [(''minimum'', JInt 0)], JObj [(''type'', JStr ''null'')]])] (JInt 0)
   \<and> \<not> accepts_30 [(''nullable'', JBool True), (''minimum'', JInt 0), (''exclusiveMinimum'', JBool True)] (JInt 0)"
  by (simp add: dropped_30_def KEYS_30_def finish_30_def is_true_def add_null_def strict_bounds_def pop_into_def
      accepts_31_def accepts_30_def flat_ok_def bound_ok_def)

text \<open>A property that happens to be called \<open>example\<close> is renamed, as if it were the keyword.\<close>

lemma example_property_renamed:
  "convert_30_schema (JObj [(''properties'', JObj [(''example'', JObj [(''type'', JStr ''string'')])])])
     = Inr (JObj [(''properties'', JObj [(''examples'', JList [JObj [(''type'', JStr ''string'')]])])])"
  by (simp add: dropped_30_def KEYS_30_def finish_30_def is_true_def strict_bounds_def)

end
