(* ===== verification/OpenApiDocument.thy ===== *)
theory OpenApiDocument
  imports Loader Refs Dialect
begin

text \<open>
  Fetching, parsing and reading an OpenAPI document (\<open>sources/openapi_document.py\<close>, \<open>load_document\<close> of
  \<open>sources/openapi.py\<close>). The outside is a record of functions: the HTTP client (\<open>Inl\<close>: \<open>httpx.HTTPError\<close>; otherwise the
  content type and the text), the file system (\<open>Inl\<close>: \<open>OSError\<close>), \<open>Path.resolve\<close>, the YAML and JSON
  parsers (\<open>Inl\<close>: their error; every key is a string), and the bracket check of \<open>urlsplit\<close>. \<open>Crash\<close> is an exception
  nobody catches; \<open>IllTyped\<close> marks a value of the wrong type that the code hands on unchecked, where the typed
  model stops.
\<close>

datatype load_error =
    OpenApi openapi_error
  | Ref ref_error
  | Crash string
  | IllTyped string

record outside =
  ou_get :: "string \<Rightarrow> string + string \<times> string"
  ou_read :: "string \<Rightarrow> string + string"
  ou_real :: "string \<Rightarrow> string"
  ou_yaml :: "string \<Rightarrow> string + json"
  ou_json :: "string \<Rightarrow> string + json"
  ou_bracket_ok :: "string \<Rightarrow> bool"

section \<open>Fetching\<close>

text \<open>\<open>Path(p).suffix\<close>: the last part of the path, its leading dots ignored, from its last dot on.\<close>

definition path_name :: "string \<Rightarrow> string" where
  "path_name p =
     (case filter (\<lambda>q. q \<noteq> [] \<and> q \<noteq> ''.'') (split_char (CHR ''/'') p) of [] \<Rightarrow> [] | qs \<Rightarrow> last qs)"

definition path_suffix :: "string \<Rightarrow> string" where
  "path_suffix p =
     (let name = dropWhile (\<lambda>c. c = CHR ''.'') (path_name p)
      in if CHR ''.'' \<in> set name then CHR ''.'' # after_last_char (CHR ''.'') name else [])"

definition YAML_SUFFIXES :: "string list" where
  "YAML_SUFFIXES = [''.yaml'', ''.yml'']"

definition is_relative_to :: "string \<Rightarrow> string \<Rightarrow> bool" where
  "is_relative_to p base = (p = base \<or> starts_with (base @ ''/'') p \<or> base = ''/'')"

fun contains_str :: "string \<Rightarrow> string \<Rightarrow> bool" where
  "contains_str needle [] = (needle = [])"
| "contains_str needle (c # cs) = (starts_with needle (c # cs) \<or> contains_str needle cs)"

text \<open>Where a location leads: a request, a file, or a refusal.\<close>

datatype access = Get string | Read string

definition text_access :: "outside \<Rightarrow> string \<Rightarrow> string \<Rightarrow> bool \<Rightarrow> openapi_error + access" where
  "text_access out location base_dir inside =
     (if starts_with ''http://'' location \<or> starts_with ''https://'' location then Inr (Get location)
      else let resolved = resolve_path base_dir location
           in if inside \<and> \<not> is_relative_to (ou_real out resolved) (ou_real out base_dir)
              then Inl (OutsideBaseDir location)
              else Inr (Read resolved))"

definition fetch_text :: "outside \<Rightarrow> string \<Rightarrow> string \<Rightarrow> bool \<Rightarrow> openapi_error + string \<times> bool" where
  "fetch_text out location base_dir inside =
     (case text_access out location base_dir inside of
        Inl e \<Rightarrow> Inl e
      | Inr (Get url) \<Rightarrow>
          (case ou_get out url of
             Inl msg \<Rightarrow> Inl (CannotFetch url msg)
           | Inr (content_type, text) \<Rightarrow>
               Inr (text, contains_str ''yaml'' content_type \<or> list_ex (\<lambda>s. ends_with s url) YAML_SUFFIXES))
      | Inr (Read path) \<Rightarrow>
          (case ou_read out path of
             Inl msg \<Rightarrow> Inl (CannotRead path msg)
           | Inr text \<Rightarrow> Inr (text, path_suffix path \<in> set YAML_SUFFIXES)))"

definition parse_document :: "outside \<Rightarrow> string \<Rightarrow> bool \<Rightarrow> bool \<Rightarrow> openapi_error + jobj" where
  "parse_document out text is_yaml require_openapi =
     bind_res (if is_yaml then (case ou_yaml out text of Inl msg \<Rightarrow> Inl (InvalidYaml msg) | Inr v \<Rightarrow> Inr v)
               else (case ou_json out text of Inl msg \<Rightarrow> Inl (InvalidJson msg) | Inr v \<Rightarrow> Inr v)) (\<lambda>v.
     (case v of
        JObj d \<Rightarrow> if require_openapi \<and> \<not> jhas d ''openapi'' then Inl MissingOpenapiField else Inr d
      | _ \<Rightarrow> Inl NotAMapping))"

definition fetch_external :: "outside \<Rightarrow> string \<Rightarrow> string \<Rightarrow> openapi_error + jobj" where
  "fetch_external out base_dir target =
     bind_res (fetch_text out target base_dir True) (\<lambda>(text, is_yaml). parse_document out text is_yaml False)"

section \<open>The base URL\<close>

fun fill_variables :: "(string \<times> json) list \<Rightarrow> string \<Rightarrow> load_error + string" where
  "fill_variables [] url = Inr url"
| "fill_variables ((name, spec) # rest) url =
     (case spec of
        JObj s \<Rightarrow>
          (case jget s ''default'' JNull of
             JNull \<Rightarrow> Inl (OpenApi (NoDefault name))
           | dflt \<Rightarrow> fill_variables rest (str_replace (CHR 0x7B # name @ [CHR 0x7D]) (py_str dflt) url))
      | _ \<Rightarrow> Inl (Crash ''AttributeError''))"

definition first_server :: "json \<Rightarrow> load_error + json" where
  "first_server servers =
     (case servers of
        JList (s # _) \<Rightarrow> Inr s
      | JStr (c # _) \<Rightarrow> Inr (JStr [c])
      | JObj _ \<Rightarrow> Inl (Crash ''KeyError'')
      | _ \<Rightarrow> Inl (Crash ''TypeError''))"

definition server_url :: "jobj \<Rightarrow> load_error + string" where
  "server_url server =
     bind_res (case jget server ''variables'' JNull of
                 JObj vs \<Rightarrow> Inr vs
               | v \<Rightarrow> if truthy v then Inl (Crash ''AttributeError'') else Inr []) (\<lambda>vs.
     (case jget server ''url'' (JStr []) of
        JStr url \<Rightarrow> fill_variables vs url
      | _ \<Rightarrow> Inl (IllTyped ''servers[0].url'')))"

definition resolve_base_url :: "jobj \<Rightarrow> string option \<Rightarrow> load_error + string" where
  "resolve_base_url document base_url_override =
     (case base_url_override of
        Some (c # cs) \<Rightarrow> Inr (c # cs)
      | _ \<Rightarrow>
          let servers = jget document ''servers'' JNull
          in if \<not> truthy servers then Inl (OpenApi NoServers)
             else bind_res (first_server servers) (\<lambda>first.
                  case first of JObj server \<Rightarrow> server_url server | _ \<Rightarrow> Inl (OpenApi ServerNotObject)))"

section \<open>Loading\<close>

record loaded_document =
  ld_document :: jobj
  ld_base_url :: string
  ld_warnings :: "string list"

definition ref_config_of :: "outside \<Rightarrow> openapi_introspection \<Rightarrow> string \<Rightarrow> ref_config" where
  "ref_config_of out config base_dir =
     \<lparr>rc_allow_external = oi_allow_external_refs config, rc_allowed_hosts = oi_allowed_hosts config,
      rc_fetch = Some (fetch_external out base_dir), rc_bracket_ok = ou_bracket_ok out\<rparr>"

definition source_location :: "openapi_introspection \<Rightarrow> load_error + string" where
  "source_location config =
     (case (oi_url config, oi_file config) of
        (Some (c # cs), _) \<Rightarrow> Inr (c # cs)
      | (_, Some f) \<Rightarrow> Inr f
      | (Some u, None) \<Rightarrow> Inl (Crash ''AssertionError'')
      | (None, None) \<Rightarrow> Inl (Crash ''AssertionError''))"

definition to_31 :: "jobj \<Rightarrow> load_error + jobj" where
  "to_31 resolved =
     (if is_openapi_31 (py_str (jget resolved ''openapi'' (JStr []))) then Inr resolved
      else (case convert_30_schema (JObj resolved) of
              Inr (JObj d) \<Rightarrow> Inr d
            | _ \<Rightarrow> Inl (Crash ''TypeError'')))"

definition entry_document :: "outside \<Rightarrow> openapi_introspection \<Rightarrow> string \<Rightarrow> load_error + jobj" where
  "entry_document out config base_dir =
     bind_res (source_location config) (\<lambda>location.
     case bind_res (fetch_text out location base_dir False)
            (\<lambda>(text, is_yaml). parse_document out text is_yaml True) of
       Inl e \<Rightarrow> Inl (OpenApi e)
     | Inr raw \<Rightarrow> Inr raw)"

definition load_document ::
    "outside \<Rightarrow> nat \<Rightarrow> openapi_introspection \<Rightarrow> string \<Rightarrow> string option \<Rightarrow> (load_error + loaded_document) \<times> ref_state" where
  "load_document out fuel config base_dir base_url_override =
     (case entry_document out config base_dir of
        Inl e \<Rightarrow> (Inl e, empty_refs)
      | Inr raw \<Rightarrow>
          (case resolve (ref_config_of out config base_dir) fuel raw of
             (Inl e, st) \<Rightarrow> (Inl (Ref e), st)
           | (Inr resolved, st) \<Rightarrow>
               (bind_res (to_31 resolved) (\<lambda>d.
                bind_res (resolve_base_url d base_url_override) (\<lambda>url.
                Inr \<lparr>ld_document = d, ld_base_url = url, ld_warnings = rs_warnings st\<rparr>)), st)))"

section \<open>What a document can make the portal read\<close>

lemma external_allowed_netloc:
  assumes "external_allowed c target = Inr ()" "starts_with ''http://'' target \<or> starts_with ''https://'' target"
  shows "\<exists>scheme host. urlsplit (rc_bracket_ok c) target = Some (scheme, host) \<and> host \<in> set (rc_allowed_hosts c)"
proof -
  obtain scheme host where u: "urlsplit (rc_bracket_ok c) target = Some (scheme, host)"
    and h: "scheme \<noteq> [] \<longrightarrow> host \<in> set (rc_allowed_hosts c)"
    using assms(1) by (auto simp: external_allowed_def split: option.splits if_splits)
  have "scheme = fst (split_scheme (clean_url target))"
    using u by (auto simp: urlsplit_def Let_def split: prod.splits if_splits)
  then show ?thesis using http_prefix_scheme [OF assms(2)] u h by blast
qed

lemma load_document_fetched:
  assumes "load_document out fuel config base_dir override = (r, st)" "t \<in> set (rs_fetched st)"
  shows "external_allowed (ref_config_of out config base_dir) t = Inr ()"
proof -
  have "st = empty_refs \<or> (\<exists>raw. st = snd (resolve (ref_config_of out config base_dir) fuel raw))"
  proof (cases "entry_document out config base_dir")
    case (Inr raw)
    obtain x st' where "resolve (ref_config_of out config base_dir) fuel raw = (x, st')" by fastforce
    then show ?thesis using assms(1) Inr by (cases x) (auto simp: load_document_def intro!: exI [of _ raw])
  qed (use assms(1) in \<open>simp add: load_document_def\<close>)
  moreover have "snd (resolve c n d) = snd (walk c n (JObj d) [] (None, d) empty_refs)" for c n d
    by (auto simp: resolve_def bind_st_def split: prod.splits sum.splits json.splits)
  ultimately show ?thesis
    using assms(2) fetched_allowed [of empty_refs "ref_config_of out config base_dir"] by (auto simp: empty_refs_def)
qed

text \<open>C23. A document cannot make the portal read what the operator did not allow. Every external reference target that
  is fetched while loading a document, whether loading succeeds or fails, was fetched because \<open>allow_external_refs\<close> is
  set; if the fetch is a network request its host is one of \<open>allowed_hosts\<close>, and if it is a file, the
  file lies in the configuration's directory once symbolic links are resolved.\<close>

theorem external_refs_confined:
  assumes "load_document out fuel config base_dir override = (r, st)" and "target \<in> set (rs_fetched st)"
  shows "oi_allow_external_refs config
         \<and> (case text_access out target base_dir True of
              Inr (Get url) \<Rightarrow> \<exists>scheme host. urlsplit (ou_bracket_ok out) url = Some (scheme, host) \<and> host \<in> set (oi_allowed_hosts config)
            | Inr (Read path) \<Rightarrow> is_relative_to (ou_real out path) (ou_real out base_dir)
            | Inl _ \<Rightarrow> fetch_external out base_dir target = Inl (OutsideBaseDir target))"
proof -
  note a = load_document_fetched [OF assms]
  have allow: "oi_allow_external_refs config"
    using a by (auto simp: external_allowed_def ref_config_of_def split: if_splits)
  show ?thesis
  proof (cases "starts_with ''http://'' target \<or> starts_with ''https://'' target")
    case True
    then show ?thesis using external_allowed_netloc [OF a] allow by (simp add: text_access_def ref_config_of_def)
  next
    case False
    then show ?thesis using allow by (auto simp: text_access_def fetch_external_def fetch_text_def Let_def)
  qed
qed

definition sample_outside :: outside where
  "sample_outside =
     \<lparr>ou_get = (\<lambda>_. Inl ''unreachable''),
      ou_read = (\<lambda>p. Inr p), ou_real = (\<lambda>p. p), ou_yaml = (\<lambda>_. Inl ''no''),
      ou_json = (\<lambda>s. if s = ''/etc/portal/api.json''
                     then Inr (JObj [(''openapi'', JStr ''3.1.0''), (''servers'', JList [JObj [(''url'', JStr ''https://api'')]]),
                                     (''x'', JObj [(''$ref'', JStr ''common.json#/a'')])])
                     else Inr (JObj [(''a'', JInt 1)])),
      ou_bracket_ok = (\<lambda>_. True)\<rparr>"

definition sample_introspection :: openapi_introspection where
  "sample_introspection =
     \<lparr>oi_url = None, oi_file = Some ''api.json'', oi_include_deprecated = False, oi_allow_external_refs = True,
      oi_allowed_hosts = [''schemas.internal'']\<rparr>"

lemma external_refs_confined_witness:
  "rs_fetched (snd (load_document sample_outside 3 sample_introspection ''/etc/portal'' None)) = [''common.json'']
   \<and> is_relative_to (ou_real sample_outside ''/etc/portal/common.json'') (ou_real sample_outside ''/etc/portal'')"
proof
  show f: "rs_fetched (snd (load_document sample_outside 3 sample_introspection ''/etc/portal'' None)) = [''common.json'']"
    by code_simp
  obtain r st where l: "load_document sample_outside 3 sample_introspection ''/etc/portal'' None = (r, st)" by fastforce
  have "text_access sample_outside ''common.json'' ''/etc/portal'' True = Inr (Read ''/etc/portal/common.json'')" by code_simp
  then show "is_relative_to (ou_real sample_outside ''/etc/portal/common.json'') (ou_real sample_outside ''/etc/portal'')"
    using external_refs_confined [OF l, of "''common.json''"] f l by simp
qed

end
