(* ===== verification/Classify.thy ===== *)
theory Classify
  imports Operations
begin

text \<open>
  The effect of an operation from its HTTP method or GraphQL operation type (\<open>classify.py\<close>). A
  method or type outside the tables is never exposed as a tool: the lookup raises, which here is
  \<open>Inl\<close> of the refused name.
\<close>

datatype classify_error = UnsupportedMethod string | UnsupportedOperationType string

definition METHOD_EFFECT :: "(string, effect) pydict" where
  "METHOD_EFFECT =
     [(''GET'', READ_ONLY), (''PUT'', IDEMPOTENT_WRITE), (''DELETE'', IDEMPOTENT_WRITE),
      (''POST'', ACTION), (''PATCH'', ACTION)]"

definition EXPOSED_METHODS :: "string list" where
  "EXPOSED_METHODS = map fst METHOD_EFFECT"

definition effect_for_method :: "string \<Rightarrow> classify_error + effect" where
  "effect_for_method method =
     (case map_of METHOD_EFFECT (str_upper method) of
        Some e \<Rightarrow> Inr e
      | None \<Rightarrow> Inl (UnsupportedMethod method))"

definition OPERATION_TYPE_EFFECT :: "(string, effect) pydict" where
  "OPERATION_TYPE_EFFECT = [(''query'', READ_ONLY), (''mutation'', ACTION)]"

definition EXPOSED_GRAPHQL_OPERATION_TYPES :: "string list" where
  "EXPOSED_GRAPHQL_OPERATION_TYPES = map fst OPERATION_TYPE_EFFECT"

definition effect_for_operation_type :: "string \<Rightarrow> classify_error + effect" where
  "effect_for_operation_type operation_type =
     (case map_of OPERATION_TYPE_EFFECT operation_type of
        Some e \<Rightarrow> Inr e
      | None \<Rightarrow> Inl (UnsupportedOperationType operation_type))"

lemma effect_for_method_exposed:
  "effect_for_method m = Inr e \<Longrightarrow> str_upper m \<in> set EXPOSED_METHODS"
  by (auto simp: effect_for_method_def EXPOSED_METHODS_def dest!: map_of_SomeD
      intro: rev_image_eqI split: option.splits)

lemma effect_for_method_read_only:
  "effect_for_method m = Inr READ_ONLY \<longleftrightarrow> str_upper m = ''GET''"
  by (auto simp: effect_for_method_def METHOD_EFFECT_def split: option.splits if_splits)

lemma effect_for_operation_type_Inr:
  "effect_for_operation_type t = Inr e
   \<longleftrightarrow> (t = ''query'' \<and> e = READ_ONLY) \<or> (t = ''mutation'' \<and> e = ACTION)"
  by (auto simp: effect_for_operation_type_def OPERATION_TYPE_EFFECT_def split: option.splits if_splits)

end
