(* ===== verification/Explicit.thy ===== *)
theory Explicit
  imports Loader Classify
begin

text \<open>
  Configured operations (\<open>sources/explicit.py\<close>) and their merge with the introspected ones
  (\<open>sources/merge.py\<close>). The generator of \<open>ExplicitSource.operations\<close> is the list it yields, or the
  first error; its log warnings are left out.
\<close>

section \<open>GraphQL variable types\<close>

definition drop_bang :: "string \<Rightarrow> string" where
  "drop_bang t = (if ends_with ''!'' t then butlast t else t)"

lemma length_strip_le: "length (str_strip t) \<le> length t"
  unfolding str_strip_def str_strip_chars_def str_lstrip_chars_def str_rstrip_chars_def
  by (metis (no_types, lifting) length_dropWhile_le length_rev order_trans)

lemma drop_bang_le: "length (drop_bang t) \<le> length t"
  by (simp add: drop_bang_def)

function json_type_for_graphql_type :: "string \<Rightarrow> jobj" where
  "json_type_for_graphql_type graphql_type =
     (let t = drop_bang (str_strip graphql_type)
      in if starts_with ''['' t \<and> ends_with '']'' t
         then [(''type'', JStr ''array''), (''items'', JObj (json_type_for_graphql_type (butlast (tl t))))]
         else if t = ''Int'' then [(''type'', JStr ''integer'')]
         else if t = ''Float'' then [(''type'', JStr ''number'')]
         else if t = ''Boolean'' then [(''type'', JStr ''boolean'')]
         else [(''type'', JStr ''string'')])"
  by pat_completeness auto
termination
proof (relation "measure length")
  fix graphql_type t
  assume t: "t = drop_bang (str_strip graphql_type)" and b: "starts_with ''['' t \<and> ends_with '']'' t"
  then have "t \<noteq> []" by (auto simp: starts_with_def)
  then have "length (butlast (tl t)) < length t" by (cases t) auto
  also have "\<dots> \<le> length graphql_type"
    using t drop_bang_le length_strip_le order_trans by blast
  finally show "(butlast (tl t), graphql_type) \<in> measure length" by simp
qed simp

declare json_type_for_graphql_type.simps [simp del]

section \<open>Bindings\<close>

definition parameter_of :: "parameter_entry \<Rightarrow> parameter" where
  "parameter_of p =
     \<lparr>p_arg = pe_arg p, p_location = pe_location p, p_wire_name = entry_header p, p_required = pe_required p,
      p_schema = pe_schema p, p_style = pe_style p, p_explode = pe_explode p\<rparr>"

definition http_binding_of :: "http_binding_entry \<Rightarrow> http_binding" where
  "http_binding_of e =
     \<lparr>hb_method = str_upper (he_method e), hb_path = he_path e,
      hb_parameters = map parameter_of (he_parameters e),
      hb_body = map_option (\<lambda>b. \<lparr>b_content_type = be_content_type b, b_schema = be_schema b, b_mode = be_mode b\<rparr>)
                  (he_body e)\<rparr>"

definition graphql_binding_of :: "gql_binding_entry \<Rightarrow> graphql_binding" where
  "graphql_binding_of e =
     \<lparr>gb_operation_type = ge_operation_type e, gb_document = ge_document e,
      gb_variables = map (\<lambda>v. \<lparr>v_name = ve_name v, v_graphql_type = ve_graphql_type v, v_required = ve_required v\<rparr>)
                       (ge_variables e)\<rparr>"

section \<open>Operations\<close>

definition or_text :: "string option \<Rightarrow> string \<Rightarrow> string" where
  "or_text v d = (case v of Some s \<Rightarrow> if s \<noteq> [] then s else d | None \<Rightarrow> d)"

definition entry_operation :: "operation_entry \<Rightarrow> effect \<Rightarrow> jobj \<Rightarrow> binding \<Rightarrow> operation" where
  "entry_operation entry eff schema binding =
     \<lparr>op_id = oe_id entry, op_upstream = oe_upstream entry, op_name = or_text (oe_name entry) [],
      op_title = or_text (oe_title entry) (first_line_or (oe_description entry) (oe_id entry)),
      op_description = oe_description entry, op_group_tags = oe_group_tags entry, op_effect = eff,
      op_sensitivity = (case oe_sensitivity entry of Some s \<Rightarrow> s | None \<Rightarrow> NORMAL),
      op_input_schema = schema, op_binding = binding, op_meta = []\<rparr>"

definition entry_effect :: "operation_entry \<Rightarrow> effect \<Rightarrow> effect" where
  "entry_effect entry derived = (case oe_effect entry of Some e \<Rightarrow> e | None \<Rightarrow> derived)"

definition build_graphql_op :: "operation_entry \<Rightarrow> gql_binding_entry \<Rightarrow> operation option" where
  "build_graphql_op entry be =
     (case effect_for_operation_type (ge_operation_type be) of
        Inl _ \<Rightarrow> None
      | Inr derived \<Rightarrow>
          let binding = graphql_binding_of be;
              properties = dict_of (map (\<lambda>v. (v_name v, JObj (json_type_for_graphql_type (v_graphql_type v)))) (gb_variables binding));
              required = map (\<lambda>v. JStr (v_name v)) (filter v_required (gb_variables binding));
              schema = [(''type'', JStr ''object''), (''properties'', JObj properties), (''required'', JList required)]
          in Some (entry_operation entry (entry_effect entry derived) schema (GraphQl binding)))"

text \<open>Only a \<open>FlattenError\<close> becomes a \<open>ConfigError\<close>; a \<open>TypeError\<close> passes through.\<close>

definition flatten_config_error :: "string \<Rightarrow> flatten_error \<Rightarrow> config_error" where
  "flatten_config_error oid err =
     (case err of NotADict _ \<Rightarrow> Uncaught err | NotIterable _ \<Rightarrow> Uncaught err | _ \<Rightarrow> FlattenFailed oid err)"

definition build_http_op :: "operation_entry \<Rightarrow> http_binding_entry \<Rightarrow> config_error + operation option" where
  "build_http_op entry be =
     (let binding = http_binding_of be
      in case effect_for_method (hb_method binding) of
           Inl _ \<Rightarrow> Inr None
         | Inr derived \<Rightarrow>
             (case bind_res (check_path_template binding) (\<lambda>_.
                   bind_res (resolve_arg_names binding) (\<lambda>resolved.
                   bind_res (build_input_schema binding) (\<lambda>schema. Inr (resolved, schema)))) of
                Inl err \<Rightarrow> Inl (flatten_config_error (oe_id entry) err)
              | Inr (resolved, schema) \<Rightarrow>
                  bind_res (case unsupported_body_keywords (hb_body binding) of
                              Inl err \<Rightarrow> Inl (Uncaught err) | Inr _ \<Rightarrow> Inr ()) (\<lambda>_.
                  Inr (Some (entry_operation entry (entry_effect entry derived) schema (Http resolved))))))"

definition build_entry :: "operation_entry \<Rightarrow> config_error + operation option" where
  "build_entry entry =
     (case oe_binding entry of
        GraphQlEntry be \<Rightarrow> Inr (build_graphql_op entry be)
      | HttpEntry be \<Rightarrow> build_http_op entry be)"

definition explicit_operations :: "portal_config \<Rightarrow> config_error + operation list" where
  "explicit_operations config =
     bind_res (mapM build_entry (pc_operations config)) (\<lambda>ops. Inr (List.map_filter (\<lambda>x. x) ops))"

section \<open>Merging\<close>

definition override_with :: "(string, operation) pydict \<Rightarrow> operation \<Rightarrow> operation" where
  "override_with by_id op = (case map_of by_id (op_id op) of Some e \<Rightarrow> e | None \<Rightarrow> op)"

definition merge_operations :: "operation list \<Rightarrow> operation list \<Rightarrow> config_error + operation list" where
  "merge_operations introspected explicit =
     (let dups = sorted_set (filter (\<lambda>i. count_list (map op_id explicit) i > 1) (map op_id explicit))
      in if dups \<noteq> [] then Inl (NameCollision dups)
         else
           let explicit_by_id = dict_of (map (\<lambda>op. (op_id op, op)) explicit);
               merged = map (override_with explicit_by_id) introspected;
               seen = map op_id introspected
           in Inr (merged @ filter (\<lambda>op. op_id op \<notin> set seen) (map snd explicit_by_id)))"

lemma entry_operation_frame [frame_simps, simp]:
  "op_id (entry_operation e f s b) = oe_id e"
  "op_upstream (entry_operation e f s b) = oe_upstream e"
  "op_input_schema (entry_operation e f s b) = s"
  "op_binding (entry_operation e f s b) = b"
  "op_effect (entry_operation e f s b) = f"
  by (simp_all add: entry_operation_def)

lemma build_http_op_Inr:
  assumes "build_http_op entry be = Inr (Some op)"
  obtains resolved schema derived where
    "effect_for_method (str_upper (he_method be)) = Inr derived"
    "check_path_template (http_binding_of be) = Inr ()"
    "resolve_arg_names (http_binding_of be) = Inr resolved"
    "build_input_schema (http_binding_of be) = Inr schema"
    "op = entry_operation entry (entry_effect entry derived) schema (Http resolved)"
proof -
  obtain derived where d: "effect_for_method (hb_method (http_binding_of be)) = Inr derived"
    using assms by (auto simp: build_http_op_def Let_def split: sum.splits)
  obtain resolved schema where
    rs: "bind_res (check_path_template (http_binding_of be)) (\<lambda>_.
                   bind_res (resolve_arg_names (http_binding_of be)) (\<lambda>resolved.
                   bind_res (build_input_schema (http_binding_of be)) (\<lambda>schema. Inr (resolved, schema)))) = Inr (resolved, schema)"
    and op: "op = entry_operation entry (entry_effect entry derived) schema (Http resolved)"
    using assms d by (auto simp: build_http_op_def Let_def split: sum.splits)
  show thesis
    using that [of derived resolved schema] d rs op by (simp add: http_binding_of_def)
qed

lemma http_binding_of_header:
  "p \<in> set (hb_parameters (http_binding_of be)) \<Longrightarrow>
   \<exists>q \<in> set (he_parameters be). p_location p = pe_location q \<and> p_wire_name p = entry_header q"
  by (auto simp: http_binding_of_def parameter_of_def)

lemma explicit_operations_entry:
  assumes "explicit_operations config = Inr ops" and "op \<in> set ops"
  shows "\<exists>e \<in> set (pc_operations config). build_entry e = Inr (Some op)"
proof -
  obtain rs where "mapM build_entry (pc_operations config) = Inr rs" "op \<in> set (List.map_filter (\<lambda>x. x) rs)"
    using assms by (auto simp: explicit_operations_def)
  then show ?thesis
    by (auto simp: mapM_eq_Inr map_filter_def list_all2_conv_all_nth in_set_conv_nth) (metis nth_mem)
qed

lemma explicit_headers_checked:
  assumes "check_header_denylist config = Inr u" and "explicit_operations config = Inr ops"
  shows "check_operation_headers ops (credential_headers_for config) = Inr ()"
  unfolding check_operation_headers_Inr
proof (intro ballI allI impI)
  fix op b p
  assume op: "op \<in> set ops" and b: "op_binding op = Http b" and p: "p \<in> set (hb_parameters b)" "p_location p = HEADER"
  obtain e where e: "e \<in> set (pc_operations config)" and be: "build_entry e = Inr (Some op)"
    using explicit_operations_entry [OF assms(2) op] by blast
  show "\<not> is_denylisted (p_wire_name p) (credential_headers_for config)"
  proof (cases "oe_binding e")
    case (GraphQlEntry g)
    then show ?thesis
      using be b by (auto simp: build_entry_def build_graphql_op_def Let_def split: sum.splits)
  next
    case (HttpEntry he)
    then have "build_http_op e he = Inr (Some op)" using be by (simp add: build_entry_def)
    then obtain resolved where "resolve_arg_names (http_binding_of he) = Inr resolved" and "b = resolved"
      using b by (auto elim: build_http_op_Inr)
    then obtain c where "hb_parameters b = map (rename_param c) (hb_parameters (http_binding_of he))"
      using resolve_arg_names_params by blast
    then obtain q where "q \<in> set (he_parameters he)" "pe_location q = HEADER" "p_wire_name p = entry_header q"
      using p http_binding_of_header by fastforce
    then show ?thesis
      using assms(1) e HttpEntry by (auto simp: check_header_denylist_def check_entries_Inr)
  qed
qed

section \<open>Facts about the merge\<close>

lemma merge_operations_Inr:
  "merge_operations intro expl = Inr merged \<longleftrightarrow>
     distinct (map op_id expl)
     \<and> merged = map (override_with (map (\<lambda>op. (op_id op, op)) expl)) intro
                @ filter (\<lambda>op. op_id op \<notin> set (map op_id intro)) expl"
proof -
  have d: "sorted_set (filter (\<lambda>i. count_list (map op_id expl) i > 1) (map op_id expl)) = [] \<longleftrightarrow> distinct (map op_id expl)"
    using count_list_le_1_distinct [of "map op_id expl"] by (auto simp: filter_empty_conv not_less)
  show ?thesis
  proof (cases "distinct (map op_id expl)")
    case True
    then have "dict_of (map (\<lambda>op. (op_id op, op)) expl) = map (\<lambda>op. (op_id op, op)) expl"
      by (simp add: dict_of_distinct_id comp_def)
    then show ?thesis using d True by (auto simp: merge_operations_def Let_def comp_def)
  next
    case False
    then show ?thesis using d by (auto simp: merge_operations_def Let_def)
  qed
qed

lemma override_with_by_id:
  assumes "distinct (map op_id expl)"
  shows "op_id op \<in> op_id ` set expl \<Longrightarrow>
           override_with (map (\<lambda>op. (op_id op, op)) expl) op \<in> set expl"
    and "op_id op \<notin> op_id ` set expl \<Longrightarrow> override_with (map (\<lambda>op. (op_id op, op)) expl) op = op"
    and "op_id (override_with (map (\<lambda>op. (op_id op, op)) expl) op) = op_id op"
    and "e \<in> set expl \<Longrightarrow> op_id op = op_id e \<Longrightarrow> override_with (map (\<lambda>op. (op_id op, op)) expl) op = e"
proof -
  have look: "map_of (map (\<lambda>op. (op_id op, op)) expl) i = Some e \<longleftrightarrow> e \<in> set expl \<and> op_id e = i" for i e
    using map_of_eq_Some_iff [of "map (\<lambda>op. (op_id op, op)) expl"] assms by (auto simp: comp_def)
  show new: "override_with (map (\<lambda>op. (op_id op, op)) expl) op = op" if "op_id op \<notin> op_id ` set expl"
  proof -
    have "map_of (map (\<lambda>op. (op_id op, op)) expl) (op_id op) = None"
      using that by (simp add: map_of_eq_None_iff image_image)
    then show ?thesis by (simp add: override_with_def)
  qed
  have old: "override_with (map (\<lambda>op. (op_id op, op)) expl) op = e" if "e \<in> set expl" "op_id op = op_id e" for e
  proof -
    have "map_of (map (\<lambda>op. (op_id op, op)) expl) (op_id op) = Some e"
      unfolding look using that by simp
    then show ?thesis by (simp add: override_with_def)
  qed
  then show "e \<in> set expl \<Longrightarrow> op_id op = op_id e \<Longrightarrow> override_with (map (\<lambda>op. (op_id op, op)) expl) op = e"
    by blast
  show "op_id op \<in> op_id ` set expl \<Longrightarrow> override_with (map (\<lambda>op. (op_id op, op)) expl) op \<in> set expl"
    using old by auto
  show "op_id (override_with (map (\<lambda>op. (op_id op, op)) expl) op) = op_id op"
  proof (cases "op_id op \<in> op_id ` set expl")
    case True
    then obtain e where "e \<in> set expl" "op_id op = op_id e" by auto
    then show ?thesis using old by simp
  qed (simp add: new)
qed

lemma merge_operations_set:
  assumes "distinct (map op_id expl)"
  shows "set (map (override_with (map (\<lambda>op. (op_id op, op)) expl)) intro
              @ filter (\<lambda>op. op_id op \<notin> set (map op_id intro)) expl)
         = set expl \<union> {op \<in> set intro. op_id op \<notin> op_id ` set expl}" (is "?L = ?R")
proof
  note o = override_with_by_id [OF assms]
  show "?L \<subseteq> ?R" using o(1,2) by fastforce
  show "?R \<subseteq> ?L"
  proof
    fix x
    assume "x \<in> ?R"
    then consider "x \<in> set expl" "op_id x \<notin> op_id ` set intro"
      | y where "y \<in> set intro" "op_id y = op_id x" "x \<in> set expl"
      | "x \<in> set intro" "op_id x \<notin> op_id ` set expl"
      by fastforce
    then show "x \<in> ?L" by cases (use o(2,4) in \<open>force+\<close>)
  qed
qed

section \<open>Properties\<close>

definition sample_entry :: operation_entry where
  "sample_entry =
     \<lparr>oe_id = ''get'', oe_upstream = ''u'', oe_description = ''Get it'', oe_title = None, oe_name = None,
      oe_group_tags = [], oe_effect = None, oe_sensitivity = None,
      oe_binding = HttpEntry \<lparr>he_method = ''get'', he_path = ''/c'',
        he_parameters = [\<lparr>pe_arg = ''X-T'', pe_location = HEADER, pe_wire_name = None, pe_required = False,
                          pe_schema = [], pe_style = FORM, pe_explode = True\<rparr>],
        he_body = None\<rparr>\<rparr>"

definition sample_explicit_config :: portal_config where
  "sample_explicit_config = sample_validated\<lparr>pc_operations := [sample_entry]\<rparr>"

definition sample_explicit_binding :: http_binding where
  "sample_explicit_binding =
     \<lparr>hb_method = ''GET'', hb_path = ''/c'',
      hb_parameters = [\<lparr>p_arg = ''X-T'', p_location = HEADER, p_wire_name = ''X-T'', p_required = False,
                        p_schema = [], p_style = FORM, p_explode = True\<rparr>],
      hb_body = None\<rparr>"

definition sample_explicit_op :: operation where
  "sample_explicit_op =
     entry_operation sample_entry READ_ONLY
       [(''type'', JStr ''object''), (''properties'', JObj [(''X-T'', JObj [])])] (Http sample_explicit_binding)"

lemma sample_explicit_denylist: "check_header_denylist sample_explicit_config = Inr ()"
  by code_simp

lemma sample_explicit_ops: "explicit_operations sample_explicit_config = Inr [sample_explicit_op]"
  by code_simp

text \<open>Configured operations are well formed: whatever an entry says, an HTTP operation it yields has a
  path template that matches its parameters one to one, unambiguous argument names, and the input
  schema synthesized from its binding; a method outside the exposed ones yields no operation.\<close>

theorem explicit_well_formed:
  assumes "explicit_operations config = Inr ops" and "op \<in> set ops" and "op_binding op = Http b"
  shows "check_path_template b = Inr () \<and> distinct (map p_arg (hb_parameters b))
         \<and> str_upper (hb_method b) \<in> set EXPOSED_METHODS
         \<and> (\<exists>b0. resolve_arg_names b0 = Inr b \<and> build_input_schema b0 = Inr (op_input_schema op))"
proof -
  obtain e where "e \<in> set (pc_operations config)" and be: "build_entry e = Inr (Some op)"
    using explicit_operations_entry [OF assms(1,2)] by blast
  show ?thesis
  proof (cases "oe_binding e")
    case (GraphQlEntry g)
    then show ?thesis
      using be assms(3) by (auto simp: build_entry_def build_graphql_op_def Let_def split: sum.splits)
  next
    case (HttpEntry he)
    then have "build_http_op e he = Inr (Some op)" using be by (simp add: build_entry_def)
    then show ?thesis
    proof (rule build_http_op_Inr)
      fix resolved schema derived
      assume m: "effect_for_method (str_upper (he_method he)) = Inr derived"
        and t: "check_path_template (http_binding_of he) = Inr ()"
        and r: "resolve_arg_names (http_binding_of he) = Inr resolved"
        and s: "build_input_schema (http_binding_of he) = Inr schema"
        and op: "op = entry_operation e (entry_effect e derived) schema (Http resolved)"
      have b: "b = resolved" using op assms(3) by simp
      have "template_ok resolved"
        using t resolve_keeps_template [OF _ r] by (simp add: check_path_template_iff)
      moreover have "distinct (map p_arg (hb_parameters resolved))"
        using r by (rule resolve_arg_names_Inr)
      moreover have "str_upper (hb_method resolved) \<in> set EXPOSED_METHODS"
        using effect_for_method_exposed [OF m] resolve_arg_names_frame(1) [OF r] by (simp add: http_binding_of_def)
      ultimately show ?thesis using b r s op by (auto simp: check_path_template_iff)
    qed
  qed
qed

theorem explicit_well_formed_witness: "check_path_template sample_explicit_binding = Inr ()"
  using explicit_well_formed [OF sample_explicit_ops, of sample_explicit_op sample_explicit_binding]
  by (simp add: sample_explicit_op_def)

text \<open>Merging: an explicit operation replaces the introspected one of the same id in place, every other
  introspected operation is kept, new explicit ones are appended, and no id is lost or added.\<close>

theorem merge_explicit_wins:
  assumes "merge_operations intro expl = Inr merged"
  shows "set merged = set expl \<union> {op \<in> set intro. op_id op \<notin> op_id ` set expl}
         \<and> set (map op_id merged) = set (map op_id intro) \<union> set (map op_id expl)
         \<and> map op_id (take (length intro) merged) = map op_id intro
         \<and> (distinct (map op_id intro) \<longrightarrow> distinct (map op_id merged))"
proof -
  let ?r = "override_with (map (\<lambda>op. (op_id op, op)) expl)"
  have d: "distinct (map op_id expl)"
    and m: "merged = map ?r intro @ filter (\<lambda>op. op_id op \<notin> set (map op_id intro)) expl"
    using assms by (simp_all add: merge_operations_Inr)
  have ids: "map op_id (map ?r intro) = map op_id intro"
    by (simp add: override_with_by_id(3) [OF d])
  have ids_m: "map op_id merged = map op_id intro @ filter (\<lambda>i. i \<notin> set (map op_id intro)) (map op_id expl)"
    unfolding m map_append ids by (simp add: filter_map comp_def)
  have "set (map op_id merged) = set (map op_id intro) \<union> set (map op_id expl)"
    unfolding ids_m by auto
  moreover have "map op_id (take (length intro) merged) = map op_id intro"
    using ids by (simp add: m)
  moreover have "distinct (map op_id intro) \<longrightarrow> distinct (map op_id merged)"
    unfolding ids_m using d by auto
  ultimately show ?thesis using merge_operations_set [OF d, of intro] m by blast
qed

theorem merge_explicit_wins_witness:
  "set (map op_id [(sample_op ''a'')\<lparr>op_title := ''mine''\<rparr>, sample_op ''b'']) = set (map op_id [sample_op ''a'']) \<union> set (map op_id [sample_op ''b'', (sample_op ''a'')\<lparr>op_title := ''mine''\<rparr>])"
proof -
  have m: "merge_operations [sample_op ''a''] [sample_op ''b'', (sample_op ''a'')\<lparr>op_title := ''mine''\<rparr>]
      = Inr [(sample_op ''a'')\<lparr>op_title := ''mine''\<rparr>, sample_op ''b'']"
    by code_simp
  show ?thesis using merge_explicit_wins [OF m] by blast
qed

end
