(* ===== verification/OpenApi.thy ===== *)
theory OpenApi
  imports OpenApiDocument Explicit Naming
begin

text \<open>
  Operations from an OpenAPI document (\<open>sources/openapi_paths.py\<close>, \<open>sources/openapi.py\<close>). An operation the code
  skips with a warning because something in it is malformed (\<open>KeyError\<close>, \<open>TypeError\<close>, \<open>AttributeError\<close>) is \<open>None\<close>;
  warnings are left out. Values the document gives where a string belongs stay \<open>json\<close> as long as the code does not look
  at them, and become \<open>IllTyped\<close> where the code would build an \<open>Operation\<close> with them.
\<close>

section \<open>Raw operations\<close>

record raw_parameter =
  rp_name :: json
  rp_location :: string
  rp_required :: bool
  rp_schema :: json
  rp_explode :: json

record raw_operation =
  ro_method :: string
  ro_path :: string
  ro_operation_id :: json
  ro_summary :: json
  ro_description :: json
  ro_tags :: "json list"
  ro_parameters :: "raw_parameter list"
  ro_request_body :: "(string \<times> json) option"
  ro_extensions :: jobj

definition PARAM_LOCATIONS :: "string list" where
  "PARAM_LOCATIONS = [''path'', ''query'', ''header'']"

text \<open>\<open>[^a-z0-9]+\<close> replaced by one underscore.\<close>

definition is_slug_char :: "char \<Rightarrow> bool" where
  "is_slug_char c = (is_lower_ascii c \<or> is_digit_ascii c)"

fun sub_slug :: "string \<Rightarrow> string" where
  "sub_slug [] = []"
| "sub_slug (c # cs) =
     (if is_slug_char c then c # sub_slug cs
      else CHR ''_'' # sub_slug (dropWhile (\<lambda>d. \<not> is_slug_char d) cs))"

definition default_operation_id :: "string \<Rightarrow> string \<Rightarrow> string" where
  "default_operation_id method path =
     str_strip_chars (\<lambda>c. c = CHR ''_'') (sub_slug (str_lower (method @ ''_'' @ path)))"

text \<open>The values of a dictionary key: a list or an object is not hashable.\<close>

fun hashable :: "json \<Rightarrow> bool" where
  "hashable (JList _) = False"
| "hashable (JObj _) = False"
| "hashable _ = True"

text \<open>One parameter: \<open>None\<close> is an exception, \<open>Some None\<close> a location that is never exposed.\<close>

definition raw_parameter_of :: "jobj \<Rightarrow> raw_parameter option option" where
  "raw_parameter_of param =
     (case jget param ''in'' JNull of
        JStr location \<Rightarrow>
          if location \<notin> set PARAM_LOCATIONS then Some None
          else (case map_of param ''name'' of
                  None \<Rightarrow> None
                | Some name \<Rightarrow>
                    Some (Some \<lparr>rp_name = name, rp_location = location, rp_required = truthy (jget param ''required'' (JBool False)),
                                rp_schema = jget param ''schema'' (JObj [(''type'', JStr ''string'')]),
                                rp_explode = jget param ''explode'' (JBool True)\<rparr>))
      | _ \<Rightarrow> Some None)"

fun add_by_key :: "json list \<Rightarrow> ((json \<times> json) \<times> jobj) list \<Rightarrow> ((json \<times> json) \<times> jobj) list option" where
  "add_by_key [] by_key = Some by_key"
| "add_by_key (JObj p # ps) by_key =
     (let key = (jget p ''name'' JNull, jget p ''in'' JNull)
      in if hashable (fst key) \<and> hashable (snd key) then add_by_key ps (AList.update key p by_key) else None)"
| "add_by_key (_ # ps) by_key = None"

fun raw_parameters_of :: "jobj list \<Rightarrow> raw_parameter list option" where
  "raw_parameters_of [] = Some []"
| "raw_parameters_of (p # ps) =
     (case raw_parameter_of p of
        None \<Rightarrow> None
      | Some r \<Rightarrow> map_option (\<lambda>rs. (case r of None \<Rightarrow> rs | Some x \<Rightarrow> x # rs)) (raw_parameters_of ps))"

fun iterate :: "json \<Rightarrow> json list option" where
  "iterate (JList vs) = Some vs"
| "iterate (JObj d) = Some (map (\<lambda>(k, _). JStr k) d)"
| "iterate (JStr s) = Some (map (\<lambda>c. JStr [c]) s)"
| "iterate _ = None"

definition merged_parameters :: "json \<Rightarrow> json \<Rightarrow> raw_parameter list option" where
  "merged_parameters shared_params op_params =
     Option.bind (iterate shared_params) (\<lambda>ps.
     Option.bind (add_by_key ps []) (\<lambda>by_key.
     Option.bind (iterate op_params) (\<lambda>os.
     Option.bind (add_by_key os by_key) (\<lambda>by_key'. raw_parameters_of (map snd by_key')))))"

definition request_body_of :: "jobj \<Rightarrow> (string \<times> json) option option" where
  "request_body_of op =
     (let body = jget op ''requestBody'' JNull
      in if \<not> truthy body then Some None
         else case body of
             JObj b \<Rightarrow>
               (let content = jget b ''content'' (JObj [])
                in if \<not> truthy content then Some None
                   else case content of
                       JObj c \<Rightarrow>
                         (let content_type = (if jhas c ''application/json'' then ''application/json'' else fst (hd c))
                          in case jget c content_type JNull of
                               JObj media \<Rightarrow> Some (Some (content_type, jget media ''schema'' (JObj [])))
                             | _ \<Rightarrow> None)
                     | _ \<Rightarrow> None)
           | _ \<Rightarrow> None)"

definition extensions_of :: "jobj \<Rightarrow> jobj" where
  "extensions_of op = filter (\<lambda>(k, _). starts_with ''x-mcp-'' k) op"

definition tags_of :: "jobj \<Rightarrow> json list" where
  "tags_of op = (case jget op ''tags'' (JList []) of JList ts \<Rightarrow> ts | _ \<Rightarrow> [])"

text \<open>One method of a path: \<open>None\<close> is skipped, because it is deprecated or because it is malformed.\<close>

definition raw_operation_of :: "bool \<Rightarrow> string \<Rightarrow> json \<Rightarrow> string \<Rightarrow> json \<Rightarrow> raw_operation option" where
  "raw_operation_of include_deprecated path shared_params method op =
     (case op of
        JObj o' \<Rightarrow>
          if truthy (jget o' ''deprecated'' JNull) \<and> \<not> include_deprecated then None
          else Option.bind (merged_parameters shared_params (jget o' ''parameters'' (JList []))) (\<lambda>params.
               Option.bind (request_body_of o') (\<lambda>body.
               Some \<lparr>ro_method = method, ro_path = path, ro_operation_id = jget o' ''operationId'' JNull,
                     ro_summary = jget o' ''summary'' JNull, ro_description = jget o' ''description'' JNull,
                     ro_tags = tags_of o', ro_parameters = params, ro_request_body = body,
                     ro_extensions = extensions_of o'\<rparr>))
      | _ \<Rightarrow> None)"

definition sorted_items :: "jobj \<Rightarrow> (string \<times> json) list" where
  "sorted_items d = map (\<lambda>k. (k, jget d k JNull)) (sorted_set (map fst d))"

definition path_operations :: "bool \<Rightarrow> string \<times> json \<Rightarrow> raw_operation list" where
  "path_operations include_deprecated entry =
     (case snd entry of
        JObj item \<Rightarrow>
          List.map_filter
            (\<lambda>(method, op). raw_operation_of include_deprecated (fst entry) (jget item ''parameters'' (JList [])) method op)
            (filter (\<lambda>(method, _). str_upper method \<in> set EXPOSED_METHODS) (sorted_items item))
      | _ \<Rightarrow> [])"

definition extract_raw_operations :: "jobj \<Rightarrow> bool \<Rightarrow> load_error + raw_operation list" where
  "extract_raw_operations document include_deprecated =
     (let paths = jget document ''paths'' JNull
      in if \<not> truthy paths then Inr []
         else case paths of
             JObj ps \<Rightarrow> Inr (concat (map (path_operations include_deprecated) (sorted_items ps)))
           | _ \<Rightarrow> Inl (OpenApi PathsNotObject))"

section \<open>Bindings\<close>

definition location_of :: "string \<Rightarrow> param_location" where
  "location_of s = (if s = ''path'' then PATH else if s = ''query'' then QUERY else HEADER)"

fun as_string :: "json \<Rightarrow> string \<Rightarrow> load_error + string" where
  "as_string (JStr s) field = Inr s"
| "as_string _ field = Inl (IllTyped field)"

text \<open>\<open>dict(schema)\<close>, and \<open>schema.get\<close>; a schema that is neither is seen when the tool schema is built.\<close>

fun schema_dict :: "json \<Rightarrow> jobj" where
  "schema_dict (JObj d) = d"
| "schema_dict _ = []"

fun dictable :: "json \<Rightarrow> bool" where
  "dictable (JObj _) = True"
| "dictable (JList []) = True"
| "dictable (JStr []) = True"
| "dictable _ = False"

definition openapi_parameter :: "raw_parameter \<Rightarrow> load_error + parameter" where
  "openapi_parameter p =
     bind_res (as_string (rp_name p) ''parameter name'') (\<lambda>name.
     Inr \<lparr>p_arg = name, p_location = location_of (rp_location p), p_wire_name = name, p_required = rp_required p,
          p_schema = schema_dict (rp_schema p), p_style = FORM, p_explode = truthy (rp_explode p)\<rparr>)"

definition openapi_binding :: "raw_operation \<Rightarrow> load_error + http_binding" where
  "openapi_binding raw =
     bind_res (mapM openapi_parameter (ro_parameters raw)) (\<lambda>params.
     Inr \<lparr>hb_method = str_upper (ro_method raw), hb_path = ro_path raw, hb_parameters = params,
          hb_body = map_option (\<lambda>(ct, schema). \<lparr>b_content_type = ct, b_schema = schema_dict schema, b_mode = FLATTEN\<rparr>)
                      (ro_request_body raw)\<rparr>)"

text \<open>
  The three flattening steps, with the \<open>TypeError\<close> and \<open>AttributeError\<close> a schema that is no object causes in them:
  \<open>Inr None\<close> is the \<open>FlattenError\<close> the operation is dropped for.
\<close>

definition drop_flatten :: "flatten_error + 'a \<Rightarrow> ('a \<Rightarrow> load_error + 'b option) \<Rightarrow> load_error + 'b option" where
  "drop_flatten r f =
     (case r of
        Inl (NotADict v) \<Rightarrow> Inl (Crash ''TypeError'')
      | Inl (NotIterable v) \<Rightarrow> Inl (Crash ''TypeError'')
      | Inl _ \<Rightarrow> Inr None
      | Inr x \<Rightarrow> f x)"

definition flatten_openapi :: "raw_operation \<Rightarrow> http_binding \<Rightarrow> load_error + (http_binding \<times> jobj) option" where
  "flatten_openapi raw binding =
     drop_flatten (check_path_template binding) (\<lambda>_.
     drop_flatten (check_content_type (hb_body binding)) (\<lambda>_.
     if (case ro_request_body raw of None \<Rightarrow> False | Some (_, schema) \<Rightarrow> \<not> is_jobj schema) then Inl (Crash ''AttributeError'')
     else drop_flatten (resolve_arg_names binding) (\<lambda>resolved.
          if list_ex (\<lambda>p. \<not> dictable (rp_schema p)) (ro_parameters raw) then Inl (Crash ''TypeError'')
          else drop_flatten (build_input_schema binding) (\<lambda>schema. Inr (Some (resolved, schema))))))"

section \<open>Operations\<close>

definition name_override :: "raw_operation \<Rightarrow> string" where
  "name_override raw =
     (let name = py_str (py_or (jget (ro_extensions raw) ''x-mcp-name'' JNull) (JStr []))
      in if matches_name_pattern name then name else [])"

definition openapi_operation :: "string \<Rightarrow> raw_operation \<Rightarrow> effect \<Rightarrow> http_binding \<Rightarrow> jobj \<Rightarrow> load_error + operation" where
  "openapi_operation upstream raw eff resolved schema =
     bind_res (as_string (py_or (ro_operation_id raw) (JStr (default_operation_id (ro_method raw) (ro_path raw)))) ''operationId'') (\<lambda>oid.
     bind_res (mapM (\<lambda>t. as_string t ''tags'') (ro_tags raw)) (\<lambda>tags.
     let ext = ro_extensions raw;
         description = py_str (py_or (jget ext ''x-mcp-description'' JNull)
                                (py_or (ro_description raw) (py_or (ro_summary raw) (JStr oid))));
         title = py_str (py_or (jget ext ''x-mcp-title'' JNull)
                          (py_or (ro_summary raw) (JStr (first_line_or description oid))))
     in Inr \<lparr>op_id = oid, op_upstream = upstream, op_name = name_override raw, op_title = title, op_description = description,
             op_group_tags = tags, op_effect = eff,
             op_sensitivity = (if truthy (jget ext ''x-mcp-sensitive'' JNull) then SENSITIVE else NORMAL),
             op_input_schema = schema, op_binding = Http resolved, op_meta = []\<rparr>))"

definition build_openapi :: "string \<Rightarrow> string list \<Rightarrow> raw_operation \<Rightarrow> load_error + operation option" where
  "build_openapi upstream creds raw =
     (if truthy (jget (ro_extensions raw) ''x-mcp-exclude'' JNull) then Inr None
      else bind_res (openapi_binding raw) (\<lambda>binding.
           if list_ex (\<lambda>p. p_location p = HEADER \<and> is_denylisted (p_wire_name p) creds) (hb_parameters binding) then Inr None
           else case effect_for_method (hb_method binding) of
               Inl _ \<Rightarrow> Inr None
             | Inr eff \<Rightarrow>
                 bind_res (flatten_openapi raw binding) (\<lambda>fl.
                 case fl of
                   None \<Rightarrow> Inr None
                 | Some (resolved, schema) \<Rightarrow>
                     bind_res (openapi_operation upstream raw eff resolved schema) (\<lambda>op. Inr (Some op)))))"

definition openapi_operations :: "string \<Rightarrow> loaded_document \<Rightarrow> bool \<Rightarrow> string list \<Rightarrow> load_error + operation list" where
  "openapi_operations upstream loaded include_deprecated creds =
     bind_res (extract_raw_operations (ld_document loaded) include_deprecated) (\<lambda>raws.
     bind_res (mapM (build_openapi upstream creds) raws) (\<lambda>ops. Inr (List.map_filter (\<lambda>x. x) ops)))"

section \<open>What an operation is built from\<close>

lemma drop_flatten_Some: "drop_flatten r f = Inr (Some y) \<longleftrightarrow> (\<exists>x. r = Inr x \<and> f x = Inr (Some y))"
  by (auto simp: drop_flatten_def split: sum.splits flatten_error.splits)

lemma flatten_openapi_Some:
  "flatten_openapi raw b = Inr (Some (resolved, schema)) \<Longrightarrow>
     check_path_template b = Inr () \<and> resolve_arg_names b = Inr resolved \<and> build_input_schema b = Inr schema"
  by (auto simp: flatten_openapi_def drop_flatten_Some split: if_splits)

lemma openapi_operation_Inr:
  "openapi_operation upstream raw eff resolved schema = Inr op \<Longrightarrow>
     op_upstream op = upstream \<and> op_effect op = eff \<and> op_input_schema op = schema \<and> op_binding op = Http resolved
     \<and> op_name op = name_override raw"
  by (auto simp: openapi_operation_def Let_def)

lemma build_openapi_Some:
  assumes "build_openapi upstream creds raw = Inr (Some op)"
  obtains b resolved schema where
    "openapi_binding raw = Inr b"
    "\<forall>p \<in> set (hb_parameters b). p_location p = HEADER \<longrightarrow> \<not> is_denylisted (p_wire_name p) creds"
    "effect_for_method (hb_method b) = Inr (op_effect op)"
    "check_path_template b = Inr ()" "resolve_arg_names b = Inr resolved" "build_input_schema b = Inr schema"
    "op_upstream op = upstream" "op_input_schema op = schema" "op_binding op = Http resolved" "op_name op = name_override raw"
    "\<not> truthy (jget (ro_extensions raw) ''x-mcp-exclude'' JNull)"
proof -
  obtain b where b: "openapi_binding raw = Inr b" and nx: "\<not> truthy (jget (ro_extensions raw) ''x-mcp-exclude'' JNull)"
    using assms by (auto simp: build_openapi_def split: if_splits)
  have h: "\<not> list_ex (\<lambda>p. p_location p = HEADER \<and> is_denylisted (p_wire_name p) creds) (hb_parameters b)"
    using assms b nx by (auto simp: build_openapi_def)
  obtain eff where e: "effect_for_method (hb_method b) = Inr eff"
    using assms b nx h by (cases "effect_for_method (hb_method b)") (simp_all add: build_openapi_def)
  obtain fl where f: "flatten_openapi raw b = Inr fl"
    using assms b nx h e by (auto simp: build_openapi_def)
  obtain resolved schema where fl: "fl = Some (resolved, schema)"
    using assms b nx h e f by (cases fl) (auto simp: build_openapi_def)
  have "openapi_operation upstream raw eff resolved schema = Inr op"
    using assms b nx h e f fl by (auto simp: build_openapi_def)
  then show thesis
    using that [OF b _ _ _ _ _ _ _ _ _ nx] h e flatten_openapi_Some [OF f [unfolded fl]] openapi_operation_Inr [of upstream raw eff resolved schema op]
    by (auto simp: list_ex_iff)
qed

lemma openapi_operations_raw:
  assumes "openapi_operations upstream loaded deprecated creds = Inr ops" "op \<in> set ops"
  shows "\<exists>raw. build_openapi upstream creds raw = Inr (Some op)"
proof -
  obtain raws rs where "mapM (build_openapi upstream creds) raws = Inr rs" "op \<in> set (List.map_filter (\<lambda>x. x) rs)"
    using assms by (auto simp: openapi_operations_def)
  then show ?thesis
    by (auto simp: map_filter_def dest: mapM_mem)
qed

lemma keywords_of_names:
  assumes "body_names body = Inr names"
  shows "\<exists>kws. unsupported_body_keywords body = Inr kws"
proof (cases body)
  case (Some a)
  then obtain x where "body_properties a = Inr x" using assms by (auto simp: body_names_def)
  then show ?thesis using Some by (cases x) (simp_all add: unsupported_body_keywords_def)
qed (simp add: unsupported_body_keywords_def)

lemma name_override_valid: "name_override raw = [] \<or> matches_name_pattern (name_override raw)"
  by (simp add: name_override_def Let_def)

section \<open>Properties\<close>

text \<open>C30. Introspected operations are safe and well formed, whatever the document says: each belongs to the upstream asked
  for, has the effect of its HTTP method, no header parameter a caller could use to replace the credential or
  reshape the request, a path template matched one to one by required path parameters, unambiguous
  arguments, the schema synthesized from its binding, and no name or a publishable one.\<close>

theorem openapi_well_formed:
  assumes "openapi_operations upstream loaded deprecated creds = Inr ops" and "op \<in> set ops"
  shows "op_upstream op = upstream
         \<and> (\<exists>b b0. op_binding op = Http b \<and> effect_for_method (hb_method b) = Inr (op_effect op)
             \<and> check_operation_headers [op] creds = Inr () \<and> check_path_template b = Inr ()
             \<and> distinct (map p_arg (hb_parameters b))
             \<and> resolve_arg_names b0 = Inr b \<and> build_input_schema b0 = Inr (op_input_schema op))
         \<and> (op_name op = [] \<or> matches_name_pattern (op_name op))"
proof -
  obtain raw where "build_openapi upstream creds raw = Inr (Some op)"
    using openapi_operations_raw [OF assms] by blast
  then obtain b resolved schema where
    h: "\<forall>p \<in> set (hb_parameters b). p_location p = HEADER \<longrightarrow> \<not> is_denylisted (p_wire_name p) creds"
    and e: "effect_for_method (hb_method b) = Inr (op_effect op)"
    and t: "check_path_template b = Inr ()" and r: "resolve_arg_names b = Inr resolved" and s: "build_input_schema b = Inr schema"
    and op: "op_upstream op = upstream" "op_input_schema op = schema" "op_binding op = Http resolved" "op_name op = name_override raw"
    by (rule build_openapi_Some) blast
  obtain c where "hb_parameters resolved = map (rename_param c) (hb_parameters b)"
    using resolve_arg_names_params [OF r] by blast
  then have "check_operation_headers [op] creds = Inr ()" using h op(3) by (auto simp: check_params_headers_Inr)
  moreover have "check_path_template resolved = Inr ()"
    using t resolve_keeps_template [OF _ r] by (simp add: check_path_template_iff)
  moreover have "distinct (map p_arg (hb_parameters resolved))" using r by (rule resolve_arg_names_Inr)
  ultimately show ?thesis
    using op e s r resolve_arg_names_frame(1) [OF r] name_override_valid [of raw] by metis
qed

text \<open>C24. Introspected and configured operations go through one pipeline: an entry of the configuration that declares the
  binding a document operation has yields the same effect, the same input schema and the same
  resolved binding as the document does.\<close>

theorem openapi_agrees_with_explicit:
  assumes "build_openapi upstream creds raw = Inr (Some op)" and "openapi_binding raw = Inr b"
    and "oe_binding entry = HttpEntry he" and "http_binding_of he = b" and "oe_effect entry = None"
  shows "\<exists>op'. build_entry entry = Inr (Some op') \<and> op_effect op' = op_effect op
           \<and> op_input_schema op' = op_input_schema op \<and> op_binding op' = op_binding op"
proof -
  obtain resolved schema where
    e: "effect_for_method (hb_method b) = Inr (op_effect op)"
    and t: "check_path_template b = Inr ()" and r: "resolve_arg_names b = Inr resolved" and s: "build_input_schema b = Inr schema"
    and op: "op_input_schema op = schema" "op_binding op = Http resolved"
    using assms(2) by (rule_tac build_openapi_Some [OF assms(1)]) auto
  obtain names where "body_names (hb_body b) = Inr names" using r by (rule resolve_arg_names_Inr)
  then have "\<exists>kws. unsupported_body_keywords (hb_body b) = Inr kws" by (rule keywords_of_names)
  then obtain kws where k: "unsupported_body_keywords (hb_body b) = Inr kws" by blast
  show ?thesis
    using assms(3-5) e t r s op k
    by (simp add: build_entry_def build_http_op_def entry_effect_def)
qed

definition sample_raw :: raw_operation where
  "sample_raw =
     \<lparr>ro_method = ''get'', ro_path = ''/pets/{id}'', ro_operation_id = JStr ''getPet'', ro_summary = JStr ''A pet'',
      ro_description = JNull, ro_tags = [JStr ''pets''],
      ro_parameters = [\<lparr>rp_name = JStr ''id'', rp_location = ''path'', rp_required = True,
                        rp_schema = JObj [(''type'', JStr ''integer'')], rp_explode = JBool True\<rparr>],
      ro_request_body = None, ro_extensions = [(''x-mcp-sensitive'', JBool True)]\<rparr>"

definition sample_openapi_document :: loaded_document where
  "sample_openapi_document =
     \<lparr>ld_document =
        [(''paths'', JObj
           [(''/pets/{id}'', JObj
              [(''get'', JObj [(''operationId'', JStr ''getPet''), (''summary'', JStr ''A pet''), (''tags'', JList [JStr ''pets'']),
                               (''x-mcp-sensitive'', JBool True)]),
               (''put'', JInt 3), (''head'', JObj []),
               (''parameters'', JList [JObj [(''name'', JStr ''id''), (''in'', JStr ''path''), (''required'', JBool True),
                                            (''schema'', JObj [(''type'', JStr ''integer'')])]])])])],
      ld_base_url = ''https://api'', ld_warnings = []\<rparr>"

lemma sample_extract:
  "extract_raw_operations (ld_document sample_openapi_document) False = Inr [sample_raw]"
  by code_simp

definition sample_openapi_op :: operation where
  "sample_openapi_op =
     \<lparr>op_id = ''getPet'', op_upstream = ''up'', op_name = [], op_title = ''A pet'', op_description = ''A pet'',
      op_group_tags = [''pets''], op_effect = READ_ONLY, op_sensitivity = SENSITIVE,
      op_input_schema = [(''type'', JStr ''object''),
                         (''properties'', JObj [(''id'', JObj [(''type'', JStr ''integer'')])]), (''required'', JList [JStr ''id''])],
      op_binding = Http \<lparr>hb_method = ''GET'', hb_path = ''/pets/{id}'',
        hb_parameters = [\<lparr>p_arg = ''id'', p_location = PATH, p_wire_name = ''id'', p_required = True,
                          p_schema = [(''type'', JStr ''integer'')], p_style = FORM, p_explode = True\<rparr>], hb_body = None\<rparr>,
      op_meta = []\<rparr>"

lemma sample_openapi_build: "build_openapi ''up'' [''authorization''] sample_raw = Inr (Some sample_openapi_op)"
  by code_simp

lemma sample_openapi_ops:
  "openapi_operations ''up'' sample_openapi_document False [''authorization''] = Inr [sample_openapi_op]"
  by (simp add: openapi_operations_def sample_extract sample_openapi_build map_filter_def)

lemma openapi_well_formed_witness:
  "check_operation_headers [sample_openapi_op] [''authorization''] = Inr () \<and> op_name sample_openapi_op = []"
  using openapi_well_formed [OF sample_openapi_ops, of sample_openapi_op] by (simp add: sample_openapi_op_def)

definition sample_pet_binding :: http_binding_entry where
  "sample_pet_binding =
     \<lparr>he_method = ''get'', he_path = ''/pets/{id}'',
      he_parameters = [\<lparr>pe_arg = ''id'', pe_location = PATH, pe_wire_name = None, pe_required = True,
                        pe_schema = [(''type'', JStr ''integer'')], pe_style = FORM, pe_explode = True\<rparr>], he_body = None\<rparr>"

definition sample_pet_entry :: operation_entry where
  "sample_pet_entry =
     \<lparr>oe_id = ''pet'', oe_upstream = ''up'', oe_description = ''the same call, configured'', oe_title = None, oe_name = None,
      oe_group_tags = [], oe_effect = None, oe_sensitivity = None,
      oe_binding = HttpEntry sample_pet_binding\<rparr>"

lemma openapi_agrees_with_explicit_witness:
  "\<exists>op'. build_entry sample_pet_entry = Inr (Some op') \<and> op_binding op' = op_binding sample_openapi_op
           \<and> op_input_schema op' = op_input_schema sample_openapi_op"
proof -
  have he: "oe_binding sample_pet_entry = HttpEntry sample_pet_binding" by (simp add: sample_pet_entry_def)
  have "openapi_binding sample_raw = Inr (http_binding_of sample_pet_binding)" by code_simp
  moreover have "oe_effect sample_pet_entry = None" by (simp add: sample_pet_entry_def)
  ultimately show ?thesis
    using openapi_agrees_with_explicit [OF sample_openapi_build _ he refl] by blast
qed

end
