(* ===== verification/GraphQlSchema.thy ===== *)
theory GraphQlSchema
  imports PyJson
begin

text \<open>
  The schema of a GraphQL upstream (\<open>sources/graphql_introspection.py\<close>): type references and the parse of an
  introspection answer. \<open>GqlCrash\<close> is an exception nobody catches (\<open>KeyError\<close>, \<open>TypeError\<close>, \<open>AttributeError\<close>, a
  failed \<open>assert\<close>), \<open>GqlIllTyped\<close> a value of the wrong type that the code keeps unchecked, where the typed model
  stops. The query text is not modelled; the POST is an argument of \<open>fetch_schema\<close>.
\<close>

datatype gql_error =
    NullTypeRef
  | NoSchema
  | NoQueryType
  | CannotFetchSchema string
  | SchemaNotJson string
  | QueryFailed string

datatype schema_error = Gql gql_error | GqlCrash string | GqlIllTyped string

datatype type_ref = TypeRef (tr_kind: string) (tr_name: "string option") (tr_of_type: "type_ref option")

record field_arg =
  fa_name :: string
  fa_type :: type_ref

record field_info =
  fi_name :: string
  fi_type :: type_ref
  fi_args :: "field_arg list"
  fi_description :: "string option"

record type_info =
  ti_kind :: string
  ti_name :: string
  ti_fields :: "field_info list"

record gql_schema =
  gs_query_type :: string
  gs_mutation_type :: "string option"
  gs_types :: "(string, type_info) pydict"

section \<open>Reading values\<close>

definition item :: "jobj \<Rightarrow> string \<Rightarrow> schema_error + json" where
  "item d k = (case map_of d k of Some v \<Rightarrow> Inr v | None \<Rightarrow> Inl (GqlCrash ''KeyError''))"

fun gql_string :: "json \<Rightarrow> schema_error + string" where
  "gql_string (JStr s) = Inr s"
| "gql_string _ = Inl (GqlIllTyped ''string expected'')"

fun gql_opt_string :: "json \<Rightarrow> schema_error + string option" where
  "gql_opt_string (JStr s) = Inr (Some s)"
| "gql_opt_string JNull = Inr None"
| "gql_opt_string _ = Inl (GqlIllTyped ''string expected'')"

fun gql_items :: "json \<Rightarrow> schema_error + json list" where
  "gql_items (JList vs) = Inr vs"
| "gql_items (JObj d) = Inr (map (\<lambda>(k, _). JStr k) d)"
| "gql_items (JStr s) = Inr (map (\<lambda>c. JStr [c]) s)"
| "gql_items _ = Inl (GqlCrash ''TypeError'')"

fun gql_dict :: "json \<Rightarrow> schema_error + jobj" where
  "gql_dict (JObj d) = Inr d"
| "gql_dict _ = Inl (GqlCrash ''AttributeError'')"

section \<open>Type references\<close>

lemma map_of_json_smaller: "map_of d k = Some v \<Longrightarrow> size v < Suc (size_list (size_prod (\<lambda>_. 0) size) d)"
  by (rule size_json_obj [OF map_of_SomeD])

text \<open>\<open>kind\<close> is read before \<open>name\<close> and \<open>ofType\<close>, and \<open>ofType: null\<close> is the end of the chain.\<close>

function parse_type_ref :: "json \<Rightarrow> schema_error + type_ref" where
  "parse_type_ref raw =
     (case raw of
        JNull \<Rightarrow> Inl (Gql NullTypeRef)
      | JObj d \<Rightarrow>
          bind_res (bind_res (item d ''kind'') gql_string) (\<lambda>kind.
          bind_res (gql_opt_string (jget d ''name'' JNull)) (\<lambda>name.
          case map_of d ''ofType'' of
            None \<Rightarrow> Inr (TypeRef kind name None)
          | Some inner \<Rightarrow>
              if inner = JNull then Inr (TypeRef kind name None)
              else bind_res (parse_type_ref inner) (\<lambda>r. Inr (TypeRef kind name (Some r)))))
      | _ \<Rightarrow> Inl (GqlCrash ''TypeError''))"
  by pat_completeness auto
termination
  by (relation "measure size") (auto dest: map_of_json_smaller)

declare parse_type_ref.simps [simp del]

fun render_type_ref :: "type_ref \<Rightarrow> schema_error + string" where
  "render_type_ref (TypeRef kind name of_type) =
     (if kind = ''NON_NULL'' then
        (case of_type of None \<Rightarrow> Inl (GqlCrash ''AssertionError'')
         | Some r \<Rightarrow> bind_res (render_type_ref r) (\<lambda>s. Inr (s @ ''!'')))
      else if kind = ''LIST'' then
        (case of_type of None \<Rightarrow> Inl (GqlCrash ''AssertionError'')
         | Some r \<Rightarrow> bind_res (render_type_ref r) (\<lambda>s. Inr (''['' @ s @ '']'')))
      else (case name of None \<Rightarrow> Inl (GqlCrash ''AssertionError'') | Some n \<Rightarrow> Inr n))"

fun named_type :: "type_ref \<Rightarrow> schema_error + type_ref" where
  "named_type (TypeRef kind name of_type) =
     (if kind = ''NON_NULL'' \<or> kind = ''LIST''
      then (case of_type of None \<Rightarrow> Inl (GqlCrash ''AssertionError'') | Some r \<Rightarrow> named_type r)
      else Inr (TypeRef kind name of_type))"

section \<open>The introspection answer\<close>

definition parse_arg :: "json \<Rightarrow> schema_error + field_arg" where
  "parse_arg a =
     bind_res (case a of JObj d \<Rightarrow> Inr d | _ \<Rightarrow> Inl (GqlCrash ''TypeError'')) (\<lambda>d.
     bind_res (bind_res (item d ''name'') gql_string) (\<lambda>name.
     bind_res (bind_res (item d ''type'') parse_type_ref) (\<lambda>t. Inr \<lparr>fa_name = name, fa_type = t\<rparr>)))"

definition parse_field :: "json \<Rightarrow> schema_error + field_info" where
  "parse_field f =
     bind_res (case f of JObj d \<Rightarrow> Inr d | _ \<Rightarrow> Inl (GqlCrash ''TypeError'')) (\<lambda>d.
     bind_res (bind_res (item d ''name'') gql_string) (\<lambda>name.
     bind_res (bind_res (item d ''type'') parse_type_ref) (\<lambda>t.
     bind_res (bind_res (gql_items (jget d ''args'' (JList []))) (mapM parse_arg)) (\<lambda>args.
     bind_res (gql_opt_string (jget d ''description'' JNull)) (\<lambda>descr.
     Inr \<lparr>fi_name = name, fi_type = t, fi_args = args, fi_description = descr\<rparr>)))))"

fun add_types :: "json list \<Rightarrow> (string, type_info) pydict \<Rightarrow> schema_error + (string, type_info) pydict" where
  "add_types [] types = Inr types"
| "add_types (raw # raws) types =
     bind_res (gql_dict raw) (\<lambda>d.
     case jget d ''name'' JNull of
       JNull \<Rightarrow> add_types raws types
     | JStr name \<Rightarrow>
         if starts_with ''__'' name then add_types raws types
         else bind_res (bind_res (gql_items (py_or (jget d ''fields'' JNull) (JList []))) (mapM parse_field)) (\<lambda>fields.
              bind_res (bind_res (item d ''kind'') gql_string) (\<lambda>kind.
              add_types raws (AList.update name \<lparr>ti_kind = kind, ti_name = name, ti_fields = fields\<rparr> types)))
     | _ \<Rightarrow> Inl (GqlCrash ''AttributeError''))"

definition parse_introspection_result :: "jobj \<Rightarrow> schema_error + gql_schema" where
  "parse_introspection_result answer =
     (case (case jget answer ''data'' JNull of JObj d \<Rightarrow> jget d ''__schema'' JNull | _ \<Rightarrow> JNull) of
        JNull \<Rightarrow> Inl (Gql NoSchema)
      | raw \<Rightarrow>
          bind_res (gql_dict raw) (\<lambda>schema.
          bind_res (bind_res (gql_items (jget schema ''types'' (JList []))) (\<lambda>ts. add_types ts [])) (\<lambda>types.
          bind_res (gql_dict (jget schema ''queryType'' (JObj []))) (\<lambda>q.
          bind_res (gql_opt_string (jget q ''name'' JNull)) (\<lambda>query.
          case query of
            None \<Rightarrow> Inl (Gql NoQueryType)
          | Some query_type \<Rightarrow>
              bind_res (gql_dict (py_or (jget schema ''mutationType'' JNull) (JObj []))) (\<lambda>m.
              bind_res (gql_opt_string (jget m ''name'' JNull)) (\<lambda>mutation_type.
              Inr \<lparr>gs_query_type = query_type, gs_mutation_type = mutation_type, gs_types = types\<rparr>)))))))"

text \<open>What the POST gives: an \<open>httpx.HTTPError\<close>, a body that is not JSON, or a document.\<close>

datatype schema_answer = SchemaHttpError string | SchemaNoJson string | SchemaBody json

definition first_message :: "json \<Rightarrow> schema_error + string" where
  "first_message errors =
     (case errors of
        JList (e # _) \<Rightarrow>
          (case e of JObj d \<Rightarrow> Inr (py_str (jget d ''message'' errors)) | _ \<Rightarrow> Inl (GqlCrash ''AttributeError''))
      | JStr _ \<Rightarrow> Inl (GqlCrash ''AttributeError'')
      | JObj _ \<Rightarrow> Inl (GqlCrash ''KeyError'')
      | _ \<Rightarrow> Inl (GqlCrash ''TypeError''))"

definition fetch_schema :: "schema_answer \<Rightarrow> schema_error + gql_schema" where
  "fetch_schema answer =
     (case answer of
        SchemaHttpError msg \<Rightarrow> Inl (Gql (CannotFetchSchema msg))
      | SchemaNoJson msg \<Rightarrow> Inl (Gql (SchemaNotJson msg))
      | SchemaBody body \<Rightarrow>
          bind_res (gql_dict body) (\<lambda>d.
          let errors = jget d ''errors'' JNull
          in if truthy errors then bind_res (first_message errors) (\<lambda>msg. Inl (Gql (QueryFailed msg)))
             else parse_introspection_result d))"

section \<open>Facts\<close>

text \<open>A reference as the GraphQL type system allows it: no \<open>NON_NULL\<close> directly inside a \<open>NON_NULL\<close>, and a name at the
  end, made of letters, digits and underscores.\<close>

definition is_gql_name :: "string \<Rightarrow> bool" where
  "is_gql_name s = (s \<noteq> [] \<and> list_all (\<lambda>c. is_lower_ascii c \<or> is_upper_ascii c \<or> is_digit_ascii c \<or> c = CHR ''_'') s)"

fun well_formed_ref :: "type_ref \<Rightarrow> bool" where
  "well_formed_ref (TypeRef kind name of_type) =
     (if kind = ''NON_NULL''
      then (case of_type of None \<Rightarrow> False | Some r \<Rightarrow> tr_kind r \<noteq> ''NON_NULL'' \<and> well_formed_ref r)
      else if kind = ''LIST'' then (case of_type of None \<Rightarrow> False | Some r \<Rightarrow> well_formed_ref r)
      else (case name of None \<Rightarrow> False | Some n \<Rightarrow> is_gql_name n))"

lemma render_total: "well_formed_ref r \<Longrightarrow> \<exists>s. render_type_ref r = Inr s"
  by (induction r rule: render_type_ref.induct) (auto split: option.splits if_splits)

lemma named_type_total: "well_formed_ref r \<Longrightarrow> \<exists>t. named_type r = Inr t \<and> tr_kind t \<notin> {''NON_NULL'', ''LIST''} \<and> tr_name t \<noteq> None"
  by (induction r rule: named_type.induct) (auto split: option.splits if_splits)

end
