(* ===== verification/GraphQlSource.thy ===== *)
theory GraphQlSource
  imports GraphQlSchema Explicit
begin

text \<open>
  Operations from a GraphQL schema (\<open>sources/graphql.py\<close>, \<open>sources/graphql_selection.py\<close>): one per top-level field of the
  query and mutation types, with a selection set generated from the schema. \<open>SelectionFailed\<close> is the \<open>SelectionError\<close>
  for a type the schema does not define; an operation it stops is dropped. The set of excluded fields is the
  list of the policy.
\<close>

datatype selection_error = SelectionFailed string | SelectionCrash schema_error

section \<open>Selection sets\<close>

definition lift_schema :: "schema_error + 'a \<Rightarrow> selection_error + 'a" where
  "lift_schema r = (case r of Inl e \<Rightarrow> Inl (SelectionCrash e) | Inr x \<Rightarrow> Inr x)"

lemma mapM_cong [fundef_cong]:
  assumes "xs = ys" "\<And>x. x \<in> set ys \<Longrightarrow> f x = g x"
  shows "mapM f xs = mapM g ys"
  using assms(2) unfolding assms(1) by (induction ys) (auto intro: bind_res_cong)

definition excluded_fields :: "(string, string list) pydict \<Rightarrow> string \<Rightarrow> string list" where
  "excluded_fields policy type_name = (case map_of policy type_name of Some fs \<Rightarrow> fs | None \<Rightarrow> [])"

definition composite :: "type_ref \<Rightarrow> bool" where
  "composite r = (tr_kind r \<in> {''OBJECT'', ''INTERFACE''})"

definition selectable :: "(string, string list) pydict \<Rightarrow> string \<Rightarrow> field_info \<Rightarrow> bool" where
  "selectable policy type_name f = (fi_name f \<notin> set (excluded_fields policy type_name) \<and> fi_args f = [])"

text \<open>One field, given what to do for the type it leads to.\<close>

definition field_lines ::
    "(string \<Rightarrow> selection_error + string list) \<Rightarrow> string list \<Rightarrow> string \<Rightarrow> field_info \<Rightarrow> selection_error + string list" where
  "field_lines nested path indent f =
     bind_res (lift_schema (named_type (fi_type f))) (\<lambda>target.
     if \<not> composite target then Inr [indent @ fi_name f]
     else case tr_name target of
         None \<Rightarrow> Inl (SelectionCrash (GqlCrash ''AssertionError''))
       | Some name \<Rightarrow>
           if name \<in> set path then Inr [indent @ fi_name f @ '' { __typename }'']
           else bind_res (nested name) (\<lambda>inner.
                Inr (if inner \<noteq> [] then [indent @ fi_name f @ '' {''] @ inner @ [indent @ ''}''] else [])))"

lemma field_lines_cong [fundef_cong]:
  assumes "path = path'" "indent = indent'" "f = f'" and "\<And>name. name \<notin> set path' \<Longrightarrow> nested name = nested' name"
  shows "field_lines nested path indent f = field_lines nested' path' indent' f'"
  using assms by (auto simp: field_lines_def bind_res_def split: option.splits sum.splits)

text \<open>A path never repeats a type, so each step leaves fewer of the schema's types to enter.\<close>

definition types_left :: "string \<Rightarrow> gql_schema \<Rightarrow> string list \<Rightarrow> nat" where
  "types_left type_name schema path =
     (if map_of (gs_types schema) type_name = None then 0
      else Suc (card (dom (map_of (gs_types schema)) - set path)))"

function fields_for ::
    "string \<Rightarrow> gql_schema \<Rightarrow> (string, string list) pydict \<Rightarrow> string list \<Rightarrow> string \<Rightarrow> selection_error + string list" where
  "fields_for type_name schema policy path indent =
     (case map_of (gs_types schema) type_name of
        None \<Rightarrow> Inl (SelectionFailed type_name)
      | Some info \<Rightarrow>
          bind_res (mapM (\<lambda>f. field_lines (\<lambda>name. fields_for name schema policy (path @ [name]) (indent @ ''  '')) path indent f)
                      (filter (selectable policy type_name) (ti_fields info))) (\<lambda>lines. Inr (concat lines)))"
  by pat_completeness auto

termination
proof (relation "measure (\<lambda>(type_name, schema, policy, path, indent). types_left type_name schema path)")
  fix type_name :: string and schema :: gql_schema and policy :: "(string, string list) pydict" and path :: "string list"
    and indent :: string and info :: type_info and f :: field_info and name :: string
  assume t: "map_of (gs_types schema) type_name = Some info" and n: "name \<notin> set path"
  let ?D = "dom (map_of (gs_types schema))"
  have "card (?D - set (path @ [name])) < card (?D - set path)" if "name \<in> ?D"
    by (rule psubset_card_mono) (use that n in \<open>auto simp: finite_dom_map_of\<close>)
  then have "types_left name schema (path @ [name]) < types_left type_name schema path"
    using t by (auto simp: types_left_def)
  then show "((name, schema, policy, path @ [name], indent @ ''  ''), (type_name, schema, policy, path, indent))
        \<in> measure (\<lambda>(type_name, schema, policy, path, indent). types_left type_name schema path)"
    by simp
qed simp

declare fields_for.simps [simp del]

definition newline :: string where
  "newline = [CHR 0x0A]"

definition build_selection_set :: "string \<Rightarrow> gql_schema \<Rightarrow> (string, string list) pydict \<Rightarrow> selection_error + string" where
  "build_selection_set type_name schema policy =
     bind_res (fields_for type_name schema policy [type_name] ''  '') (\<lambda>lines.
     Inr (if lines = [] then ''{ __typename }'' else ''{'' @ newline @ str_join newline lines @ newline @ ''}''))"

section \<open>Operations\<close>

definition document_of :: "string \<Rightarrow> field_info \<Rightarrow> string option \<Rightarrow> schema_error + string" where
  "document_of operation_type field selection =
     bind_res (mapM (\<lambda>a. bind_res (render_type_ref (fa_type a)) (\<lambda>t. Inr (CHR ''$'' # fa_name a @ '': '' @ t))) (fi_args field)) (\<lambda>decls.
     let call_args = str_join '', '' (map (\<lambda>a. fa_name a @ '': $'' @ fa_name a) (fi_args field));
         args = str_join '', '' decls;
         var_decl = (if args \<noteq> [] then ''('' @ args @ '')'' else []);
         call = (if call_args \<noteq> [] then fi_name field @ ''('' @ call_args @ '')'' else fi_name field);
         call_with = (case selection of Some s \<Rightarrow> call @ '' '' @ s | None \<Rightarrow> call)
     in Inr (operation_type @ var_decl @ '' { '' @ call_with @ '' }''))"

fun json_type_for :: "type_ref \<Rightarrow> schema_error + jobj" where
  "json_type_for (TypeRef kind name of_type) =
     (if kind = ''NON_NULL'' then
        (case of_type of None \<Rightarrow> Inl (GqlCrash ''AssertionError'') | Some r \<Rightarrow> json_type_for r)
      else if kind = ''LIST'' then
        (case of_type of None \<Rightarrow> Inl (GqlCrash ''AssertionError'')
         | Some r \<Rightarrow> bind_res (json_type_for r) (\<lambda>d. Inr [(''type'', JStr ''array''), (''items'', JObj d)]))
      else if name = Some ''Int'' then Inr [(''type'', JStr ''integer'')]
      else if name = Some ''Float'' then Inr [(''type'', JStr ''number'')]
      else if name = Some ''Boolean'' then Inr [(''type'', JStr ''boolean'')]
      else Inr [(''type'', JStr ''string'')])"

definition is_non_null :: "type_ref \<Rightarrow> bool" where
  "is_non_null r = (tr_kind r = ''NON_NULL'')"

definition gql_input_schema :: "field_info \<Rightarrow> schema_error + jobj" where
  "gql_input_schema field =
     bind_res (mapM (\<lambda>a. bind_res (json_type_for (fa_type a)) (\<lambda>d. Inr (fa_name a, JObj d))) (fi_args field)) (\<lambda>props.
     Inr [(''type'', JStr ''object''), (''properties'', JObj (dict_of props)),
          (''required'', JList (map (\<lambda>a. JStr (fa_name a)) (filter (\<lambda>a. is_non_null (fa_type a)) (fi_args field))))])"

definition gql_variables :: "field_info \<Rightarrow> schema_error + gql_variable list" where
  "gql_variables field =
     mapM (\<lambda>a. bind_res (render_type_ref (fa_type a)) (\<lambda>t.
            Inr \<lparr>v_name = fa_name a, v_graphql_type = t, v_required = is_non_null (fa_type a)\<rparr>)) (fi_args field)"

text \<open>The selection of a field: \<open>Inr None\<close> drops the operation, \<open>Inr (Some None)\<close> is a field without one.\<close>

definition selection_of ::
    "gql_schema \<Rightarrow> (string, string list) pydict \<Rightarrow> field_info \<Rightarrow> schema_error + string option option" where
  "selection_of schema policy field =
     bind_res (named_type (fi_type field)) (\<lambda>return_type.
     if \<not> composite return_type then Inr (Some None)
     else case tr_name return_type of
         None \<Rightarrow> Inr (Some (Some ''{ __typename }''))
       | Some name \<Rightarrow>
           (case build_selection_set name schema policy of
              Inr s \<Rightarrow> Inr (Some (Some s))
            | Inl (SelectionFailed _) \<Rightarrow> Inr None
            | Inl (SelectionCrash e) \<Rightarrow> Inl e))"

definition build_gql ::
    "string \<Rightarrow> gql_schema \<Rightarrow> (string, string list) pydict \<Rightarrow> string \<Rightarrow> field_info \<Rightarrow> schema_error + operation option" where
  "build_gql upstream schema policy operation_type field =
     (case effect_for_operation_type operation_type of
        Inl _ \<Rightarrow> Inr None
      | Inr eff \<Rightarrow>
          bind_res (selection_of schema policy field) (\<lambda>sel.
          case sel of
            None \<Rightarrow> Inr None
          | Some selection \<Rightarrow>
              bind_res (document_of operation_type field selection) (\<lambda>document.
              bind_res (gql_variables field) (\<lambda>vars.
              let description = or_text (fi_description field) (fi_name field)
              in bind_res (gql_input_schema field) (\<lambda>input.
                 Inr (Some \<lparr>op_id = fi_name field, op_upstream = upstream, op_name = [],
                            op_title = first_line_or description (fi_name field), op_description = description,
                            op_group_tags = [], op_effect = eff, op_sensitivity = NORMAL, op_input_schema = input,
                            op_binding = GraphQl \<lparr>gb_operation_type = operation_type, gb_document = document, gb_variables = vars\<rparr>,
                            op_meta = []\<rparr>))))))"

definition root_fields :: "gql_schema \<Rightarrow> string option \<Rightarrow> field_info list" where
  "root_fields schema type_name =
     (case type_name of None \<Rightarrow> []
      | Some n \<Rightarrow> (case map_of (gs_types schema) n of None \<Rightarrow> [] | Some info \<Rightarrow> ti_fields info))"

definition graphql_operations ::
    "string \<Rightarrow> gql_schema \<Rightarrow> (string, string list) pydict \<Rightarrow> schema_error + operation list" where
  "graphql_operations upstream schema policy =
     bind_res (mapM (\<lambda>(operation_type, field). build_gql upstream schema policy operation_type field)
                 (map (Pair ''query'') (root_fields schema (Some (gs_query_type schema)))
                  @ map (Pair ''mutation'') (root_fields schema (gs_mutation_type schema)))) (\<lambda>ops.
     Inr (List.map_filter (\<lambda>x. x) ops))"

section \<open>Types, rendered and read back\<close>

lemma str_strip_id:
  assumes "s \<noteq> []" "\<not> is_space (hd s)" "\<not> is_space (last s)"
  shows "str_strip s = s"
proof -
  have "dropWhile is_space s = s" using assms(1,2) by (cases s) simp_all
  moreover have "dropWhile is_space (rev s) = rev s"
    using assms(1,3) by (cases "rev s") (auto simp: hd_rev [symmetric] dest: arg_cong [where f = hd])
  ultimately show ?thesis by (simp add: str_strip_def str_strip_chars_def str_lstrip_chars_def str_rstrip_chars_def)
qed

lemma gql_name_chars:
  assumes "is_gql_name s"
  shows "s \<noteq> []" "\<not> is_space (hd s)" "\<not> is_space (last s)" "last s \<noteq> CHR ''!''" "hd s \<noteq> CHR ''[''"
proof -
  have c: "\<not> is_space c \<and> c \<noteq> CHR ''!'' \<and> c \<noteq> CHR ''[''" if "c \<in> set s" for c
    using assms that by (auto simp: is_gql_name_def list_all_iff is_space_def is_lower_ascii_def is_upper_ascii_def is_digit_ascii_def)
  show "s \<noteq> []" using assms by (simp add: is_gql_name_def)
  then show "\<not> is_space (hd s)" "\<not> is_space (last s)" "last s \<noteq> CHR ''!''" "hd s \<noteq> CHR ''[''"
    using c [of "hd s"] c [of "last s"] by simp_all
qed

lemma rendered_ends:
  "well_formed_ref r \<Longrightarrow> render_type_ref r = Inr s \<Longrightarrow>
     s \<noteq> [] \<and> \<not> is_space (hd s) \<and> \<not> is_space (last s) \<and> (last s = CHR ''!'' \<longleftrightarrow> tr_kind r = ''NON_NULL'')"
proof (induction r arbitrary: s rule: render_type_ref.induct)
  case (1 kind name of_type)
  consider (nn) r where "kind = ''NON_NULL''" "of_type = Some r" | (li) r where "kind = ''LIST''" "of_type = Some r"
    | (nm) n where "kind \<notin> {''NON_NULL'', ''LIST''}" "name = Some n" "is_gql_name n"
    using "1.prems"(1) by (auto split: if_splits option.splits)
  then show ?case
  proof cases
    case nn
    then obtain t where "render_type_ref r = Inr t" "s = t @ ''!''" using "1.prems" by auto
    then show ?thesis using "1.IH"(1) [of r t] "1.prems" nn by (auto simp: is_space_def)
  next
    case li
    then obtain t where "s = ''['' @ t @ '']''" using "1.prems" by auto
    then show ?thesis using li by (simp add: is_space_def)
  next
    case nm
    then show ?thesis using "1.prems" gql_name_chars [of n] by (auto split: if_splits)
  qed
qed

lemma drop_bang_bang [simp]: "drop_bang (t @ ''!'') = t"
  by (simp add: drop_bang_def ends_with_def)

lemma drop_bang_id: "s \<noteq> [] \<Longrightarrow> last s \<noteq> CHR ''!'' \<Longrightarrow> drop_bang s = s"
  by (cases s rule: rev_cases) (auto simp: drop_bang_def ends_with_def)

lemma json_type_bang:
  assumes "s \<noteq> []" "\<not> is_space (hd s)" "\<not> is_space (last s)" "last s \<noteq> CHR ''!''"
  shows "json_type_for_graphql_type (s @ ''!'') = json_type_for_graphql_type s"
proof -
  have "str_strip (s @ ''!'') = s @ ''!''" using assms by (intro str_strip_id) (auto simp: is_space_def)
  then show ?thesis
    unfolding json_type_for_graphql_type.simps [of "s @ ''!''"] json_type_for_graphql_type.simps [of s]
    by (simp only: str_strip_id [OF assms(1-3)] drop_bang_bang drop_bang_id [OF assms(1,4)])
qed

text \<open>The structured mapping and the one on rendered text agree.\<close>

lemma json_types_agree:
  "well_formed_ref r \<Longrightarrow> render_type_ref r = Inr s \<Longrightarrow> json_type_for r = Inr (json_type_for_graphql_type s)"
proof (induction r arbitrary: s rule: render_type_ref.induct)
  case (1 kind name of_type)
  consider (nn) r where "kind = ''NON_NULL''" "of_type = Some r" | (li) r where "kind = ''LIST''" "of_type = Some r"
    | (nm) n where "kind \<notin> {''NON_NULL'', ''LIST''}" "name = Some n" "is_gql_name n"
    using "1.prems"(1) by (auto split: if_splits option.splits)
  then show ?case
  proof cases
    case nn
    then obtain t where t: "render_type_ref r = Inr t" "s = t @ ''!''" using "1.prems" by auto
    have w: "well_formed_ref r" "tr_kind r \<noteq> ''NON_NULL''" using "1.prems"(1) nn by auto
    then have "json_type_for_graphql_type s = json_type_for_graphql_type t"
      using rendered_ends [OF w(1) t(1)] t(2) json_type_bang by simp
    then show ?thesis using "1.IH"(1) [of r t] nn t w by simp
  next
    case li
    then obtain t where t: "render_type_ref r = Inr t" "s = ''['' @ t @ '']''" using "1.prems" by auto
    have w: "well_formed_ref r" using "1.prems"(1) li by auto
    have "str_strip s = s" "drop_bang s = s" using t(2) by (auto intro!: str_strip_id drop_bang_id simp: is_space_def)
    then have "json_type_for_graphql_type s = [(''type'', JStr ''array''), (''items'', JObj (json_type_for_graphql_type t))]"
      unfolding json_type_for_graphql_type.simps [of s] using t(2) by (simp add: starts_with_def ends_with_def Let_def)
    then show ?thesis using "1.IH"(2) [of r t] li t w by simp
  next
    case nm
    have s: "s = n" using "1.prems" nm by (auto split: if_splits)
    have n: "str_strip n = n" "drop_bang n = n" "\<not> starts_with ''['' n"
      using gql_name_chars [OF nm(3)] by (auto intro!: str_strip_id drop_bang_id simp: starts_with_iff)
    have "json_type_for_graphql_type n = (if n = ''Int'' then [(''type'', JStr ''integer'')] else if n = ''Float'' then [(''type'', JStr ''number'')]
        else if n = ''Boolean'' then [(''type'', JStr ''boolean'')] else [(''type'', JStr ''string'')])"
      unfolding json_type_for_graphql_type.simps [of n] using n by (simp add: Let_def)
    then show ?thesis using nm s by simp
  qed
qed

section \<open>What a generated selection selects\<close>

datatype sel = Leaf string | Cycle string | Node string "sel list"

fun render_sel :: "string \<Rightarrow> sel \<Rightarrow> string list" where
  "render_sel indent (Leaf n) = [indent @ n]"
| "render_sel indent (Cycle n) = [indent @ n @ '' { __typename }'']"
| "render_sel indent (Node n ss) =
     [indent @ n @ '' {''] @ concat (map (render_sel (indent @ ''  '')) ss) @ [indent @ ''}'']"

definition selects :: "gql_schema \<Rightarrow> (string, string list) pydict \<Rightarrow> string \<Rightarrow> string \<Rightarrow> type_ref \<Rightarrow> bool" where
  "selects schema policy type_name n target \<longleftrightarrow>
     (\<exists>info f. map_of (gs_types schema) type_name = Some info \<and> f \<in> set (ti_fields info) \<and> selectable policy type_name f
        \<and> fi_name f = n \<and> named_type (fi_type f) = Inr target)"

text \<open>A selection as the schema and the policy allow it: declared fields only, none that is excluded or takes arguments,
  no sub-selection on a field that is not composite, a non-empty one or \<open>__typename\<close> on a field that is.\<close>

fun valid_sel :: "gql_schema \<Rightarrow> (string, string list) pydict \<Rightarrow> string list \<Rightarrow> string \<Rightarrow> sel \<Rightarrow> bool" where
  "valid_sel schema policy path type_name (Leaf n) = (\<exists>t. selects schema policy type_name n t \<and> \<not> composite t)"
| "valid_sel schema policy path type_name (Cycle n) =
     (\<exists>t m. selects schema policy type_name n t \<and> composite t \<and> tr_name t = Some m \<and> m \<in> set path)"
| "valid_sel schema policy path type_name (Node n ss) =
     (ss \<noteq> [] \<and> (\<exists>t m. selects schema policy type_name n t \<and> composite t \<and> tr_name t = Some m \<and> m \<notin> set path
                    \<and> (\<forall>s \<in> set ss. valid_sel schema policy (path @ [m]) m s)))"

lemma render_sel_not_Nil [simp]: "render_sel indent s \<noteq> []"
  by (cases s) simp_all

lemma field_lines_sel:
  assumes "field_lines nested path indent f = Inr ls"
    and "selectable policy type_name f" "map_of (gs_types schema) type_name = Some info" "f \<in> set (ti_fields info)"
    and nested: "\<And>name inner. nested name = Inr inner \<Longrightarrow> name \<notin> set path \<Longrightarrow>
          \<exists>ss. inner = concat (map (render_sel (indent @ ''  '')) ss) \<and> (\<forall>s \<in> set ss. valid_sel schema policy (path @ [name]) name s)"
  shows "\<exists>ss. ls = concat (map (render_sel indent) ss) \<and> (\<forall>s \<in> set ss. valid_sel schema policy path type_name s)"
proof -
  obtain t where t: "named_type (fi_type f) = Inr t"
    using assms(1) by (cases "named_type (fi_type f)") (auto simp: field_lines_def lift_schema_def)
  have s: "selects schema policy type_name (fi_name f) t"
    using assms(2-4) t unfolding selects_def by blast
  show ?thesis
  proof (cases "composite t")
    case False
    then have "ls = [indent @ fi_name f]" using assms(1) t by (simp add: field_lines_def lift_schema_def)
    then show ?thesis using s False by (intro exI [of _ "[Leaf (fi_name f)]"]) auto
  next
    case True
    then obtain m where m: "tr_name t = Some m"
      using assms(1) t by (cases "tr_name t") (simp_all add: field_lines_def lift_schema_def)
    show ?thesis
    proof (cases "m \<in> set path")
      case c: True
      then have "ls = [indent @ fi_name f @ '' { __typename }'']" using assms(1) t m True by (simp add: field_lines_def lift_schema_def)
      then show ?thesis using s True m c by (intro exI [of _ "[Cycle (fi_name f)]"]) auto
    next
      case c: False
      then obtain inner where i: "nested m = Inr inner"
        and ls: "ls = (if inner \<noteq> [] then [indent @ fi_name f @ '' {''] @ inner @ [indent @ ''}''] else [])"
        using assms(1) t m True by (auto simp: field_lines_def lift_schema_def)
      obtain ss where ss: "inner = concat (map (render_sel (indent @ ''  '')) ss)" "\<forall>s \<in> set ss. valid_sel schema policy (path @ [m]) m s"
        using nested [OF i c] by blast
      show ?thesis
      proof (cases "inner = []")
        case True
        then show ?thesis using ls by (intro exI [of _ "[]"]) simp
      next
        case False
        then have "ss \<noteq> []" using ss(1) by auto
        then show ?thesis
          using ls False ss s True m c by (intro exI [of _ "[Node (fi_name f) ss]"]) auto
      qed
    qed
  qed
qed

lemma collect_sels:
  assumes "mapM g fs = Inr lss"
    and "\<And>f ls. f \<in> set fs \<Longrightarrow> g f = Inr ls \<Longrightarrow> \<exists>ss. ls = concat (map rend ss) \<and> (\<forall>s \<in> set ss. P s)"
  shows "\<exists>ss. concat lss = concat (map rend ss) \<and> (\<forall>s \<in> set ss. P s)"
  using assms
proof (induction fs arbitrary: lss)
  case (Cons f fs)
  obtain ls lss' where l: "g f = Inr ls" "mapM g fs = Inr lss'" "lss = ls # lss'" using Cons.prems(1) by auto
  have "\<exists>ss. concat lss' = concat (map rend ss) \<and> (\<forall>s \<in> set ss. P s)"
    by (rule Cons.IH [OF l(2)]) (rule Cons.prems(2); simp)
  moreover have "\<exists>ss. ls = concat (map rend ss) \<and> (\<forall>s \<in> set ss. P s)" using Cons.prems(2) [of f ls] l(1) by simp
  ultimately obtain ss ss' where "ls = concat (map rend ss)" "\<forall>s \<in> set ss. P s" "concat lss' = concat (map rend ss')" "\<forall>s \<in> set ss'. P s"
    by blast
  then show ?case using l(3) by (intro exI [of _ "ss @ ss'"]) auto
qed (auto intro: exI [of _ "[]"])

lemma fields_for_sels:
  "fields_for type_name schema policy path indent = Inr lines \<Longrightarrow>
     \<exists>ss. lines = concat (map (render_sel indent) ss) \<and> (\<forall>s \<in> set ss. valid_sel schema policy path type_name s)"
proof (induction type_name schema policy path indent arbitrary: lines rule: fields_for.induct)
  case (1 type_name schema policy path indent)
  obtain info where info: "map_of (gs_types schema) type_name = Some info"
    using "1.prems" by (cases "map_of (gs_types schema) type_name") (simp_all add: fields_for.simps [of type_name])
  obtain lss where m: "mapM (\<lambda>f. field_lines (\<lambda>name. fields_for name schema policy (path @ [name]) (indent @ ''  '')) path indent f)
                      (filter (selectable policy type_name) (ti_fields info)) = Inr lss" and lines: "lines = concat lss"
    using "1.prems" info by (auto simp: fields_for.simps [of type_name])
  have "\<exists>ss. concat lss = concat (map (render_sel indent) ss) \<and> (\<forall>s \<in> set ss. valid_sel schema policy path type_name s)"
  proof (rule collect_sels [OF m])
    fix f ls
    assume f: "f \<in> set (filter (selectable policy type_name) (ti_fields info))"
      and l: "field_lines (\<lambda>name. fields_for name schema policy (path @ [name]) (indent @ ''  '')) path indent f = Inr ls"
    show "\<exists>ss. ls = concat (map (render_sel indent) ss) \<and> (\<forall>s \<in> set ss. valid_sel schema policy path type_name s)"
      by (rule field_lines_sel [OF l _ info]) (use f "1.IH" [OF info f] in auto)
  qed
  then show ?case using lines by simp
qed

section \<open>Operations of a schema\<close>

lemma build_gql_Some:
  assumes "build_gql upstream schema policy operation_type field = Inr (Some op)"
  obtains eff selection document vars input where
    "effect_for_operation_type operation_type = Inr eff"
    "selection_of schema policy field = Inr (Some selection)"
    "document_of operation_type field selection = Inr document"
    "gql_variables field = Inr vars" "gql_input_schema field = Inr input"
    "op_id op = fi_name field" "op_upstream op = upstream" "op_effect op = eff" "op_input_schema op = input"
    "op_binding op = GraphQl \<lparr>gb_operation_type = operation_type, gb_document = document, gb_variables = vars\<rparr>"
proof -
  obtain eff where e: "effect_for_operation_type operation_type = Inr eff"
    using assms by (cases "effect_for_operation_type operation_type") (simp_all add: build_gql_def)
  obtain sel where s: "selection_of schema policy field = Inr sel" using assms e by (auto simp: build_gql_def)
  obtain selection where sel: "sel = Some selection" using assms e s by (cases sel) (simp_all add: build_gql_def)
  show thesis using assms e s sel that by (auto simp: build_gql_def Let_def)
qed

lemma graphql_operations_field:
  assumes "graphql_operations upstream schema policy = Inr ops" "op \<in> set ops"
  shows "\<exists>operation_type field. build_gql upstream schema policy operation_type field = Inr (Some op)"
proof -
  obtain xs rs where "mapM (\<lambda>(operation_type, field). build_gql upstream schema policy operation_type field) xs = Inr rs"
    "op \<in> set (List.map_filter (\<lambda>x. x) rs)"
    using assms by (auto simp: graphql_operations_def)
  then show ?thesis by (fastforce simp: map_filter_def dest!: mapM_mem)
qed

lemma gql_variables_map:
  assumes "mapM (\<lambda>a. bind_res (render_type_ref (fa_type a)) (\<lambda>t.
            Inr \<lparr>v_name = fa_name a, v_graphql_type = t, v_required = is_non_null (fa_type a)\<rparr>)) args = Inr vars"
    and "mapM (\<lambda>a. bind_res (json_type_for (fa_type a)) (\<lambda>d. Inr (fa_name a, JObj d))) args = Inr props"
    and "\<forall>a \<in> set args. well_formed_ref (fa_type a)"
  shows "props = map (\<lambda>v. (v_name v, JObj (json_type_for_graphql_type (v_graphql_type v)))) vars
         \<and> map fa_name (filter (\<lambda>a. is_non_null (fa_type a)) args) = map v_name (filter v_required vars)
         \<and> map v_name vars = map fa_name args"
  using assms
proof (induction args arbitrary: vars props)
  case (Cons a args)
  then obtain t d vars' props' where r: "render_type_ref (fa_type a) = Inr t" "json_type_for (fa_type a) = Inr d"
    and v: "vars = \<lparr>v_name = fa_name a, v_graphql_type = t, v_required = is_non_null (fa_type a)\<rparr> # vars'"
    and p: "props = (fa_name a, JObj d) # props'" by auto
  have "d = json_type_for_graphql_type t" using json_types_agree [OF _ r(1)] r(2) Cons.prems(3) by simp
  then show ?case using Cons r v p by auto
qed auto

section \<open>Properties\<close>

text \<open>C27. Generated selections are what the schema and the policy allow: the text is \<open>{ __typename }\<close>, or renders a
  non-empty tree of selections in which every field is declared by the type it is selected on, is not
  excluded by the policy and takes no arguments, every object-typed field has a sub-selection that is
  not empty, no other field has one, and no type is entered twice on a path.\<close>

theorem selection_set_valid:
  assumes "build_selection_set type_name schema policy = Inr text"
  shows "text = ''{ __typename }''
         \<or> (\<exists>ss. ss \<noteq> [] \<and> (\<forall>s \<in> set ss. valid_sel schema policy [type_name] type_name s)
               \<and> text = ''{'' @ newline @ str_join newline (concat (map (render_sel ''  '') ss)) @ newline @ ''}'')"
proof -
  obtain lines where l: "fields_for type_name schema policy [type_name] ''  '' = Inr lines"
    and t: "text = (if lines = [] then ''{ __typename }'' else ''{'' @ newline @ str_join newline lines @ newline @ ''}'')"
    using assms by (auto simp: build_selection_set_def)
  obtain ss where "lines = concat (map (render_sel ''  '') ss)" "\<forall>s \<in> set ss. valid_sel schema policy [type_name] type_name s"
    using fields_for_sels [OF l] by blast
  then show ?thesis using t by (cases "lines = []") auto
qed

text \<open>C25. Introspected and hand-written GraphQL operations agree: for a field whose argument types the GraphQL type system
  allows, an entry of the configuration with the generated document and variables yields the same effect,
  binding and input schema, although one reads the structured types and the other their text; and the variables are exactly
  the field's arguments.\<close>

theorem graphql_agrees_with_explicit:
  assumes "build_gql upstream schema policy operation_type field = Inr (Some op)"
    and "\<forall>a \<in> set (fi_args field). well_formed_ref (fa_type a)"
    and "oe_binding entry = GraphQlEntry ge" and "op_binding op = GraphQl (graphql_binding_of ge)" and "oe_effect entry = None"
  shows "map v_name (gb_variables (graphql_binding_of ge)) = map fa_name (fi_args field)
         \<and> (\<exists>op'. build_entry entry = Inr (Some op') \<and> op_effect op' = op_effect op
                \<and> op_input_schema op' = op_input_schema op \<and> op_binding op' = op_binding op)"
proof -
  obtain eff document vars input where
    e: "effect_for_operation_type operation_type = Inr eff" "op_effect op = eff"
    and v: "gql_variables field = Inr vars" and i: "gql_input_schema field = Inr input" "op_input_schema op = input"
    and b: "op_binding op = GraphQl \<lparr>gb_operation_type = operation_type, gb_document = document, gb_variables = vars\<rparr>"
    by (rule build_gql_Some [OF assms(1)]) blast
  obtain props where p: "mapM (\<lambda>a. bind_res (json_type_for (fa_type a)) (\<lambda>d. Inr (fa_name a, JObj d))) (fi_args field) = Inr props"
    and input: "input = [(''type'', JStr ''object''), (''properties'', JObj (dict_of props)),
          (''required'', JList (map (\<lambda>a. JStr (fa_name a)) (filter (\<lambda>a. is_non_null (fa_type a)) (fi_args field))))]"
    using i(1) by (auto simp: gql_input_schema_def)
  note m = gql_variables_map [OF v [unfolded gql_variables_def] p assms(2)]
  have g: "graphql_binding_of ge = \<lparr>gb_operation_type = operation_type, gb_document = document, gb_variables = vars\<rparr>"
    using assms(4) b by simp
  then have ge: "ge_operation_type ge = operation_type" by (simp add: graphql_binding_of_def)
  have "map (\<lambda>a. JStr (fa_name a)) (filter (\<lambda>a. is_non_null (fa_type a)) (fi_args field)) = map (\<lambda>v. JStr (v_name v)) (filter v_required vars)"
    using m by (metis (mono_tags, lifting) comp_apply map_eq_conv map_map)
  then have "build_entry entry = Inr (Some (entry_operation entry eff input (GraphQl (graphql_binding_of ge))))"
    using assms(3,5) e(1) m input by (simp add: build_entry_def build_graphql_op_def ge g entry_effect_def Let_def)
  then show ?thesis using m g e(2) i(2) b by simp
qed

definition named :: "string \<Rightarrow> string \<Rightarrow> type_ref" where
  "named kind name = TypeRef kind (Some name) None"

definition sample_gql_schema :: gql_schema where
  "sample_gql_schema =
     \<lparr>gs_query_type = ''Query'', gs_mutation_type = None,
      gs_types =
        [(''Query'', \<lparr>ti_kind = ''OBJECT'', ti_name = ''Query'', ti_fields =
            [\<lparr>fi_name = ''pet'', fi_type = named ''OBJECT'' ''Pet'',
              fi_args = [\<lparr>fa_name = ''ids'', fa_type = TypeRef ''NON_NULL'' None (Some (TypeRef ''LIST'' None (Some (named ''SCALAR'' ''Int''))))\<rparr>],
              fi_description = None\<rparr>]\<rparr>),
         (''Pet'', \<lparr>ti_kind = ''OBJECT'', ti_name = ''Pet'', ti_fields =
            [\<lparr>fi_name = ''name'', fi_type = named ''SCALAR'' ''String'', fi_args = [], fi_description = None\<rparr>,
             \<lparr>fi_name = ''secret'', fi_type = named ''SCALAR'' ''String'', fi_args = [], fi_description = None\<rparr>,
             \<lparr>fi_name = ''friend'', fi_type = named ''OBJECT'' ''Pet'', fi_args = [], fi_description = None\<rparr>]\<rparr>)]\<rparr>"

definition sample_gql_field :: field_info where
  "sample_gql_field = hd (ti_fields (the (map_of (gs_types sample_gql_schema) ''Query'')))"

lemma selection_set_valid_witness:
  "\<exists>text ss. build_selection_set ''Pet'' sample_gql_schema [(''Pet'', [''secret''])] = Inr text \<and> ss \<noteq> []
     \<and> list_all (valid_sel sample_gql_schema [(''Pet'', [''secret''])] [''Pet''] ''Pet'') ss"
proof -
  define sel where "sel = ''{'' @ newline @ ''  name'' @ newline @ ''  friend { __typename }'' @ newline @ ''}''"
  have b: "build_selection_set ''Pet'' sample_gql_schema [(''Pet'', [''secret''])] = Inr sel"
    unfolding sel_def by code_simp
  have "sel \<noteq> ''{ __typename }''" by (simp add: sel_def newline_def)
  then show ?thesis using selection_set_valid [OF b] b by (auto simp: list_all_iff)
qed

definition sample_gql_entry :: gql_binding_entry where
  "sample_gql_entry =
     \<lparr>ge_operation_type = ''query'',
      ge_document = ''query($ids: [Int]!) { pet(ids: $ids) { __typename } }'',
      ge_variables = [\<lparr>ve_name = ''ids'', ve_graphql_type = ''[Int]!'', ve_required = True\<rparr>]\<rparr>"

definition sample_gql_operation :: operation where
  "sample_gql_operation =
     \<lparr>op_id = ''pet'', op_upstream = ''up'', op_name = [], op_title = ''pet'', op_description = ''pet'', op_group_tags = [],
      op_effect = READ_ONLY, op_sensitivity = NORMAL,
      op_input_schema = [(''type'', JStr ''object''),
        (''properties'', JObj [(''ids'', JObj [(''type'', JStr ''array''), (''items'', JObj [(''type'', JStr ''integer'')])])]),
        (''required'', JList [JStr ''ids''])],
      op_binding = GraphQl (graphql_binding_of sample_gql_entry), op_meta = []\<rparr>"

definition sample_gql_config_entry :: operation_entry where
  "sample_gql_config_entry =
     \<lparr>oe_id = ''pets'', oe_upstream = ''up'', oe_description = ''pets'', oe_title = None, oe_name = None, oe_group_tags = [],
      oe_effect = None, oe_sensitivity = None, oe_binding = GraphQlEntry sample_gql_entry\<rparr>"

lemma graphql_agrees_with_explicit_witness:
  "\<exists>op'. build_entry sample_gql_config_entry = Inr (Some op') \<and> op_input_schema op' = op_input_schema sample_gql_operation"
proof -
  have b: "build_gql ''up'' sample_gql_schema [(''Pet'', [''secret'', ''name'', ''friend''])] ''query'' sample_gql_field = Inr (Some sample_gql_operation)"
    by code_simp
  have w: "\<forall>a \<in> set (fi_args sample_gql_field). well_formed_ref (fa_type a)"
    by (simp add: sample_gql_field_def sample_gql_schema_def named_def is_gql_name_def is_lower_ascii_def is_upper_ascii_def)
  have "oe_binding sample_gql_config_entry = GraphQlEntry sample_gql_entry" "oe_effect sample_gql_config_entry = None"
    by (simp_all add: sample_gql_config_entry_def)
  moreover have "op_binding sample_gql_operation = GraphQl (graphql_binding_of sample_gql_entry)" by (simp add: sample_gql_operation_def)
  ultimately show ?thesis using graphql_agrees_with_explicit [OF b w] by blast
qed

text \<open>A field of a union type is selected bare, which the GraphQL grammar does not allow.\<close>

lemma union_without_selection:
  "selection_of \<lparr>gs_query_type = ''Query'', gs_mutation_type = None, gs_types = []\<rparr> []
     \<lparr>fi_name = ''search'', fi_type = named ''UNION'' ''SearchResult'', fi_args = [], fi_description = None\<rparr> = Inr (Some None)"
  by code_simp

end
