(* ===== verification/Introspect.thy ===== *)
theory Introspect
  imports OpenApi GraphQlSource
begin

text \<open>
  Introspection of every upstream (\<open>introspect.py\<close>): which document or schema is fetched for which upstream, the base
  URL each upstream ends up with, and how the sources' errors become configuration errors. Fetching is outside: the
  record \<open>outside\<close> for documents and files, and \<open>ask\<close> for the answer to the introspection query at a URL.
\<close>

datatype introspect_error =
    OpenApiUpstream string openapi_error
  | RefUpstream string ref_error
  | GraphQlUpstream string gql_error
  | ServerUrlNotHttp string string
  | IntrospectCrash string
  | IntrospectIllTyped string

definition load_failed :: "string \<Rightarrow> load_error + 'a \<Rightarrow> introspect_error + 'a" where
  "load_failed key r =
     (case r of
        Inr x \<Rightarrow> Inr x
      | Inl (OpenApi e) \<Rightarrow> Inl (OpenApiUpstream key e)
      | Inl (Ref e) \<Rightarrow> Inl (RefUpstream key e)
      | Inl (Crash m) \<Rightarrow> Inl (IntrospectCrash m)
      | Inl (IllTyped m) \<Rightarrow> Inl (IntrospectIllTyped m))"

definition schema_failed :: "string \<Rightarrow> schema_error + 'a \<Rightarrow> introspect_error + 'a" where
  "schema_failed key r =
     (case r of
        Inr x \<Rightarrow> Inr x
      | Inl (Gql e) \<Rightarrow> Inl (GraphQlUpstream key e)
      | Inl (GqlCrash m) \<Rightarrow> Inl (IntrospectCrash m)
      | Inl (GqlIllTyped m) \<Rightarrow> Inl (IntrospectIllTyped m))"

text \<open>\<open>re.match(HTTP_URL_PATTERN, url)\<close>, with the white space of Python's \<open>re\<close>.\<close>

definition matches_http_url :: "string \<Rightarrow> bool" where
  "matches_http_url url =
     (case url_rest url of
        Some (c # _) \<Rightarrow> c \<notin> set ''/?#'' \<and> \<not> is_space c
      | _ \<Rightarrow> False)"

definition own_base_url :: "upstream_config \<Rightarrow> string" where
  "own_base_url up = (case up_base_url up of Some b \<Rightarrow> b | None \<Rightarrow> [])"

definition introspect_openapi ::
    "outside \<Rightarrow> nat \<Rightarrow> string list \<Rightarrow> string \<Rightarrow> string \<Rightarrow> upstream_config \<Rightarrow> openapi_introspection
     \<Rightarrow> introspect_error + operation list \<times> string" where
  "introspect_openapi out fuel creds base_dir key up oi =
     bind_res (load_failed key (fst (load_document out fuel oi base_dir (up_base_url up)))) (\<lambda>loaded.
     let resolved = (if own_base_url up \<noteq> [] then own_base_url up else ld_base_url loaded)
     in if \<not> matches_http_url resolved then Inl (ServerUrlNotHttp key resolved)
        else bind_res (load_failed key (openapi_operations key loaded (oi_include_deprecated oi) creds)) (\<lambda>ops.
             Inr (ops, resolved)))"

definition introspect_graphql ::
    "(string \<Rightarrow> schema_answer) \<Rightarrow> string \<Rightarrow> upstream_config \<Rightarrow> graphql_introspection
     \<Rightarrow> introspect_error + operation list \<times> string" where
  "introspect_graphql ask key up gi =
     bind_res (schema_failed key (fetch_schema (ask (gi_url gi)))) (\<lambda>schema.
     bind_res (schema_failed key (graphql_operations key schema (gi_type_policy gi))) (\<lambda>ops.
     Inr (ops, own_base_url up)))"

definition introspect_upstream ::
    "outside \<Rightarrow> (string \<Rightarrow> schema_answer) \<Rightarrow> nat \<Rightarrow> string list \<Rightarrow> string \<Rightarrow> string \<times> upstream_config
     \<Rightarrow> introspect_error + operation list \<times> string" where
  "introspect_upstream out ask fuel creds base_dir ku =
     (case up_introspection (snd ku) of
        None \<Rightarrow> Inr ([], own_base_url (snd ku))
      | Some i \<Rightarrow>
          (case in_openapi i of
             Some oi \<Rightarrow> introspect_openapi out fuel creds base_dir (fst ku) (snd ku) oi
           | None \<Rightarrow>
               (case in_graphql i of
                  Some gi \<Rightarrow> introspect_graphql ask (fst ku) (snd ku) gi
                | None \<Rightarrow> Inl (IntrospectCrash ''AssertionError''))))"

fun introspect_loop ::
    "(string \<times> upstream_config \<Rightarrow> introspect_error + operation list \<times> string) \<Rightarrow> (string \<times> upstream_config) list
     \<Rightarrow> operation list \<Rightarrow> (string, string) pydict \<Rightarrow> introspect_error + operation list \<times> (string, string) pydict" where
  "introspect_loop one [] ops urls = Inr (ops, urls)"
| "introspect_loop one (ku # kus) ops urls =
     bind_res (one ku) (\<lambda>(found, url). introspect_loop one kus (ops @ found) (AList.update (fst ku) url urls))"

definition introspect_upstreams ::
    "outside \<Rightarrow> (string \<Rightarrow> schema_answer) \<Rightarrow> nat \<Rightarrow> portal_config \<Rightarrow> string
     \<Rightarrow> introspect_error + operation list \<times> (string, string) pydict" where
  "introspect_upstreams out ask fuel config base_dir =
     introspect_loop (introspect_upstream out ask fuel (credential_headers_for config) base_dir) (pc_upstreams config) [] []"

section \<open>The loop\<close>

lemma introspect_loop_Cons:
  assumes "introspect_loop one (ku # kus) ops urls = Inr r"
  obtains found url where "one ku = Inr (found, url)"
    "introspect_loop one kus (ops @ found) (AList.update (fst ku) url urls) = Inr r"
  using assms by (auto simp: bind_res_eq_Inr)

lemma introspect_loop_urls:
  "introspect_loop one kus ops urls = Inr (ops', urls') \<Longrightarrow> dom (map_of urls') = dom (map_of urls) \<union> fst ` set kus"
proof (induction kus arbitrary: ops urls)
  case (Cons ku kus)
  obtain found url where "introspect_loop one kus (ops @ found) (AList.update (fst ku) url urls) = Inr (ops', urls')"
    using Cons.prems by (rule introspect_loop_Cons)
  note Cons.IH [OF this]
  then show ?case by simp
qed simp

lemma introspect_loop_ops:
  "introspect_loop one kus ops urls = Inr (ops', urls') \<Longrightarrow> op \<in> set ops' \<Longrightarrow>
     op \<in> set ops \<or> (\<exists>ku \<in> set kus. \<exists>found url. one ku = Inr (found, url) \<and> op \<in> set found)"
proof (induction kus arbitrary: ops urls)
  case (Cons ku kus)
  obtain found url where o: "one ku = Inr (found, url)"
    and r: "introspect_loop one kus (ops @ found) (AList.update (fst ku) url urls) = Inr (ops', urls')"
    using Cons.prems(1) by (rule introspect_loop_Cons)
  show ?case using Cons.IH [OF r Cons.prems(2)] o by (metis UnE list.set_intros set_append)
qed simp

lemma introspect_loop_url:
  "introspect_loop one kus ops urls = Inr (ops', urls') \<Longrightarrow> distinct (map fst kus) \<Longrightarrow>
     (k \<notin> fst ` set kus \<longrightarrow> map_of urls' k = map_of urls k)
     \<and> (\<forall>u. (k, u) \<in> set kus \<longrightarrow> (\<exists>found url. one (k, u) = Inr (found, url) \<and> map_of urls' k = Some url))"
proof (induction kus arbitrary: ops urls)
  case (Cons ku kus)
  obtain found url where o: "one ku = Inr (found, url)"
    and r: "introspect_loop one kus (ops @ found) (AList.update (fst ku) url urls) = Inr (ops', urls')"
    using Cons.prems(1) by (rule introspect_loop_Cons)
  have ih: "(k \<notin> fst ` set kus \<longrightarrow> map_of urls' k = map_of (AList.update (fst ku) url urls) k)
     \<and> (\<forall>u. (k, u) \<in> set kus \<longrightarrow> (\<exists>found url. one (k, u) = Inr (found, url) \<and> map_of urls' k = Some url))"
    by (rule Cons.IH [OF r]) (use Cons.prems(2) in simp)
  show ?case
  proof (cases "k = fst ku")
    case True
    have n: "k \<notin> fst ` set kus" using Cons.prems(2) True by simp
    then have m: "map_of urls' k = Some url" using ih True by (simp add: update_conv')
    have "ku = (k, u)" if "(k, u) \<in> set (ku # kus)" for u
      using that n True by (cases "(k, u) = ku") (auto intro: rev_image_eqI)
    then show ?thesis using o m True by (metis image_eqI list.set_intros(1))
  next
    case False
    then show ?thesis using ih by (auto simp: update_conv')
  qed
qed simp

lemma introspect_upstreams_urls:
  "introspect_upstreams out ask fuel config base_dir = Inr (ops, urls) \<Longrightarrow>
     dom (map_of urls) = fst ` set (pc_upstreams config)"
  unfolding introspect_upstreams_def by (drule introspect_loop_urls) simp

section \<open>Each upstream\<close>

lemma load_failed_Inr [simp]: "load_failed key r = Inr x \<longleftrightarrow> r = Inr x"
  by (auto simp: load_failed_def split: sum.splits load_error.splits)

lemma schema_failed_Inr [simp]: "schema_failed key r = Inr x \<longleftrightarrow> r = Inr x"
  by (auto simp: schema_failed_def split: sum.splits schema_error.splits)

lemma matches_http_url_valid: "matches_http_url url \<Longrightarrow> is_http_url url"
  by (auto simp: matches_http_url_def is_http_url_def is_white_def split: option.splits list.splits)

lemma introspect_openapi_Inr:
  assumes "introspect_openapi out fuel creds base_dir key up oi = Inr (ops, url)"
  obtains loaded where "fst (load_document out fuel oi base_dir (up_base_url up)) = Inr loaded"
    "openapi_operations key loaded (oi_include_deprecated oi) creds = Inr ops"
    "url = (if own_base_url up \<noteq> [] then own_base_url up else ld_base_url loaded)" "matches_http_url url"
  using assms unfolding introspect_openapi_def Let_def bind_res_eq_Inr
  by (auto simp: bind_res_eq_Inr split: if_splits)

lemma introspect_graphql_Inr:
  assumes "introspect_graphql ask key up gi = Inr (ops, url)"
  obtains schema where "fetch_schema (ask (gi_url gi)) = Inr schema"
    "graphql_operations key schema (gi_type_policy gi) = Inr ops" "url = own_base_url up"
  using assms by (auto simp: introspect_graphql_def bind_res_eq_Inr)

text \<open>An introspected operation: of the upstream asked for, no caller-settable credential header, no name but a
  publishable one.\<close>

lemma introspect_upstream_ops:
  assumes "introspect_upstream out ask fuel creds base_dir ku = Inr (ops, url)" "op \<in> set ops"
  shows "op_upstream op = fst ku \<and> up_introspection (snd ku) \<noteq> None \<and> check_operation_headers [op] creds = Inr ()"
proof -
  obtain i where i: "up_introspection (snd ku) = Some i"
    using assms by (auto simp: introspect_upstream_def split: option.splits)
  show ?thesis
  proof (cases "in_openapi i")
    case (Some oi)
    then have "introspect_openapi out fuel creds base_dir (fst ku) (snd ku) oi = Inr (ops, url)"
      using assms(1) i by (simp add: introspect_upstream_def)
    then obtain loaded where "openapi_operations (fst ku) loaded (oi_include_deprecated oi) creds = Inr ops"
      by (rule introspect_openapi_Inr)
    then obtain raw where "build_openapi (fst ku) creds raw = Inr (Some op)"
      using openapi_operations_raw assms(2) by blast
    then obtain b resolved where r: "resolve_arg_names b = Inr resolved" and op: "op_binding op = Http resolved" "op_upstream op = fst ku"
      and h: "\<forall>p \<in> set (hb_parameters b). p_location p = HEADER \<longrightarrow> \<not> is_denylisted (p_wire_name p) creds"
      by (rule build_openapi_Some) blast
    obtain c where "hb_parameters resolved = map (rename_param c) (hb_parameters b)"
      using resolve_arg_names_params [OF r] by blast
    then show ?thesis using h op i by (auto simp: check_params_headers_Inr)
  next
    case None
    then obtain gi where "introspect_graphql ask (fst ku) (snd ku) gi = Inr (ops, url)"
      using assms(1) i by (auto simp: introspect_upstream_def split: option.splits)
    then obtain schema where "graphql_operations (fst ku) schema (gi_type_policy gi) = Inr ops"
      by (rule introspect_graphql_Inr)
    then obtain operation_type field where "build_gql (fst ku) schema (gi_type_policy gi) operation_type field = Inr (Some op)"
      using graphql_operations_field assms(2) by blast
    then show ?thesis by (rule build_gql_Some) (simp add: i)
  qed
qed

lemma introspect_upstream_url:
  assumes "introspect_upstream out ask fuel creds base_dir ku = Inr (ops, url)"
  shows "own_base_url (snd ku) \<noteq> [] \<longrightarrow> url = own_base_url (snd ku)"
    and "url \<noteq> own_base_url (snd ku) \<longrightarrow> is_http_url url"
proof -
  have "(own_base_url (snd ku) \<noteq> [] \<longrightarrow> url = own_base_url (snd ku)) \<and> (url \<noteq> own_base_url (snd ku) \<longrightarrow> is_http_url url)"
    using assms
    by (auto simp: introspect_upstream_def matches_http_url_valid split: option.splits if_splits
        elim!: introspect_openapi_Inr introspect_graphql_Inr)
  then show "own_base_url (snd ku) \<noteq> [] \<longrightarrow> url = own_base_url (snd ku)"
    and "url \<noteq> own_base_url (snd ku) \<longrightarrow> is_http_url url" by blast+
qed

lemma introspected_operation:
  assumes "introspect_upstreams out ask fuel config base_dir = Inr (ops, urls)" "op \<in> set ops"
  shows "\<exists>up. (op_upstream op, up) \<in> set (pc_upstreams config) \<and> up_introspection up \<noteq> None
           \<and> check_operation_headers [op] (credential_headers_for config) = Inr ()"
proof -
  obtain ku found url where ku: "ku \<in> set (pc_upstreams config)"
    "introspect_upstream out ask fuel (credential_headers_for config) base_dir ku = Inr (found, url)" "op \<in> set found"
    using introspect_loop_ops [OF assms(1) [unfolded introspect_upstreams_def] assms(2)] by auto
  show ?thesis
    using introspect_upstream_ops [OF ku(2,3)] ku(1) by (intro exI [of _ "snd ku"]) simp
qed

section \<open>Properties\<close>

text \<open>C16. Introspection stays within the configuration: every operation it finds belongs to an upstream that asked for
  introspection and has no parameter through which a caller could set a denylisted or credential header; every
  configured upstream gets a base URL; the operator's \<open>base_url\<close> is never overridden by a document, and a base URL
  that does come from a document is an absolute http(s) URL.\<close>

theorem introspection_confined:
  assumes "introspect_upstreams out ask fuel config base_dir = Inr (ops, urls)" and "distinct (map fst (pc_upstreams config))"
  shows "(\<forall>op \<in> set ops. \<exists>up. (op_upstream op, up) \<in> set (pc_upstreams config) \<and> up_introspection up \<noteq> None
            \<and> check_operation_headers [op] (credential_headers_for config) = Inr ())
         \<and> (\<forall>(key, up) \<in> set (pc_upstreams config). \<exists>url. map_of urls key = Some url
              \<and> (own_base_url up \<noteq> [] \<longrightarrow> url = own_base_url up) \<and> (url \<noteq> own_base_url up \<longrightarrow> is_http_url url))"
proof -
  have "\<exists>url. map_of urls key = Some url
      \<and> (own_base_url up \<noteq> [] \<longrightarrow> url = own_base_url up) \<and> (url \<noteq> own_base_url up \<longrightarrow> is_http_url url)"
    if up: "(key, up) \<in> set (pc_upstreams config)" for key up
  proof -
    obtain found url where o: "introspect_upstream out ask fuel (credential_headers_for config) base_dir (key, up) = Inr (found, url)"
      and u: "map_of urls key = Some url"
      using introspect_loop_url [OF assms(1) [unfolded introspect_upstreams_def] assms(2)] up by blast
    show ?thesis using introspect_upstream_url [OF o] u by simp
  qed
  then show ?thesis using introspected_operation [OF assms(1)] by blast
qed

section \<open>An introspected upstream\<close>

definition sample_api_outside :: outside where
  "sample_api_outside =
     sample_outside\<lparr>ou_json := (\<lambda>_. Inr (JObj ((''openapi'', JStr ''3.1.0'')
       # (''servers'', JList [JObj [(''url'', JStr ''https://api'')]]) # ld_document sample_openapi_document)))\<rparr>"

definition sample_introspect_config :: portal_config where
  "sample_introspect_config =
     sample_portal\<lparr>pc_mode := IntrospectSafe, pc_operations := [],
       pc_upstreams := [(''up'', sample_upstream\<lparr>up_base_url := None,
          up_introspection := Some \<lparr>in_openapi = Some sample_introspection, in_graphql = None\<rparr>\<rparr>)]\<rparr>"

lemma sample_introspect:
  "introspect_upstreams sample_api_outside (\<lambda>_. SchemaNoJson []) 9 sample_introspect_config ''/etc/portal''
   = Inr ([sample_openapi_op], [(''up'', ''https://api'')])"
  by code_simp

theorem introspection_confined_witness:
  "check_operation_headers [sample_openapi_op] (credential_headers_for sample_introspect_config) = Inr ()
   \<and> is_http_url ''https://api''"
  using introspection_confined [OF sample_introspect]
  by (simp add: sample_introspect_config_def own_base_url_def)

end
