(* ===== verification/LoadConfig.thy ===== *)
theory LoadConfig
  imports OpenApiDocument Policy
begin

text \<open>
  Loading the configuration and the policy file (the rest of \<open>config/loader.py\<close>). The field structure Pydantic checks
  when it turns a document into \<open>McpPortalConfig\<close> or \<open>PolicyConfig\<close> is outside: \<open>parse\<close> and \<open>parse_policy\<close> give the typed value
  or the validation message, and the validators the source adds run on the typed value. Files and
  the YAML and JSON parsers are those of \<open>outside\<close>; \<open>env\<close> is \<open>os.environ\<close>.
\<close>

datatype load_config_error =
    CannotReadConfig string string
  | InvalidJsonConfig string string
  | YamlCrash string
  | InvalidConfig string "string + model_error"
  | InvalidPolicyFile string "string + policy_error"
  | CheckFailed config_error

record loaded_config =
  lc_config :: portal_config
  lc_base_dir :: string
  lc_secrets :: "(string, string) pydict"
  lc_policy :: "policy_config option"

text \<open>\<open>Path.parent\<close> of a resolved path.\<close>

definition parent_dir :: "string \<Rightarrow> string" where
  "parent_dir path =
     (let parent = rev (tl (dropWhile (\<lambda>c. c \<noteq> CHR ''/'') (rev path)))
      in if parent = [] then ''/'' else parent)"

definition read_config :: "outside \<Rightarrow> string \<Rightarrow> load_config_error + json" where
  "read_config out path =
     (case ou_read out path of
        Inl msg \<Rightarrow> Inl (CannotReadConfig path msg)
      | Inr text \<Rightarrow>
          if path_suffix path \<in> set YAML_SUFFIXES
          then (case ou_yaml out text of Inl msg \<Rightarrow> Inl (YamlCrash msg) | Inr v \<Rightarrow> Inr v)
          else (case ou_json out text of Inl msg \<Rightarrow> Inl (InvalidJsonConfig path msg) | Inr v \<Rightarrow> Inr v))"

text \<open>\<open>model_validate\<close>: the structure first, then the source's validators; a \<open>ValidationError\<close> is either.\<close>

definition model_validate :: "(json \<Rightarrow> string + 'a) \<Rightarrow> ('a \<Rightarrow> 'e + 'b) \<Rightarrow> json \<Rightarrow> (string + 'e) + 'b" where
  "model_validate structure validators raw =
     (case structure raw of
        Inl msg \<Rightarrow> Inl (Inl msg)
      | Inr x \<Rightarrow> (case validators x of Inl e \<Rightarrow> Inl (Inr e) | Inr y \<Rightarrow> Inr y))"

definition wrap_error :: "('e \<Rightarrow> 'f) \<Rightarrow> 'e + 'a \<Rightarrow> 'f + 'a" where
  "wrap_error f r = (case r of Inl e \<Rightarrow> Inl (f e) | Inr x \<Rightarrow> Inr x)"

definition load_policy_file ::
    "outside \<Rightarrow> (json \<Rightarrow> string + policy_config) \<Rightarrow> string \<Rightarrow> string \<Rightarrow> load_config_error + policy_config" where
  "load_policy_file out parse_policy file base_dir =
     (let resolved = resolve_path base_dir file
      in bind_res (read_config out resolved) (\<lambda>raw.
         wrap_error (InvalidPolicyFile resolved) (model_validate parse_policy validate_policy raw)))"

definition policy_part ::
    "outside \<Rightarrow> (json \<Rightarrow> string + policy_config) \<Rightarrow> string option \<Rightarrow> string \<Rightarrow> load_config_error + policy_config option" where
  "policy_part out parse_policy file base_dir =
     (case file of
        None \<Rightarrow> Inr None
      | Some f \<Rightarrow> bind_res (load_policy_file out parse_policy f base_dir) (\<lambda>p. Inr (Some p)))"

definition load_config ::
    "outside \<Rightarrow> (string \<rightharpoonup> string) \<Rightarrow> (json \<Rightarrow> string + portal_config) \<Rightarrow> (json \<Rightarrow> string + policy_config) \<Rightarrow> string
     \<Rightarrow> load_config_error + loaded_config" where
  "load_config out env parse parse_policy path0 =
     (let path = ou_real out path0;
          base_dir = parent_dir path
      in bind_res (read_config out path) (\<lambda>raw.
         bind_res (wrap_error (InvalidConfig path) (model_validate parse validate_portal raw)) (\<lambda>config.
         bind_res (wrap_error CheckFailed (check_header_denylist config)) (\<lambda>_.
         bind_res (wrap_error CheckFailed (collect_secrets (\<lambda>ref. resolve_secret env (ou_read out) ref base_dir) raw [])) (\<lambda>secrets.
         bind_res (policy_part out parse_policy (pc_policy_file config) base_dir) (\<lambda>policy.
         Inr \<lparr>lc_config = config, lc_base_dir = base_dir, lc_secrets = secrets, lc_policy = policy\<rparr>))))))"

section \<open>Facts\<close>

lemma wrap_error_Inr [simp]: "wrap_error f r = Inr x \<longleftrightarrow> r = Inr x"
  by (cases r) (auto simp: wrap_error_def)

lemma model_validate_Inr: "model_validate structure validators raw = Inr y \<longleftrightarrow> (\<exists>x. structure raw = Inr x \<and> validators x = Inr y)"
  by (auto simp: model_validate_def split: sum.splits)

lemma load_policy_file_valid: "load_policy_file out parse_policy file base_dir = Inr p \<Longrightarrow> validate_policy p = Inr p"
  by (auto simp: load_policy_file_def Let_def model_validate_Inr dest: validate_policy_id)

lemma policy_part_Inr:
  "policy_part out parse_policy file base_dir = Inr policy \<longleftrightarrow>
     (case file of None \<Rightarrow> policy = None | Some f \<Rightarrow> \<exists>p. policy = Some p \<and> load_policy_file out parse_policy f base_dir = Inr p)"
  by (auto simp: policy_part_def split: option.splits)

text \<open>Every secret collected is what its reference resolves to.\<close>

lemma collect_resolved:
  "collect_secrets f j out = Inr out' \<Longrightarrow> \<forall>s v. map_of out s = Some v \<longrightarrow> f s = Inr v \<Longrightarrow> \<forall>s v. map_of out' s = Some v \<longrightarrow> f s = Inr v"
  "collect_list f vs out = Inr out' \<Longrightarrow> \<forall>s v. map_of out s = Some v \<longrightarrow> f s = Inr v \<Longrightarrow> \<forall>s v. map_of out' s = Some v \<longrightarrow> f s = Inr v"
  "collect_fields f ps out = Inr out' \<Longrightarrow> \<forall>s v. map_of out s = Some v \<longrightarrow> f s = Inr v \<Longrightarrow> \<forall>s v. map_of out' s = Some v \<longrightarrow> f s = Inr v"
proof (induction f j out and f vs out and f ps out arbitrary: out' and out' and out' rule: collect_secrets_collect_list_collect_fields.induct)
  case (1 resolve s out)
  then show ?case by (auto simp: update_conv' bind_res_eq_Inr split: if_splits)
qed (auto simp: bind_res_eq_Inr)

lemma load_config_Inr:
  assumes "load_config out env parse parse_policy path = Inr l"
  obtains raw c0 where "read_config out (ou_real out path) = Inr raw" "parse raw = Inr c0" "validate_portal c0 = Inr (lc_config l)"
    "check_header_denylist (lc_config l) = Inr ()" "lc_base_dir l = parent_dir (ou_real out path)"
    "collect_secrets (\<lambda>ref. resolve_secret env (ou_read out) ref (lc_base_dir l)) raw [] = Inr (lc_secrets l)"
    "policy_part out parse_policy (pc_policy_file (lc_config l)) (lc_base_dir l) = Inr (lc_policy l)"
  using assms unfolding load_config_def Let_def bind_res_eq_Inr by (auto simp: model_validate_Inr)

section \<open>Properties\<close>

text \<open>C4. A configuration that loads is one that was checked: it is the document at the resolved path, its structure and
  all validators passed, no configured operation lets a caller set a denylisted header, every secret reference
  anywhere in the document has been resolved, relative to the file's own directory, and the policy in force is
  exactly the validated policy file the configuration names.\<close>

theorem load_config_checked:
  assumes "load_config out env parse parse_policy path = Inr l"
  shows "\<exists>raw c0. read_config out (ou_real out path) = Inr raw \<and> parse raw = Inr c0 \<and> validate_portal c0 = Inr (lc_config l)
     \<and> check_header_denylist (lc_config l) = Inr ()
     \<and> (\<forall>ref \<in> strings_of raw. is_secret_ref ref \<longrightarrow>
          (\<exists>v. map_of (lc_secrets l) ref = Some v
             \<and> resolve_secret env (ou_read out) ref (parent_dir (ou_real out path)) = Inr v))
     \<and> (case pc_policy_file (lc_config l) of
          None \<Rightarrow> lc_policy l = None
        | Some file \<Rightarrow> \<exists>p. lc_policy l = Some p \<and> validate_policy p = Inr p
            \<and> load_policy_file out parse_policy file (parent_dir (ou_real out path)) = Inr p)"
proof -
  obtain raw c0 where r: "read_config out (ou_real out path) = Inr raw" "parse raw = Inr c0" "validate_portal c0 = Inr (lc_config l)"
      "check_header_denylist (lc_config l) = Inr ()" and b: "lc_base_dir l = parent_dir (ou_real out path)"
    and c: "collect_secrets (\<lambda>ref. resolve_secret env (ou_read out) ref (lc_base_dir l)) raw [] = Inr (lc_secrets l)"
    and p: "policy_part out parse_policy (pc_policy_file (lc_config l)) (lc_base_dir l) = Inr (lc_policy l)"
    using assms by (rule load_config_Inr)
  have "\<forall>ref \<in> strings_of raw. is_secret_ref ref \<longrightarrow>
          (\<exists>v. map_of (lc_secrets l) ref = Some v
             \<and> resolve_secret env (ou_read out) ref (parent_dir (ou_real out path)) = Inr v)"
    using collect_complete(1) [OF c] collect_resolved(1) [OF c] b by fastforce
  moreover have "case pc_policy_file (lc_config l) of
          None \<Rightarrow> lc_policy l = None
        | Some file \<Rightarrow> \<exists>p. lc_policy l = Some p \<and> validate_policy p = Inr p
            \<and> load_policy_file out parse_policy file (parent_dir (ou_real out path)) = Inr p"
    using p b load_policy_file_valid by (auto simp: policy_part_Inr split: option.splits)
  ultimately show ?thesis using r by blast
qed

section \<open>A configuration that loads\<close>

definition sample_document :: json where
  "sample_document = JObj [(''version'', JStr ''1''), (''secret'', JStr ''${env:S}''), (''value'', JStr ''${file:token}'')]"

definition sample_load_outside :: outside where
  "sample_load_outside =
     \<lparr>ou_get = (\<lambda>_. Inl ''unreachable''),
      ou_read = (\<lambda>p. if p = ''/etc/portal/token'' then Inr (''t'' @ [CHR 0x0A]) else Inr p), ou_real = (\<lambda>p. p),
      ou_yaml = (\<lambda>_. Inr JNull), ou_json = (\<lambda>_. Inr sample_document), ou_bracket_ok = (\<lambda>_. True)\<rparr>"

definition sample_load :: "load_config_error + loaded_config" where
  "sample_load =
     load_config sample_load_outside [''S'' \<mapsto> ''s''] (\<lambda>_. Inr (sample_portal\<lparr>pc_policy_file := Some ''policy.yaml''\<rparr>))
       (\<lambda>_. Inr \<lparr>po_unmatched = Deny, po_rules = []\<rparr>) ''/etc/portal/portal.json''"

lemma sample_load_value:
  "sample_load = Inr \<lparr>lc_config = sample_validated\<lparr>pc_policy_file := Some ''policy.yaml''\<rparr>, lc_base_dir = ''/etc/portal'',
     lc_secrets = [(''${env:S}'', ''s''), (''${file:token}'', ''t'')], lc_policy = Some \<lparr>po_unmatched = Deny, po_rules = []\<rparr>\<rparr>"
  by code_simp

theorem load_config_checked_witness:
  "check_header_denylist (sample_validated\<lparr>pc_policy_file := Some ''policy.yaml''\<rparr>) = Inr ()
   \<and> validate_policy \<lparr>po_unmatched = Deny, po_rules = []\<rparr> = Inr \<lparr>po_unmatched = Deny, po_rules = []\<rparr>"
  using load_config_checked [OF sample_load_value [unfolded sample_load_def]] by (auto simp: sample_validated_def)

end
