(* ===== verification/App.thy ===== *)
theory App
  imports Invoker Introspect LoadConfig
begin

text \<open>
  Wiring (\<open>app.py\<close>): from a loaded configuration to an invoker with one transport per upstream. What the
  running process meets is gathered in \<open>world\<close>: the cache's answers, the token endpoints, \<open>hash\<close>, the
  clock, the upstream's behaviour per attempt, and what introspection reads at startup (\<open>wo_outside\<close>, \<open>wo_ask\<close>, with
  \<open>wo_fuel\<close> the depth of references followed). Log lines, clients and \<open>aclose\<close> are left out.
\<close>

record world =
  wo_cache :: get_or_fetch
  wo_hash_str :: "string \<Rightarrow> int"
  wo_hash_carry :: "auth_detail list \<Rightarrow> int"
  wo_parse_float :: "string \<Rightarrow> rat option"
  wo_endpoint :: token_endpoint
  wo_now :: rat
  wo_loads :: "string \<Rightarrow> json option"
  wo_started :: rat
  wo_env :: "nat \<Rightarrow> attempt_env"
  wo_outside :: outside
  wo_ask :: "string \<Rightarrow> schema_answer"
  wo_fuel :: nat

datatype app_error =
    ConfigFailed config_error
  | IntrospectionFailed introspect_error
  | RegistryFailed registry_error
  | StartupAssertion string

definition lift_config :: "config_error + 'a \<Rightarrow> app_error + 'a" where
  "lift_config r = (case r of Inl e \<Rightarrow> Inl (ConfigFailed e) | Inr x \<Rightarrow> Inr x)"

definition lift_registry :: "registry_error + 'a \<Rightarrow> app_error + 'a" where
  "lift_registry r = (case r of Inl e \<Rightarrow> Inl (RegistryFailed e) | Inr x \<Rightarrow> Inr x)"

definition exchange_source ::
    "(string, string) pydict \<Rightarrow> string \<Rightarrow> outbound_config \<Rightarrow> app_error + token_exchange_source" where
  "exchange_source secrets key outbound =
     (case (ob_token_endpoint outbound, ob_client_id outbound, ob_client_secret outbound) of
        (Some endpoint, Some cid, Some ref) \<Rightarrow>
          (case map_of secrets ref of
             None \<Rightarrow> Inl (ConfigFailed (UnresolvedSecret ref))
           | Some secret \<Rightarrow>
               Inr \<lparr>te_token_endpoint = endpoint, te_client_id = cid, te_client_secret = secret,
                    te_requested_token_type = ob_requested_token_type outbound, te_scopes = ob_scopes outbound,
                    te_upstream_key = key, te_audience = ob_audience outbound, te_resource = ob_resource outbound\<rparr>)
      | _ \<Rightarrow> Inl (StartupAssertion ''token exchange needs endpoint, client id and secret''))"

definition credential_source_for ::
    "world \<Rightarrow> (string, string) pydict \<Rightarrow> string \<Rightarrow> outbound_config \<Rightarrow> app_error + credential_get" where
  "credential_source_for w secrets key outbound =
     (case ob_mode outbound of
        OutClientCredentials \<Rightarrow>
          Inr (cc_get (wo_cache w) (wo_hash_carry w) (wo_parse_float w) (wo_endpoint w) key outbound secrets)
      | OutTokenExchange \<Rightarrow>
          bind_res (exchange_source secrets key outbound) (\<lambda>src.
          Inr (te_get (wo_cache w) (wo_hash_str w) (wo_hash_carry w) (wo_parse_float w) (wo_endpoint w) (wo_now w) src))
      | _ \<Rightarrow> bind_res (lift_config (credential_for outbound secrets)) (\<lambda>c. Inr (static_get c)))"

fun is_http_binding :: "binding \<Rightarrow> bool" where
  "is_http_binding (Http _) = True"
| "is_http_binding (GraphQl _) = False"

definition http_transport :: "world \<Rightarrow> credential_get \<Rightarrow> upstream_config \<Rightarrow> transport" where
  "http_transport w cred up op args carry token expires =
     http_execute cred up op args carry token expires (wo_started w) (wo_env w)"

definition graphql_transport :: "world \<Rightarrow> credential_get \<Rightarrow> upstream_config \<Rightarrow> transport" where
  "graphql_transport w cred up op args carry token expires =
     graphql_execute (wo_loads w) cred up op args carry token expires (wo_started w) (wo_env w)"

definition transport_for ::
    "world \<Rightarrow> operation list \<Rightarrow> string \<Rightarrow> upstream_config \<Rightarrow> credential_get \<Rightarrow> transport" where
  "transport_for w ops key up cred =
     (let mine = filter (\<lambda>op. op_upstream op = key) ops;
          has_http = list_ex (\<lambda>op. is_http_binding (op_binding op)) mine;
          has_graphql = list_ex (\<lambda>op. \<not> is_http_binding (op_binding op)) mine
      in if has_http \<and> has_graphql
         then routed_execute (http_transport w cred up) (graphql_transport w cred up)
         else if has_graphql then graphql_transport w cred up
         else http_transport w cred up)"

definition build_transport ::
    "world \<Rightarrow> (string, string) pydict \<Rightarrow> operation list \<Rightarrow> (string, string) pydict \<Rightarrow> string \<times> upstream_config
     \<Rightarrow> app_error + string \<times> transport" where
  "build_transport w secrets ops base_urls ku =
     bind_res (credential_source_for w secrets (fst ku) (up_outbound (snd ku))) (\<lambda>cred.
     let up = (snd ku)\<lparr>up_base_url := map_of base_urls (fst ku)\<rparr>
     in Inr (fst ku, transport_for w ops (fst ku) up cred))"

definition configured_base_urls :: "portal_config \<Rightarrow> (string, string) pydict" where
  "configured_base_urls config =
     map (\<lambda>(k, u). (k, case up_base_url u of Some b \<Rightarrow> b | None \<Rightarrow> [])) (pc_upstreams config)"

definition default_principal :: "portal_config \<Rightarrow> config_error + principal" where
  "default_principal config =
     (if sv_transport (pc_server config) = Stdio
      then local_principal (au_local_principal (pc_auth config))
      else Inr \<lparr>pi_identity = ''local'', pi_details = [], pi_subject_token = None, pi_expires_at = None\<rparr>)"

definition introspected_part ::
    "world \<Rightarrow> loaded_config \<Rightarrow> app_error + operation list \<times> (string, string) pydict" where
  "introspected_part w loaded =
     (if pc_mode (lc_config loaded) \<noteq> Configured
      then (case introspect_upstreams (wo_outside w) (wo_ask w) (wo_fuel w) (lc_config loaded) (lc_base_dir loaded) of
              Inl e \<Rightarrow> Inl (IntrospectionFailed e)
            | Inr found \<Rightarrow> Inr found)
      else Inr ([], configured_base_urls (lc_config loaded)))"

definition build_app :: "world \<Rightarrow> loaded_config \<Rightarrow> app_error + invoker" where
  "build_app w loaded =
     (let config = lc_config loaded
      in bind_res (introspected_part w loaded) (\<lambda>(introspected, base_urls).
         bind_res (lift_config (explicit_operations config)) (\<lambda>explicit.
         bind_res (lift_config (merge_operations introspected explicit)) (\<lambda>operations.
         bind_res (lift_registry (build_toolset operations config)) (\<lambda>toolset.
         bind_res (lift_config (default_principal config)) (\<lambda>who.
         bind_res (mapM (build_transport w (lc_secrets loaded) (ts_operations toolset) base_urls) (pc_upstreams config)) (\<lambda>transports.
         Inr \<lparr>iv_toolset = toolset, iv_transports = transports,
              iv_policy = (case lc_policy loaded of Some p \<Rightarrow> p | None \<Rightarrow> \<lparr>po_unmatched = Allow, po_rules = []\<rparr>),
              iv_principal = who\<rparr>)))))))"

section \<open>The calls of an invoker\<close>

lemma call_tool_events:
  assumes "call_tool validate portal name args who = (res, evs)" "evs \<noteq> []"
  obtains op execute r where
    "map_of (ts_by_name (iv_toolset portal)) name = Some op"
    "validate (case args of None \<Rightarrow> [] | Some a \<Rightarrow> a) (op_input_schema op) = Valid"
    "pd_allowed (evaluate (iv_policy portal) op (pi_details (case who of Some p \<Rightarrow> p | None \<Rightarrow> iv_principal portal)))"
    "map_of (iv_transports portal) (op_upstream op) = Some execute"
    "execute op (case args of None \<Rightarrow> [] | Some a \<Rightarrow> a)
       (pd_carry (evaluate (iv_policy portal) op (pi_details (case who of Some p \<Rightarrow> p | None \<Rightarrow> iv_principal portal))))
       (pi_subject_token (case who of Some p \<Rightarrow> p | None \<Rightarrow> iv_principal portal))
       (pi_expires_at (case who of Some p \<Rightarrow> p | None \<Rightarrow> iv_principal portal)) = (r, evs)"
  using assms
  by (auto simp: call_tool_def Let_def split: option.splits validation.splits if_splits sum.splits prod.splits)

section \<open>The wiring\<close>

lemma lift_config_Inr [simp]: "lift_config r = Inr x \<longleftrightarrow> r = Inr x"
  by (cases r) (auto simp: lift_config_def)

lemma lift_registry_Inr [simp]: "lift_registry r = Inr x \<longleftrightarrow> r = Inr x"
  by (cases r) (auto simp: lift_registry_def)

lemma build_app_Inr:
  assumes "build_app w loaded = Inr portal"
  obtains introspected base_urls explicit operations where
    "introspected_part w loaded = Inr (introspected, base_urls)"
    "explicit_operations (lc_config loaded) = Inr explicit"
    "merge_operations introspected explicit = Inr operations"
    "build_toolset operations (lc_config loaded) = Inr (iv_toolset portal)"
    "mapM (build_transport w (lc_secrets loaded) (ts_operations (iv_toolset portal)) base_urls)
       (pc_upstreams (lc_config loaded)) = Inr (iv_transports portal)"
    "iv_policy portal = (case lc_policy loaded of Some p \<Rightarrow> p | None \<Rightarrow> \<lparr>po_unmatched = Allow, po_rules = []\<rparr>)"
  using assms unfolding build_app_def Let_def bind_res_eq_Inr case_prod_beta
  by (auto simp: lift_config_Inr lift_registry_Inr)

lemma build_app_principal:
  assumes "build_app w loaded = Inr portal"
  shows "default_principal (lc_config loaded) = Inr (iv_principal portal)"
  using assms unfolding build_app_def Let_def bind_res_eq_Inr case_prod_beta by (auto simp: lift_config_Inr)

lemma transports_lookup:
  assumes "mapM (build_transport w secrets ops base_urls) ups = Inr transports"
    and "map_of transports key = Some execute"
  shows "\<exists>u cred. (key, u) \<in> set ups
           \<and> execute = transport_for w ops key (u\<lparr>up_base_url := map_of base_urls key\<rparr>) cred"
proof -
  have "(key, execute) \<in> set transports" using assms(2) by (rule map_of_SomeD)
  then obtain ku where "ku \<in> set ups" and b: "build_transport w secrets ops base_urls ku = Inr (key, execute)"
    using mapM_mem [OF assms(1)] by blast
  moreover from b have "fst ku = key"
    "\<exists>cred. execute = transport_for w ops (fst ku) ((snd ku)\<lparr>up_base_url := map_of base_urls (fst ku)\<rparr>) cred"
    by (auto simp: build_transport_def Let_def)
  ultimately show ?thesis by (metis prod.collapse)
qed

lemma http_transport_calls:
  assumes "http_transport w cred up op args carry token expires = (r, evs)"
  shows "sends evs \<le> attempts_for op"
    and "is_http_binding (op_binding op) \<Longrightarrow> up_base_url up \<noteq> None \<Longrightarrow> r \<noteq> Inl (AssertionFailed m)"
  using http.attempts_bound [where a = "(op, args, carry, token, expires)" and cred = cred and up = up and started = "wo_started w" and env = "wo_env w"]
    http.asserts_only_in_prep [where a = "(op, args, carry, token, expires)" and cred = cred and up = up and started = "wo_started w" and env = "wo_env w" and m = m] assms
  by (auto simp: http_transport_def http_prepare_def bind_res_eq_Inl get_credential_def lift_build_def
      elim!: is_http_binding.elims split: sum.splits option.splits)

lemma graphql_transport_calls:
  assumes "graphql_transport w cred up op args carry token expires = (r, evs)"
  shows "sends evs \<le> attempts_for op"
    and "\<not> is_http_binding (op_binding op) \<Longrightarrow> up_base_url up \<noteq> None \<Longrightarrow> r \<noteq> Inl (AssertionFailed m)"
  using graphql.attempts_bound [where a = "(op, args, carry, token, expires)" and cred = cred and up = up and started = "wo_started w" and env = "wo_env w" and loads = "wo_loads w"]
    graphql.asserts_only_in_prep [where a = "(op, args, carry, token, expires)" and cred = cred and up = up and started = "wo_started w" and env = "wo_env w" and loads = "wo_loads w" and m = m] assms
  by (auto simp: graphql_transport_def graphql_prepare_def bind_res_eq_Inl get_credential_def
      elim!: is_http_binding.elims split: sum.splits option.splits)

lemma transport_for_calls:
  assumes "transport_for w ops key up cred op args carry token expires = (r, evs)"
  shows "sends evs \<le> attempts_for op"
    and "op \<in> set ops \<Longrightarrow> op_upstream op = key \<Longrightarrow> up_base_url up \<noteq> None \<Longrightarrow> r \<noteq> Inl (AssertionFailed m)"
proof -
  consider "routed_execute (http_transport w cred up) (graphql_transport w cred up) op args carry token expires = (r, evs)"
    | "graphql_transport w cred up op args carry token expires = (r, evs)"
      "op \<in> set ops \<Longrightarrow> op_upstream op = key \<Longrightarrow> \<not> is_http_binding (op_binding op)"
    | "http_transport w cred up op args carry token expires = (r, evs)"
      "op \<in> set ops \<Longrightarrow> op_upstream op = key \<Longrightarrow> is_http_binding (op_binding op)"
    using assms by (auto simp: transport_for_def Let_def list_ex_iff split: if_splits)
  then have "sends evs \<le> attempts_for op
      \<and> (op \<in> set ops \<and> op_upstream op = key \<and> up_base_url up \<noteq> None \<longrightarrow> r \<noteq> Inl (AssertionFailed m))"
  proof cases
    case 1
    then show ?thesis
      using http_transport_calls(1) [of w cred up op args carry token expires r evs] http_transport_calls(2) [of w cred up op args carry token expires r evs m]
        graphql_transport_calls(1) [of w cred up op args carry token expires r evs] graphql_transport_calls(2) [of w cred up op args carry token expires r evs m]
      by (cases "op_binding op") (auto simp: routed_execute_def)
  next
    case 2
    then show ?thesis using graphql_transport_calls [OF 2(1)] by blast
  next
    case 3
    then show ?thesis using http_transport_calls [OF 3(1)] by blast
  qed
  then show "sends evs \<le> attempts_for op"
    and "op \<in> set ops \<Longrightarrow> op_upstream op = key \<Longrightarrow> up_base_url up \<noteq> None \<Longrightarrow> r \<noteq> Inl (AssertionFailed m)"
    by blast+
qed

lemma handle_exec_error_assert: "handle_exec_error name op e = Inl (AssertionFailed m) \<Longrightarrow> e = AssertionFailed m"
  by (auto simp: handle_exec_error_def split: exec_error.splits build_error.splits credential_error.splits)

lemma call_tool_transport:
  assumes "call_tool validate portal name args who = (Inl (AssertionFailed m), evs)"
  obtains op execute carry subject expires where
    "map_of (ts_by_name (iv_toolset portal)) name = Some op"
    "map_of (iv_transports portal) (op_upstream op) = Some execute"
    "execute op (case args of None \<Rightarrow> [] | Some a \<Rightarrow> a) carry subject expires = (Inl (AssertionFailed m), evs)"
  using assms
  by (auto simp: call_tool_def Let_def dest!: handle_exec_error_assert
      split: option.splits validation.splits if_splits sum.splits prod.splits)

lemma base_urls_total:
  assumes "introspected_part w loaded = Inr (introspected, base_urls)"
    and "(key, u) \<in> set (pc_upstreams (lc_config loaded))"
  shows "map_of base_urls key \<noteq> None"
proof -
  have "key \<in> fst ` set (pc_upstreams (lc_config loaded))" using assms(2) by (rule rev_image_eqI) simp
  moreover have "dom (map_of base_urls) = fst ` set (pc_upstreams (lc_config loaded))"
  proof (cases "pc_mode (lc_config loaded) = Configured")
    case True
    then have b: "base_urls = configured_base_urls (lc_config loaded)" using assms(1) by (simp add: introspected_part_def)
    show ?thesis
      unfolding b configured_base_urls_def by (simp add: dom_map_of_conv_image_fst image_image case_prod_beta)
  next
    case False
    then have "introspect_upstreams (wo_outside w) (wo_ask w) (wo_fuel w) (lc_config loaded) (lc_base_dir loaded)
        = Inr (introspected, base_urls)"
      using assms(1) by (simp add: introspected_part_def split: sum.splits)
    then show ?thesis by (rule introspect_upstreams_urls)
  qed
  ultimately show ?thesis by blast
qed

section \<open>Whose headers they are\<close>

text \<open>A header name, in any spelling, that no argument may set: one of the fixed list, or one an upstream's credential goes into.\<close>

definition protected_header :: "portal_config \<Rightarrow> string \<Rightarrow> bool" where
  "protected_header config n \<longleftrightarrow>
     str_lower n \<in> set DENYLISTED_HEADERS \<or> (\<exists>p \<in> set DENYLISTED_PREFIXES. starts_with p (str_lower n))
     \<or> (\<exists>key up. (key, up) \<in> set (pc_upstreams config) \<and> ob_mode (up_outbound up) \<noteq> OutNone
          \<and> str_lower n = str_lower (ob_header (up_outbound up)))"

lemma protected_lower: "str_lower n = str_lower m \<Longrightarrow> protected_header config n = protected_header config m"
  by (simp add: protected_header_def)

lemma protected_denylisted: "protected_header config n \<longleftrightarrow> is_denylisted n (credential_headers_for config)"
proof -
  have "str_lower n \<in> set (credential_headers_for config) \<longleftrightarrow>
      (\<exists>key up. (key, up) \<in> set (pc_upstreams config) \<and> ob_mode (up_outbound up) \<noteq> OutNone
          \<and> str_lower n = str_lower (ob_header (up_outbound up)))"
    by (force simp: credential_headers_for_def)
  then show ?thesis by (auto simp: protected_header_def is_denylisted_def list_ex_iff Let_def)
qed

lemma credential_for_header:
  "credential_for outbound secrets = Inr (Some c) \<Longrightarrow> ob_mode outbound \<noteq> OutNone \<and> cred_header c = ob_header outbound"
  by (auto simp: credential_for_def Let_def split: if_splits option.splits)

lemma dynamic_headers:
  "cc_get cache hash_carry parse endpoint key outbound secrets carry token expires = Inr (Some c) \<Longrightarrow> cred_header c = ''Authorization''"
  "te_get cache hash_str hash_carry parse endpoint now src carry token expires = Inr (Some c) \<Longrightarrow> cred_header c = ''Authorization''"
  by (rule client_credentials.in_header token_exchange.in_header, assumption)+

text \<open>The credential of every source an upstream can have goes into a protected header.\<close>

lemma credential_protected:
  assumes "(key, up) \<in> set (pc_upstreams config)"
    and "credential_source_for w secrets key (up_outbound up) = Inr get" "get carry token expires = Inr (Some c)"
  shows "protected_header config (cred_header c)"
proof (cases "cred_header c = ''Authorization''")
  case True
  moreover have "str_lower ''Authorization'' \<in> set DENYLISTED_HEADERS" by code_simp
  ultimately show ?thesis unfolding protected_header_def by simp
next
  case False
  then have "credential_for (up_outbound up) secrets = Inr (Some c)"
    using assms(2,3) dynamic_headers
    by (fastforce simp: credential_source_for_def static_get_def split: outbound_mode.splits)
  note h = credential_for_header [OF this]
  then have "str_lower (cred_header c) = str_lower (ob_header (up_outbound up))" by simp
  then show ?thesis using h assms(1) unfolding protected_header_def by blast
qed

lemma request_headers_protected:
  assumes "check_operation_headers [op] (credential_headers_for config) = Inr ()" "op_binding op = Http b"
    and "build_request b base args cred = Inr req" "map_of (req_headers req) n = Some v" "protected_header config n"
  shows "(\<exists>c. cred = Some c \<and> n = cred_header c \<and> v = cred_value c)
         \<or> (\<exists>bd. hb_body b = Some bd \<and> n = ''Content-Type'' \<and> v = b_content_type bd)"
  using build_request_headers_form(1) [OF assms(3)] assms(1,2,4,5)
  unfolding protected_denylisted check_operation_headers_Inr by fastforce

section \<open>Properties\<close>

text \<open>C1. Nothing is sent unless it is authorized: when a tool call sends any request, the tool exists, its
  arguments satisfy the tool's schema, the policy allowed the effective principal, and the request
  is the one the operation's transport prepared with the details the decision carries. A denied,
  invalid or unknown call touches no upstream.\<close>

theorem call_sends_only_authorized:
  assumes "call_tool validate portal name args who = (res, evs)" and "evs \<noteq> []"
  shows "\<exists>op execute r.
     map_of (ts_by_name (iv_toolset portal)) name = Some op
     \<and> validate (case args of None \<Rightarrow> [] | Some a \<Rightarrow> a) (op_input_schema op) = Valid
     \<and> pd_allowed (evaluate (iv_policy portal) op (pi_details (case who of Some p \<Rightarrow> p | None \<Rightarrow> iv_principal portal)))
     \<and> map_of (iv_transports portal) (op_upstream op) = Some execute
     \<and> execute op (case args of None \<Rightarrow> [] | Some a \<Rightarrow> a)
         (pd_carry (evaluate (iv_policy portal) op (pi_details (case who of Some p \<Rightarrow> p | None \<Rightarrow> iv_principal portal))))
         (pi_subject_token (case who of Some p \<Rightarrow> p | None \<Rightarrow> iv_principal portal))
         (pi_expires_at (case who of Some p \<Rightarrow> p | None \<Rightarrow> iv_principal portal)) = (r, evs)"
  by (rule call_tool_events [OF assms]) blast

text \<open>C20. End to end, a call of an app that was built sends at most three requests, and at most one when the
  tool's operation is an action; and no assertion of the transports can fail, because each
  upstream's transport was chosen from the bindings of the tools served from it.\<close>

theorem app_calls_bounded:
  assumes "build_app w loaded = Inr portal"
    and "call_tool validate portal name args who = (res, evs)"
  shows "sends evs \<le> 3
         \<and> (\<forall>op. map_of (ts_by_name (iv_toolset portal)) name = Some op \<and> op_effect op = ACTION \<longrightarrow> sends evs \<le> 1)
         \<and> (\<forall>m. res \<noteq> Inl (AssertionFailed m))"
proof -
  obtain introspected base_urls operations where ts: "build_toolset operations (lc_config loaded) = Inr (iv_toolset portal)"
    and tr: "mapM (build_transport w (lc_secrets loaded) (ts_operations (iv_toolset portal)) base_urls)
       (pc_upstreams (lc_config loaded)) = Inr (iv_transports portal)"
    and urls: "introspected_part w loaded = Inr (introspected, base_urls)"
    using assms(1) by (rule build_app_Inr) blast
  have bound: "sends evs \<le> attempts_for op"
    if "map_of (ts_by_name (iv_toolset portal)) name = Some op" for op
  proof (cases "evs = []")
    case False
    then show ?thesis
      by (rule call_tool_events [OF assms(2)]) (use that transports_lookup [OF tr] transport_for_calls(1) in fastforce)
  qed simp
  moreover have "evs = []" if "map_of (ts_by_name (iv_toolset portal)) name = None"
    using assms(2) that by (simp add: call_tool_def)
  moreover have "res \<noteq> Inl (AssertionFailed m)" for m
  proof
    assume "res = Inl (AssertionFailed m)"
    with assms(2) have c: "call_tool validate portal name args who = (Inl (AssertionFailed m), evs)" by simp
    then obtain op execute carry subject expires where
      op: "map_of (ts_by_name (iv_toolset portal)) name = Some op"
      and t: "map_of (iv_transports portal) (op_upstream op) = Some execute"
      and e: "execute op (case args of None \<Rightarrow> [] | Some a \<Rightarrow> a) carry subject expires = (Inl (AssertionFailed m), evs)"
      by (rule call_tool_transport)
    obtain u cred where u: "(op_upstream op, u) \<in> set (pc_upstreams (lc_config loaded))"
      and ex: "execute = transport_for w (ts_operations (iv_toolset portal)) (op_upstream op)
                 (u\<lparr>up_base_url := map_of base_urls (op_upstream op)\<rparr>) cred"
      using transports_lookup [OF tr t] by blast
    have "op \<in> set (ts_operations (iv_toolset portal))"
      using build_toolset_lookup [OF ts] op by blast
    then show False
      using transport_for_calls(2) [OF e [unfolded ex], where m = m] base_urls_total [OF urls u] by auto
  qed
  ultimately show ?thesis
    by (cases "map_of (ts_by_name (iv_toolset portal)) name")
      (auto simp: attempts_for_def MAX_ATTEMPTS_def split: if_splits)
qed

section \<open>A configured app\<close>

definition sample_world :: world where
  "sample_world =
     \<lparr>wo_cache = (\<lambda>_ r. bind_res r (\<lambda>(t, _). Inr t)), wo_hash_str = (\<lambda>_. 0), wo_hash_carry = (\<lambda>_. 0),
      wo_parse_float = (\<lambda>_. None), wo_endpoint = sample_endpoint, wo_now = 0, wo_loads = (\<lambda>_. None),
      wo_started = 0, wo_env = sample_gql_env, wo_outside = sample_api_outside,
      wo_ask = (\<lambda>_. SchemaNoJson []), wo_fuel = 9\<rparr>"

definition sample_app_config :: portal_config where
  "sample_app_config = sample_explicit_config\<lparr>pc_mode := Configured, pc_policy_file := Some ''policy.yaml'',
     pc_selection := \<lparr>se_include_tags = None, se_exclude_tags = [], se_include_ids = None, se_exclude_ids = []\<rparr>\<rparr>"

definition sample_loaded :: loaded_config where
  "sample_loaded =
     \<lparr>lc_config = sample_app_config, lc_base_dir = ''/etc/portal'', lc_secrets = [(''${env:S}'', ''s'')], lc_policy = Some sample_policy\<rparr>"

definition sample_served :: operation where
  "sample_served = sample_explicit_op\<lparr>op_name := ''get''\<rparr>"

definition sample_app :: invoker where
  "sample_app =
     \<lparr>iv_toolset = \<lparr>ts_operations = [sample_served], ts_by_name = [(''get'', sample_served)], ts_warnings = []\<rparr>,
      iv_transports = [(''u'', http_transport sample_world
         (te_get (wo_cache sample_world) (\<lambda>_. 0) (\<lambda>_. 0) (\<lambda>_. None) sample_endpoint 0 sample_source)
         (sample_upstream\<lparr>up_max_total_ms := Some 15000\<rparr>))],
      iv_policy = sample_policy,
      iv_principal = \<lparr>pi_identity = ''local'', pi_details = [], pi_subject_token = None, pi_expires_at = None\<rparr>\<rparr>"

lemma sample_merge: "merge_operations [] [sample_explicit_op] = Inr [sample_explicit_op]"
  by (simp add: merge_operations_Inr)

lemma sample_app_explicit: "explicit_operations sample_app_config = Inr [sample_explicit_op]"
  using sample_explicit_ops by (simp add: explicit_operations_def sample_app_config_def)

lemma sample_app_toolset: "build_toolset [sample_explicit_op] sample_app_config = Inr (iv_toolset sample_app)"
  by code_simp

lemma sample_app_transport:
  "build_transport sample_world (lc_secrets sample_loaded) (ts_operations (iv_toolset sample_app))
     (configured_base_urls sample_app_config) (''u'', sample_upstream\<lparr>up_max_total_ms := Some 15000\<rparr>)
   = Inr (hd (iv_transports sample_app))"
  by (simp add: build_transport_def credential_source_for_def exchange_source_def transport_for_def
      sample_portal_defs sample_explicit_config_def sample_app_config_def configured_base_urls_def sample_loaded_def
      sample_app_def sample_served_def sample_explicit_op_def sample_entry_def sample_source_def Let_def sample_world_def)

lemma sample_build_app: "build_app sample_world sample_loaded = Inr sample_app"
proof -
  let ?l = "sample_loaded"
  have c: "lc_config ?l = sample_app_config" by (simp add: sample_loaded_def)
  have m: "pc_mode sample_app_config = Configured" by (simp add: sample_app_config_def)
  have who: "default_principal sample_app_config = Inr (iv_principal sample_app)"
    by (simp add: default_principal_def sample_app_def sample_app_config_def sample_explicit_config_def sample_portal_defs)
  have ups: "pc_upstreams sample_app_config = [(''u'', sample_upstream\<lparr>up_max_total_ms := Some 15000\<rparr>)]"
    by (simp add: sample_app_config_def sample_explicit_config_def sample_validated_def)
  have tr: "mapM (build_transport sample_world (lc_secrets ?l) (ts_operations (iv_toolset sample_app))
      (configured_base_urls sample_app_config)) (pc_upstreams sample_app_config) = Inr (iv_transports sample_app)"
    unfolding ups using sample_app_transport by (simp add: sample_app_def)
  have "lc_policy ?l = Some sample_policy" by (simp add: sample_loaded_def)
  then show ?thesis
    using tr by (simp add: build_app_def introspected_part_def c m sample_app_explicit sample_merge sample_app_toolset who
        lift_config_def lift_registry_def) (simp add: sample_app_def)
qed

lemma sample_call:
  "call_tool (\<lambda>_ _. Valid) sample_app ''get'' None
     (Some \<lparr>pi_identity = ''c'', pi_details = [sample_detail], pi_subject_token = Some ''x'', pi_expires_at = None\<rparr>)
   = (Inr \<lparr>tl_text = cps ''{}'', tl_is_error = False\<rparr>,
      [Sent \<lparr>req_method = ''GET'', req_url = ''http://u/c'', req_headers = [(''Authorization'', ''Bearer t'')], req_body = None\<rparr>])"
  by code_simp

theorem call_sends_only_authorized_witness: "\<exists>op. map_of (ts_by_name (iv_toolset sample_app)) ''get'' = Some op"
  using call_sends_only_authorized [OF sample_call] by blast

theorem app_calls_bounded_witness:
  "sends [Sent \<lparr>req_method = ''GET'', req_url = ''http://u/c'', req_headers = [(''Authorization'', ''Bearer t'')], req_body = None\<rparr>] \<le> 3"
  using app_calls_bounded [OF sample_build_app sample_call] by simp

end
