(* ===== verification/Startup.thy ===== *)
theory Startup
  imports App
begin

text \<open>
  From the configuration file to the served tools: what \<open>load_config\<close> and \<open>build_app\<close> guarantee together about every
  tool of the running portal.
\<close>

section \<open>Where a served tool comes from\<close>

lemma merged_from:
  assumes "merge_operations introspected explicit = Inr ops" "op \<in> set ops"
  shows "op \<in> set introspected \<or> op \<in> set explicit"
  using assms merge_operations_set [of explicit introspected] unfolding merge_operations_Inr by blast

lemma served_from:
  assumes "build_toolset ops config = Inr ts" "op \<in> set (ts_operations ts)"
  shows "\<exists>op0 \<in> set ops. op_id op = op_id op0 \<and> op_upstream op = op_upstream op0 \<and> op_binding op = op_binding op0"
  using assms(1)
proof (rule build_toolset_Inr)
  fix sel
  assume sel: "sel = filter (selected_spec (pc_selection config))
       (apply_mode_posture (classify_ops ops (pc_classification config)) (pc_mode config))"
    and n: "assign_names sel (naming_options_of (pc_naming config)) = Inr (ts_operations ts)"
  obtain f where "ts_operations ts = map (\<lambda>op. op\<lparr>op_name := f op\<rparr>) sel" using n by (rule assign_names_frame)
  then obtain op1 where s: "op1 \<in> set sel" and o: "op = op1\<lparr>op_name := f op1\<rparr>" using assms(2) by auto
  have "op1 \<in> set (classify_ops ops (pc_classification config))"
    using s posture_subset [of "classify_ops ops (pc_classification config)" "pc_mode config"] by (auto simp: sel)
  then show ?thesis by (auto simp: o classify_ops_def)
qed

lemma explicit_from:
  assumes "explicit_operations config = Inr ops" "op \<in> set ops"
  shows "\<exists>e \<in> set (pc_operations config). op_id op = oe_id e \<and> op_upstream op = oe_upstream e"
proof -
  obtain e where e: "e \<in> set (pc_operations config)" and b: "build_entry e = Inr (Some op)"
    using explicit_operations_entry [OF assms(1,2)] by blast
  have "op_id op = oe_id e \<and> op_upstream op = oe_upstream e"
  proof (cases "oe_binding e")
    case (GraphQlEntry g)
    then show ?thesis using b by (auto simp: build_entry_def build_graphql_op_def Let_def split: sum.splits)
  next
    case (HttpEntry h)
    then have "build_http_op e h = Inr (Some op)" using b by (simp add: build_entry_def)
    then show ?thesis by (rule build_http_op_Inr) simp
  qed
  then show ?thesis using e by blast
qed

lemma explicit_upstream:
  "explicit_operations config = Inr ops \<Longrightarrow> op \<in> set ops \<Longrightarrow> unknown_upstreams config = [] \<Longrightarrow>
     op_upstream op \<in> fst ` set (pc_upstreams config)"
  using explicit_from [of config ops op] by (auto simp: unknown_upstreams_def filter_empty_conv)

lemma transports_domain:
  "mapM (build_transport w secrets ops urls) ups = Inr transports \<Longrightarrow> map fst transports = map fst ups"
  by (induction ups arbitrary: transports) (auto simp: build_transport_def Let_def)

lemma headers_by_binding:
  assumes "op_binding op = op_binding op0" "check_operation_headers [op0] creds = Inr ()"
  shows "check_operation_headers [op] creds = Inr ()"
  using assms unfolding check_operation_headers_Inr by simp

lemma served_tool:
  assumes b: "build_app w loaded = Inr portal" and op: "op \<in> set (ts_operations (iv_toolset portal))"
    and v: "unknown_upstreams (lc_config loaded) = []" and h: "check_header_denylist (lc_config loaded) = Inr ()"
  shows "op_upstream op \<in> fst ` set (pc_upstreams (lc_config loaded))"
    and "check_operation_headers [op] (credential_headers_for (lc_config loaded)) = Inr ()"
proof -
  obtain introspected base_urls explicit operations where
    i: "introspected_part w loaded = Inr (introspected, base_urls)" and e: "explicit_operations (lc_config loaded) = Inr explicit"
    and m: "merge_operations introspected explicit = Inr operations"
    and t: "build_toolset operations (lc_config loaded) = Inr (iv_toolset portal)"
    using b by (rule build_app_Inr)
  obtain op0 where op0: "op0 \<in> set operations" "op_upstream op = op_upstream op0" "op_binding op = op_binding op0"
    using served_from [OF t op] by blast
  have "op_upstream op0 \<in> fst ` set (pc_upstreams (lc_config loaded))
      \<and> check_operation_headers [op0] (credential_headers_for (lc_config loaded)) = Inr ()"
  proof (cases "op0 \<in> set explicit")
    case True
    have "check_operation_headers explicit (credential_headers_for (lc_config loaded)) = Inr ()"
      using h e by (rule explicit_headers_checked)
    then show ?thesis
      using True explicit_upstream [OF e _ v] unfolding check_operation_headers_Inr by simp
  next
    case False
    then have "op0 \<in> set introspected" using merged_from [OF m op0(1)] by blast
    moreover have "introspected = [] \<or> introspect_upstreams (wo_outside w) (wo_ask w) (wo_fuel w) (lc_config loaded) (lc_base_dir loaded) = Inr (introspected, base_urls)"
      using i by (auto simp: introspected_part_def split: if_splits sum.splits)
    ultimately show ?thesis using introspected_operation by (force intro: rev_image_eqI)
  qed
  then show "op_upstream op \<in> fst ` set (pc_upstreams (lc_config loaded))"
    and "check_operation_headers [op] (credential_headers_for (lc_config loaded)) = Inr ()"
    using op0 headers_by_binding by metis+
qed

section \<open>The credentials of a loaded configuration\<close>

definition outbound_refs :: "upstream_config \<Rightarrow> string set" where
  "outbound_refs up = set_option (ob_value (up_outbound up)) \<union> set_option (ob_client_secret (up_outbound up))"

lemma validate_upstream_outbound: "validate_upstream u0 = Inr u \<Longrightarrow> up_outbound u = up_outbound u0"
  by (drule validate_upstream_Inr(1)) simp

lemma validate_portal_outbound:
  assumes "validate_portal c0 = Inr c" "(k, u) \<in> set (pc_upstreams c)"
  shows "\<exists>u0. (k, u0) \<in> set (pc_upstreams c0) \<and> validate_upstream u0 = Inr u"
proof -
  obtain ups where ups: "mapM (\<lambda>(k, u). bind_res (validate_upstream u) (\<lambda>u'. Inr (k, u'))) (pc_upstreams c0) = Inr ups"
    and pv: "portal_validators (c0\<lparr>pc_upstreams := ups\<rparr>) = Inr c"
    using assms(1) by (auto simp: validate_portal_def)
  have "(k, u) \<in> set ups" using portal_validators_Inr(1) [OF pv] assms(2) by simp
  then obtain ku where "ku \<in> set (pc_upstreams c0)"
    "(case ku of (k, u) \<Rightarrow> bind_res (validate_upstream u) (\<lambda>u'. Inr (k, u'))) = Inr (k, u)"
    using mapM_mem [OF ups] by blast
  then show ?thesis by (auto split: prod.splits)
qed

lemma validate_outbound_refs:
  assumes "validate_outbound ob = Inr ob'"
  shows "\<forall>ref \<in> set_option (ob_value ob) \<union> set_option (ob_client_secret ob). is_secret_ref ref"
  using assms by (auto simp: validate_outbound_def opt_all_def split: option.splits if_splits)

text \<open>Each upstream's credential source can be built once its references are resolved.\<close>

lemma credential_source_total:
  assumes "validate_outbound ob = Inr ob" "\<forall>ref \<in> set_option (ob_value ob) \<union> set_option (ob_client_secret ob). map_of secrets ref \<noteq> None"
  shows "\<exists>cred. credential_source_for w secrets key ob = Inr cred"
proof (cases "ob_mode ob")
  case OutTokenExchange
  then obtain endpoint cid ref where "ob_token_endpoint ob = Some endpoint" "ob_client_id ob = Some cid" "ob_client_secret ob = Some ref"
    using validate_outbound_Inr(3) [OF assms(1)] by auto
  then show ?thesis using assms(2) OutTokenExchange by (auto simp: credential_source_for_def exchange_source_def)
next
  case OutStatic
  then obtain ref where "ob_value ob = Some ref" using validate_outbound_Inr(2) [OF assms(1)] by auto
  then show ?thesis using assms(2) OutStatic by (auto simp: credential_source_for_def credential_for_def Let_def lift_config_def split: option.splits)
qed (simp_all add: credential_source_for_def credential_for_def lift_config_def)

lemma build_transports_total:
  assumes "\<And>key u. (key, u) \<in> set ups \<Longrightarrow> \<exists>cred. credential_source_for w secrets key (up_outbound u) = Inr cred"
  shows "\<exists>transports. mapM (build_transport w secrets ops urls) ups = Inr transports"
  using assms
proof (induction ups)
  case (Cons ku ups)
  have "\<exists>cred. credential_source_for w secrets (fst ku) (up_outbound (snd ku)) = Inr cred" by (rule Cons.prems) simp
  then have "\<exists>t. build_transport w secrets ops urls ku = Inr t" by (auto simp: build_transport_def Let_def)
  moreover have "\<exists>ts. mapM (build_transport w secrets ops urls) ups = Inr ts" by (rule Cons.IH) (use Cons.prems in auto)
  ultimately show ?case by auto
qed simp

lemma loaded_credentials:
  assumes l: "load_config out env parse parse_policy path = Inr l"
    and p: "\<And>raw c key u. parse raw = Inr c \<Longrightarrow> (key, u) \<in> set (pc_upstreams c) \<Longrightarrow> outbound_refs u \<subseteq> strings_of raw"
    and u: "(key, u) \<in> set (pc_upstreams (lc_config l))"
  shows "\<exists>cred. credential_source_for w (lc_secrets l) key (up_outbound u) = Inr cred"
proof -
  obtain raw c0 where r: "parse raw = Inr c0" and v: "validate_portal c0 = Inr (lc_config l)"
    and c: "collect_secrets (\<lambda>ref. resolve_secret env (ou_read out) ref (lc_base_dir l)) raw [] = Inr (lc_secrets l)"
    using l by (rule load_config_Inr)
  obtain u0 where u0: "(key, u0) \<in> set (pc_upstreams c0)" "validate_upstream u0 = Inr u"
    using validate_portal_outbound [OF v u] by blast
  have o: "validate_outbound (up_outbound u) = Inr (up_outbound u)" using u0(2) by (rule validate_upstream_Inr)
  have "outbound_refs u \<subseteq> strings_of raw"
    using p [OF r u0(1)] validate_upstream_outbound [OF u0(2)] by (simp add: outbound_refs_def)
  then have "\<forall>ref \<in> outbound_refs u. map_of (lc_secrets l) ref \<noteq> None"
    using collect_complete(1) [OF c] validate_outbound_refs [OF o] unfolding outbound_refs_def by fastforce
  then show ?thesis using credential_source_total [OF o] unfolding outbound_refs_def by blast
qed

text \<open>The errors about credentials: no other step of \<open>build_app\<close> raises them.\<close>

fun credential_problem :: "app_error \<Rightarrow> bool" where
  "credential_problem (ConfigFailed (UnresolvedSecret _)) = True"
| "credential_problem (ConfigFailed StaticWithoutValue) = True"
| "credential_problem (StartupAssertion _) = True"
| "credential_problem _ = False"

lemma explicit_no_credential_problem: "explicit_operations config = Inl e \<Longrightarrow> \<not> credential_problem (ConfigFailed e)"
  by (auto simp: explicit_operations_def build_entry_def build_http_op_def Let_def flatten_config_error_def bind_res_eq_Inl
      dest!: mapM_eq_Inl_ex split: binding_entry.splits sum.splits flatten_error.splits)

lemma build_app_Inl:
  assumes "build_app w l = Inl e" "credential_problem e"
  obtains base_urls and toolset :: toolset where "mapM (build_transport w (lc_secrets l) (ts_operations toolset) base_urls) (pc_upstreams (lc_config l)) = Inl e"
proof -
  have m: "merge_operations i ex = Inl x \<Longrightarrow> \<not> credential_problem (ConfigFailed x)" for x i ex
    by (auto simp: merge_operations_def Let_def split: if_splits)
  have d: "default_principal c = Inl x \<Longrightarrow> \<not> credential_problem (ConfigFailed x)" for x c
    by (auto simp: default_principal_def local_principal_def split: if_splits sum.splits)
  note b = assms(1) [unfolded build_app_def Let_def]
  have "introspected_part w l \<noteq> Inl e"
    using assms(2) by (auto simp: introspected_part_def split: if_splits sum.splits)
  then obtain introspected urls where 1: "introspected_part w l = Inr (introspected, urls)"
    using b by (cases "introspected_part w l") auto
  obtain explicit where 2: "explicit_operations (lc_config l) = Inr explicit"
    using b 1 assms(2) explicit_no_credential_problem by (cases "explicit_operations (lc_config l)") (auto simp: lift_config_def)
  obtain operations where 3: "merge_operations introspected explicit = Inr operations"
    using b 1 2 assms(2) m by (cases "merge_operations introspected explicit") (auto simp: lift_config_def)
  obtain toolset where 4: "build_toolset operations (lc_config l) = Inr toolset"
    using b 1 2 3 assms(2) by (cases "build_toolset operations (lc_config l)") (auto simp: lift_config_def lift_registry_def)
  obtain who where 5: "default_principal (lc_config l) = Inr who"
    using b 1 2 3 4 assms(2) d by (cases "default_principal (lc_config l)") (auto simp: lift_config_def lift_registry_def)
  show thesis
    using b 1 2 3 4 5 by (intro that [of toolset urls]) (simp add: lift_config_def lift_registry_def bind_res_eq_Inl)
qed

section \<open>Properties\<close>

text \<open>C2. From a configuration file that loads to an app that builds, every tool served is confined by the configuration: its
  upstream is configured and has a transport, so no call can end in \<open>no transport configured\<close>, and none of its header
  parameters lets a caller set a denylisted or credential header, whether the tool was configured or introspected.
  (\<open>check_operation_headers\<close>, which the code defines and does not call, states this here; each source makes its own check.)\<close>

theorem served_tools_confined:
  assumes "load_config out env parse parse_policy path = Inr l" and "build_app w l = Inr portal"
    and "op \<in> set (ts_operations (iv_toolset portal))"
  shows "op_upstream op \<in> fst ` set (pc_upstreams (lc_config l))
         \<and> (\<exists>execute. map_of (iv_transports portal) (op_upstream op) = Some execute)
         \<and> check_operation_headers [op] (credential_headers_for (lc_config l)) = Inr ()"
proof -
  obtain raw c0 where v: "validate_portal c0 = Inr (lc_config l)" and h: "check_header_denylist (lc_config l) = Inr ()"
    using assms(1) by (rule load_config_Inr)
  have u: "unknown_upstreams (lc_config l) = []" using portal_validators_Inr(2) [OF validate_portal_Inr(1) [OF v]] .
  note served = served_tool [OF assms(2,3) u h]
  obtain ops urls where m: "mapM (build_transport w (lc_secrets l) ops urls) (pc_upstreams (lc_config l)) = Inr (iv_transports portal)"
    using assms(2) by (rule build_app_Inr)
  have "op_upstream op \<in> fst ` set (iv_transports portal)"
    using served(1) transports_domain [OF m] by (metis list.set_map)
  then have "map_of (iv_transports portal) (op_upstream op) \<noteq> None" by (simp add: map_of_eq_None_iff)
  then show ?thesis using served by blast
qed

text \<open>C15. A configuration that loads has every credential its upstreams need: \<open>build_app\<close> never fails for a secret that was not
  resolved, a static credential without a value or a missing client of a dynamic mode. The hypothesis is Pydantic's:
  the credential references of the typed configuration are strings of the document.\<close>

theorem loaded_credentials_suffice:
  assumes "load_config out env parse parse_policy path = Inr l"
    and "\<And>raw c key u. parse raw = Inr c \<Longrightarrow> (key, u) \<in> set (pc_upstreams c) \<Longrightarrow> outbound_refs u \<subseteq> strings_of raw"
  shows "build_app w l \<noteq> Inl (ConfigFailed (UnresolvedSecret ref))
         \<and> build_app w l \<noteq> Inl (ConfigFailed StaticWithoutValue) \<and> build_app w l \<noteq> Inl (StartupAssertion m)"
proof -
  have "\<not> credential_problem e" if "build_app w l = Inl e" for e
  proof
    assume "credential_problem e"
    with that obtain urls and toolset :: toolset where
      "mapM (build_transport w (lc_secrets l) (ts_operations toolset) urls) (pc_upstreams (lc_config l)) = Inl e"
      by (rule build_app_Inl)
    moreover have "\<exists>ts. mapM (build_transport w (lc_secrets l) (ts_operations toolset) urls) (pc_upstreams (lc_config l)) = Inr ts"
      using loaded_credentials [OF assms] by (rule build_transports_total)
    ultimately show False by simp
  qed
  then show ?thesis by auto
qed

text \<open>C3. A deny-by-default policy file is in force end to end, over both transports: when the loaded policy denies what no rule
  matches, a call of the running portal touches an upstream only if the principal it runs as - the caller's, or over
  stdio, where the call names none, the local principal of the configuration - has authorization details, a rule of
  that file matches the tool, and those details cover every requirement of the rules that match.\<close>

theorem deny_policy_enforced:
  assumes "load_config out env parse parse_policy path = Inr l" and "build_app w l = Inr portal"
    and "lc_policy l = Some p" and "po_unmatched p = Deny"
    and "call_tool validate portal name args who = (res, evs)" and "evs \<noteq> []"
  shows "\<exists>caller op. (case who of Some q \<Rightarrow> caller = q | None \<Rightarrow> default_principal (lc_config l) = Inr caller)
     \<and> pi_details caller \<noteq> [] \<and> map_of (ts_by_name (iv_toolset portal)) name = Some op
     \<and> matching_rules op (po_rules p) \<noteq> [] \<and> (\<forall>r \<in> set (required_for p op). covers r (pi_details caller))"
proof -
  let ?caller = "case who of Some q \<Rightarrow> q | None \<Rightarrow> iv_principal portal"
  have iv: "iv_policy portal = p" using assms(2) by (rule build_app_Inr) (simp add: assms(3))
  have "policy_part out parse_policy (pc_policy_file (lc_config l)) (lc_base_dir l) = Inr (Some p)"
    using assms(1) by (rule load_config_Inr) (simp add: assms(3))
  then have "validate_policy p = Inr p"
    by (auto simp: policy_part_Inr dest: load_policy_file_valid split: option.splits)
  note deny = deny_fails_closed [OF this assms(4)]
  obtain op where op: "map_of (ts_by_name (iv_toolset portal)) name = Some op" "pd_allowed (evaluate p op (pi_details ?caller))"
    by (rule call_tool_events [OF assms(5,6)]) (use iv in auto)
  have "case who of Some q \<Rightarrow> ?caller = q | None \<Rightarrow> default_principal (lc_config l) = Inr ?caller"
    using build_app_principal [OF assms(2)] by (cases who) simp_all
  then show ?thesis using op deny [OF op(2)] allowed_covers [OF op(2)] by blast
qed

text \<open>C21. Credential integrity: no argument of a tool sets a header that belongs to the portal. From a configuration file that
  loads to an app that builds, take any tool served, configured or introspected, and any credential that the source of a
  configured upstream gives, or none. A header of the prepared request whose name, in any spelling, is on the fixed list,
  is the one an upstream's credential goes into, or is that of the credential itself, has the credential's own
  name and value or is the body's \<open>Content-Type\<close>; without a credential it is never sent but as the latter.\<close>

theorem credential_integrity:
  assumes "load_config out env parse parse_policy path = Inr l" and "build_app w l = Inr portal"
    and "op \<in> set (ts_operations (iv_toolset portal))" and "op_binding op = Http b"
    and "(key, up) \<in> set (pc_upstreams (lc_config l))"
    and "credential_source_for w (lc_secrets l) key (up_outbound up) = Inr get" and "get carry token expires = Inr cred"
    and "build_request b base args cred = Inr req" and "map_of (req_headers req) n = Some v"
    and "protected_header (lc_config l) n \<or> (\<exists>c. cred = Some c \<and> str_lower n = str_lower (cred_header c))"
  shows "(\<exists>c. cred = Some c \<and> n = cred_header c \<and> v = cred_value c)
         \<or> (\<exists>bd. hb_body b = Some bd \<and> n = ''Content-Type'' \<and> v = b_content_type bd)"
proof -
  obtain raw c0 where v: "validate_portal c0 = Inr (lc_config l)" and h: "check_header_denylist (lc_config l) = Inr ()"
    using assms(1) by (rule load_config_Inr)
  have u: "unknown_upstreams (lc_config l) = []" using portal_validators_Inr(2) [OF validate_portal_Inr(1) [OF v]] .
  have "protected_header (lc_config l) n"
    using assms(10) credential_protected [OF assms(5,6)] assms(7) protected_lower by blast
  then show ?thesis
    using request_headers_protected [OF _ assms(4,8,9)] served_tool [OF assms(2,3) u h] by blast
qed

section \<open>A portal from its file\<close>

definition sample_parse :: "json \<Rightarrow> string + portal_config" where
  "sample_parse raw = (if raw = JObj [(''client_secret'', JStr ''${env:S}'')] then Inr sample_app_config else Inl ''not this one'')"

lemma sample_portal_loads:
  "load_config (sample_load_outside\<lparr>ou_json := (\<lambda>_. Inr (JObj [(''client_secret'', JStr ''${env:S}'')]))\<rparr>) [''S'' \<mapsto> ''s'']
     sample_parse (\<lambda>_. Inr sample_policy) ''/etc/portal/portal.json'' = Inr sample_loaded"
  by code_simp

theorem served_tools_confined_witness: "check_operation_headers [sample_served] (credential_headers_for sample_app_config) = Inr ()"
  using served_tools_confined [OF sample_portal_loads sample_build_app, of sample_served]
  by (simp add: sample_app_def sample_loaded_def)

theorem loaded_credentials_suffice_witness: "build_app sample_world sample_loaded \<noteq> Inl (ConfigFailed (UnresolvedSecret ''${env:S}''))"
proof -
  have "outbound_refs u \<subseteq> strings_of raw"
    if "sample_parse raw = Inr c" "(key, u) \<in> set (pc_upstreams c)" for raw c key u
    using that by (auto simp: sample_parse_def sample_app_config_def sample_explicit_config_def sample_portal_defs outbound_refs_def split: if_splits)
  then show ?thesis using loaded_credentials_suffice [OF sample_portal_loads] by blast
qed

theorem deny_policy_enforced_witness:
  "\<exists>op. matching_rules op (po_rules sample_policy) \<noteq> [] \<and> (\<forall>r \<in> set (required_for sample_policy op). covers r [sample_detail])"
  using deny_policy_enforced [OF sample_portal_loads sample_build_app _ _ sample_call] by (auto simp: sample_loaded_def sample_policy_def)

theorem credential_integrity_witness:
  "(\<exists>c. Some \<lparr>cred_header = ''Authorization'', cred_value = ''Bearer t''\<rparr> = Some c \<and> ''Authorization'' = cred_header c \<and> ''Bearer t'' = cred_value c)
   \<or> (\<exists>bd. hb_body sample_explicit_binding = Some bd \<and> ''Authorization'' = ''Content-Type'' \<and> ''Bearer t'' = b_content_type bd)"
proof (rule credential_integrity [where op = sample_served and b = sample_explicit_binding and key = "''u''"
      and up = "sample_upstream\<lparr>up_max_total_ms := Some 15000\<rparr>" and carry = "[]" and token = "Some ''x''" and expires = None
      and get = "te_get (wo_cache sample_world) (\<lambda>_. 0) (\<lambda>_. 0) (\<lambda>_. None) sample_endpoint 0 sample_source"
      and base = "''http://u''" and args = "[(''X-T'', JStr ''z'')]", OF sample_portal_loads sample_build_app])
  show "credential_source_for sample_world (lc_secrets sample_loaded) ''u'' (up_outbound (sample_upstream\<lparr>up_max_total_ms := Some 15000\<rparr>))
      = Inr (te_get (wo_cache sample_world) (\<lambda>_. 0) (\<lambda>_. 0) (\<lambda>_. None) sample_endpoint 0 sample_source)"
    by (simp add: credential_source_for_def exchange_source_def sample_portal_defs sample_loaded_def sample_source_def sample_world_def)
  show "te_get (wo_cache sample_world) (\<lambda>_. 0) (\<lambda>_. 0) (\<lambda>_. None) sample_endpoint 0 sample_source [] (Some ''x'') None
      = Inr (Some \<lparr>cred_header = ''Authorization'', cred_value = ''Bearer t''\<rparr>)"
    by code_simp
  show "build_request sample_explicit_binding ''http://u'' [(''X-T'', JStr ''z'')] (Some \<lparr>cred_header = ''Authorization'', cred_value = ''Bearer t''\<rparr>)
      = Inr \<lparr>req_method = ''GET'', req_url = ''http://u/c'', req_headers = [(''X-T'', ''z''), (''Authorization'', ''Bearer t'')], req_body = None\<rparr>"
    by code_simp
qed (simp_all add: sample_served_def sample_explicit_op_def entry_operation_def sample_app_def sample_loaded_def sample_app_config_def
    sample_explicit_config_def sample_validated_def)

end
