(* ===== verification/Inbound.thy ===== *)
theory Inbound
  imports Principal
begin

text \<open>
  Inbound bearer tokens (\<open>auth/inbound.py\<close>): the JWKS cache with its rate limit, and the verification of a
  token. \<open>pyjwt\<close> is two arguments: \<open>unverified_header\<close> (\<open>None\<close> for \<open>InvalidTokenError\<close>) and \<open>decode\<close>, which
  stands for building the key from a JWK and decoding with it (\<open>None\<close> for any \<open>PyJWTError\<close>).
  \<open>parse_int\<close> is \<open>int\<close> on a string. The refresh runs under a lock, so it is one step of the cache;
  \<open>AuthCrash\<close> is an exception that escapes to the server.
\<close>

datatype auth_error = AuthCrash string | DiscoveryFailed string

section \<open>Discovery\<close>

datatype discovery_answer = Unreachable | Answered int "json option"

definition DISCOVERY_SUFFIXES :: "string list" where
  "DISCOVERY_SUFFIXES = [''/.well-known/oauth-authorization-server'', ''/.well-known/openid-configuration'']"

fun try_discovery :: "(string \<Rightarrow> discovery_answer) \<Rightarrow> string \<Rightarrow> string list \<Rightarrow> string \<Rightarrow> auth_error + string" where
  "try_discovery ask base [] issuer = Inl (DiscoveryFailed issuer)"
| "try_discovery ask base (suf # sufs) issuer =
     (case ask (base @ suf) of
        Unreachable \<Rightarrow> try_discovery ask base sufs issuer
      | Answered status body \<Rightarrow>
          if status \<noteq> 200 then try_discovery ask base sufs issuer
          else case body of
              None \<Rightarrow> Inl (AuthCrash ''ValueError'')
            | Some (JObj d) \<Rightarrow>
                (case jget d ''jwks_uri'' JNull of
                   JStr uri \<Rightarrow> Inr uri
                 | _ \<Rightarrow> try_discovery ask base sufs issuer)
            | Some _ \<Rightarrow> Inl (AuthCrash ''AttributeError''))"

definition discover_jwks_uri :: "(string \<Rightarrow> discovery_answer) \<Rightarrow> string \<Rightarrow> auth_error + string" where
  "discover_jwks_uri ask issuer =
     try_discovery ask (str_rstrip_chars (\<lambda>c. c = CHR ''/'') issuer) DISCOVERY_SUFFIXES issuer"

section \<open>The JWKS cache\<close>

text \<open>\<open>jc_last_refresh = None\<close> is minus infinity. An answer is an \<open>httpx.HTTPError\<close> (a bad status included), a
  body that is not JSON, or a document.\<close>

record jwks_cache =
  jc_keys :: "(string, jobj) pydict"
  jc_last_refresh :: "rat option"

datatype jwks_answer = JwksHttpError | JwksNotJson | JwksDocument json

definition JWKS_REFRESH_INTERVAL_S :: rat where
  "JWKS_REFRESH_INTERVAL_S = 60"

fun store_keys :: "json list \<Rightarrow> (string, jobj) pydict \<Rightarrow> (auth_error + unit) \<times> (string, jobj) pydict" where
  "store_keys [] keys = (Inr (), keys)"
| "store_keys (JObj jwk # rest) keys =
     (case jget jwk ''kid'' JNull of
        JStr kid \<Rightarrow> store_keys rest (AList.update kid jwk keys)
      | _ \<Rightarrow> store_keys rest keys)"
| "store_keys (_ # rest) keys = (Inl (AuthCrash ''AttributeError''), keys)"

definition keys_of :: "json \<Rightarrow> auth_error + json list" where
  "keys_of doc =
     (case doc of
        JObj d \<Rightarrow>
          (case jget d ''keys'' (JList []) of
             JList ks \<Rightarrow> Inr ks
           | JObj ks \<Rightarrow> Inr (map (\<lambda>(k, _). JStr k) ks)
           | JStr s \<Rightarrow> Inr (map (\<lambda>c. JStr [c]) s)
           | _ \<Rightarrow> Inl (AuthCrash ''TypeError''))
      | _ \<Rightarrow> Inl (AuthCrash ''AttributeError''))"

definition refresh_due :: "rat \<Rightarrow> jwks_cache \<Rightarrow> bool" where
  "refresh_due now cache =
     (case jc_last_refresh cache of None \<Rightarrow> True | Some t \<Rightarrow> \<not> now - t < JWKS_REFRESH_INTERVAL_S)"

definition maybe_refresh :: "rat \<Rightarrow> jwks_answer \<Rightarrow> jwks_cache \<Rightarrow> (auth_error + unit) \<times> jwks_cache" where
  "maybe_refresh now answer cache =
     (if \<not> refresh_due now cache then (Inr (), cache)
      else case answer of
          JwksHttpError \<Rightarrow> (Inr (), cache\<lparr>jc_last_refresh := Some now\<rparr>)
        | JwksNotJson \<Rightarrow> (Inl (AuthCrash ''ValueError''), cache)
        | JwksDocument doc \<Rightarrow>
            (case keys_of doc of
               Inl e \<Rightarrow> (Inl e, cache)
             | Inr ks \<Rightarrow>
                 (case store_keys ks (jc_keys cache) of
                    (Inl e, keys) \<Rightarrow> (Inl e, cache\<lparr>jc_keys := keys\<rparr>)
                  | (Inr _, keys) \<Rightarrow> (Inr (), \<lparr>jc_keys = keys, jc_last_refresh = Some now\<rparr>))))"

definition key_for :: "string \<Rightarrow> rat \<Rightarrow> jwks_answer \<Rightarrow> jwks_cache \<Rightarrow> (auth_error + jobj option) \<times> jwks_cache" where
  "key_for kid now answer cache =
     (case map_of (jc_keys cache) kid of
        Some key \<Rightarrow> (Inr (Some key), cache)
      | None \<Rightarrow>
          (case maybe_refresh now answer cache of
             (Inl e, cache') \<Rightarrow> (Inl e, cache')
           | (Inr _, cache') \<Rightarrow> (Inr (map_of (jc_keys cache') kid), cache')))"

section \<open>Tokens\<close>

definition scopes_from_claims :: "jobj \<Rightarrow> string list" where
  "scopes_from_claims claims =
     (case jget claims ''scp'' JNull of
        JList ss \<Rightarrow> map py_str ss
      | _ \<Rightarrow>
          (case jget claims ''scope'' JNull of
             JStr s \<Rightarrow> if s \<noteq> [] then str_words s else []
           | _ \<Rightarrow> []))"

definition ACCEPTED_TYP :: "string list" where
  "ACCEPTED_TYP = [''at+jwt'', ''jwt'']"

record jwt_verifier =
  jv_issuer :: string
  jv_audience :: string
  jv_algorithms :: "string list"
  jv_required_scopes :: "string list"
  jv_leeway_s :: rat

definition new_verifier :: "string \<Rightarrow> string \<Rightarrow> string list \<Rightarrow> string list \<Rightarrow> rat \<Rightarrow> jwt_verifier" where
  "new_verifier issuer audience algorithms required leeway =
     \<lparr>jv_issuer = issuer, jv_audience = audience, jv_algorithms = filter (\<lambda>a. a \<noteq> ''none'') algorithms,
      jv_required_scopes = required, jv_leeway_s = leeway\<rparr>"

type_synonym jwt_decode =
  "string \<Rightarrow> jobj \<Rightarrow> string \<Rightarrow> string \<Rightarrow> string \<Rightarrow> rat \<Rightarrow> jobj option"

text \<open>\<open>alg not in self._algorithms\<close>: a list or an object is not hashable.\<close>

fun allowed_alg :: "string list \<Rightarrow> json \<Rightarrow> auth_error + string option" where
  "allowed_alg algs (JStr a) = Inr (if a \<in> set algs then Some a else None)"
| "allowed_alg algs (JList _) = Inl (AuthCrash ''TypeError'')"
| "allowed_alg algs (JObj _) = Inl (AuthCrash ''TypeError'')"
| "allowed_alg algs _ = Inr None"

fun py_int :: "(string \<Rightarrow> int option) \<Rightarrow> json \<Rightarrow> auth_error + int" where
  "py_int parse (JInt i) = Inr i"
| "py_int parse (JBool b) = Inr (if b then 1 else 0)"
| "py_int parse (JFloat q s) = Inr (if q < 0 then - \<lfloor>- q\<rfloor> else \<lfloor>q\<rfloor>)"
| "py_int parse (JStr s) = (case parse s of Some i \<Rightarrow> Inr i | None \<Rightarrow> Inl (AuthCrash ''ValueError''))"
| "py_int parse _ = Inl (AuthCrash ''TypeError'')"

definition access_token_of ::
    "(string \<Rightarrow> int option) \<Rightarrow> jwt_verifier \<Rightarrow> string \<Rightarrow> jobj \<Rightarrow> string list \<Rightarrow> auth_error + access_token" where
  "access_token_of parse_int v token claims scopes =
     bind_res (py_int parse_int (jget claims ''exp'' JNull)) (\<lambda>exp.
     bind_res (case jget claims ''sub'' JNull of
                 JStr s \<Rightarrow> Inr (Some s) | JNull \<Rightarrow> Inr None | _ \<Rightarrow> Inl (AuthCrash ''ValidationError'')) (\<lambda>sub.
     Inr \<lparr>at_token = token,
          at_client_id = py_str (py_or (jget claims ''client_id'' JNull) (py_or (jget claims ''sub'' JNull) (JStr ''unknown''))),
          at_scopes = scopes, at_expires_at = Some exp, at_subject = sub, at_claims = Some claims\<rparr>))"

fun null_or_list :: "json \<Rightarrow> bool" where
  "null_or_list JNull = True"
| "null_or_list (JList _) = True"
| "null_or_list _ = False"

definition verify_claims ::
    "(string \<Rightarrow> int option) \<Rightarrow> jwt_verifier \<Rightarrow> string \<Rightarrow> jobj \<Rightarrow> auth_error + access_token option" where
  "verify_claims parse_int v token claims =
     (let scopes = scopes_from_claims claims
      in if \<not> null_or_list (jget claims ''authorization_details'' JNull) then Inr None
         else if list_ex (\<lambda>s. s \<notin> set scopes) (jv_required_scopes v) then Inr None
         else bind_res (access_token_of parse_int v token claims scopes) (\<lambda>t. Inr (Some t)))"

definition verify_token ::
    "(string \<Rightarrow> jobj option) \<Rightarrow> jwt_decode \<Rightarrow> (string \<Rightarrow> int option) \<Rightarrow> jwt_verifier \<Rightarrow> string \<Rightarrow> rat \<Rightarrow> jwks_answer
     \<Rightarrow> jwks_cache \<Rightarrow> (auth_error + access_token option) \<times> jwks_cache" where
  "verify_token unverified_header decode parse_int v token now answer cache =
     (case unverified_header token of
        None \<Rightarrow> (Inr None, cache)
      | Some header \<Rightarrow>
          (case allowed_alg (jv_algorithms v) (jget header ''alg'' JNull) of
             Inl e \<Rightarrow> (Inl e, cache)
           | Inr None \<Rightarrow> (Inr None, cache)
           | Inr (Some alg) \<Rightarrow>
               (case (jget header ''typ'' (JStr []), jget header ''kid'' JNull) of
                  (JStr typ, kid) \<Rightarrow>
                    if str_lower typ \<notin> set ACCEPTED_TYP then (Inr None, cache)
                    else (case kid of
                            JStr k \<Rightarrow>
                              (case key_for k now answer cache of
                                 (Inl e, cache') \<Rightarrow> (Inl e, cache')
                               | (Inr None, cache') \<Rightarrow> (Inr None, cache')
                               | (Inr (Some jwk), cache') \<Rightarrow>
                                   (case decode token jwk alg (jv_issuer v) (jv_audience v) (jv_leeway_s v) of
                                      None \<Rightarrow> (Inr None, cache')
                                    | Some claims \<Rightarrow> (verify_claims parse_int v token claims, cache')))
                          | _ \<Rightarrow> (Inr None, cache))
                | _ \<Rightarrow> (Inr None, cache))))"

section \<open>The rate limit\<close>

text \<open>A run of lookups, each with the time and the answer a refresh would get; the result is the times of
  the requests made.\<close>

fun refresh_times :: "(string \<times> rat \<times> jwks_answer) list \<Rightarrow> jwks_cache \<Rightarrow> rat list" where
  "refresh_times [] cache = []"
| "refresh_times ((kid, now, answer) # calls) cache =
     (let cache' = snd (key_for kid now answer cache)
      in (if map_of (jc_keys cache) kid = None \<and> refresh_due now cache then [now] else [])
         @ refresh_times calls cache')"

fun jwk_object :: "json \<Rightarrow> bool" where
  "jwk_object (JObj _) = True"
| "jwk_object _ = False"

text \<open>Answers the code copes with: an HTTP error, or a JSON object whose \<open>keys\<close> is a list of objects.\<close>

fun well_formed_answer :: "jwks_answer \<Rightarrow> bool" where
  "well_formed_answer JwksHttpError = True"
| "well_formed_answer JwksNotJson = False"
| "well_formed_answer (JwksDocument doc) =
     (case doc of JObj d \<Rightarrow> (case jget d ''keys'' (JList []) of JList ks \<Rightarrow> list_all jwk_object ks | _ \<Rightarrow> False) | _ \<Rightarrow> False)"

lemma store_keys_objects: "list_all jwk_object ks \<Longrightarrow> \<exists>keys'. store_keys ks keys = (Inr (), keys')"
  by (induction ks keys rule: store_keys.induct) (auto split: json.splits)

lemma maybe_refresh_stamps:
  assumes "well_formed_answer answer" "refresh_due now cache"
  shows "\<exists>keys. maybe_refresh now answer cache = (Inr (), \<lparr>jc_keys = keys, jc_last_refresh = Some now\<rparr>)"
proof (cases answer)
  case (JwksDocument doc)
  then obtain ks where ks: "keys_of doc = Inr ks" "list_all jwk_object ks"
    using assms(1) by (auto simp: keys_of_def split: json.splits)
  then show ?thesis
    using store_keys_objects [OF ks(2), of "jc_keys cache"] assms(2) JwksDocument by (auto simp: maybe_refresh_def)
qed (use assms in \<open>auto simp: maybe_refresh_def intro!: exI [of _ "jc_keys cache"]\<close>)

lemma key_for_stamp:
  assumes "well_formed_answer answer"
  shows "jc_last_refresh (snd (key_for kid now answer cache)) =
     (if map_of (jc_keys cache) kid = None \<and> refresh_due now cache then Some now else jc_last_refresh cache)"
proof (cases "map_of (jc_keys cache) kid = None \<and> refresh_due now cache")
  case True
  then show ?thesis using maybe_refresh_stamps [OF assms, of now cache] by (auto simp: key_for_def)
next
  case False
  then show ?thesis by (auto simp: key_for_def maybe_refresh_def split: option.splits)
qed

lemma refresh_times_spaced:
  assumes "\<forall>(_, _, a) \<in> set calls. well_formed_answer a"
  shows "sorted_wrt (\<lambda>a b. b - a \<ge> JWKS_REFRESH_INTERVAL_S) (refresh_times calls cache)
         \<and> (\<forall>t \<in> set (refresh_times calls cache). \<forall>l. jc_last_refresh cache = Some l \<longrightarrow> t - l \<ge> JWKS_REFRESH_INTERVAL_S)"
  using assms
proof (induction calls cache rule: refresh_times.induct)
  case (2 kid now answer calls cache)
  let ?cache = "snd (key_for kid now answer cache)"
  have ih: "sorted_wrt (\<lambda>a b. b - a \<ge> JWKS_REFRESH_INTERVAL_S) (refresh_times calls ?cache)"
    "\<And>t l. t \<in> set (refresh_times calls ?cache) \<Longrightarrow> jc_last_refresh ?cache = Some l \<Longrightarrow> t - l \<ge> JWKS_REFRESH_INTERVAL_S"
    using "2.IH" "2.prems" by (auto simp: Let_def)
  have stamp: "jc_last_refresh ?cache =
     (if map_of (jc_keys cache) kid = None \<and> refresh_due now cache then Some now else jc_last_refresh cache)"
    using "2.prems" by (intro key_for_stamp) auto
  show ?case
  proof (cases "map_of (jc_keys cache) kid = None \<and> refresh_due now cache")
    case True
    have "t - l \<ge> JWKS_REFRESH_INTERVAL_S" if "t \<in> set (refresh_times calls ?cache)" "jc_last_refresh cache = Some l" for t l
      using ih(2) [of t now] stamp True that by (auto simp: refresh_due_def JWKS_REFRESH_INTERVAL_S_def)
    then show ?thesis
      using ih stamp True by (auto simp: Let_def refresh_due_def not_less)
  next
    case False
    then have e: "refresh_times ((kid, now, answer) # calls) cache = refresh_times calls ?cache"
      "jc_last_refresh ?cache = jc_last_refresh cache"
      using stamp by (auto simp: Let_def)
    show ?thesis unfolding e(1) using ih(1) ih(2) [unfolded e(2)] by blast
  qed
qed simp

lemma refresh_times_known: "t \<in> set (refresh_times calls cache) \<Longrightarrow> \<exists>kid a. (kid, t, a) \<in> set calls"
  by (induction calls cache rule: refresh_times.induct) (auto simp: Let_def split: if_splits)

lemma spaced_length:
  fixes ts :: "rat list"
  assumes "sorted_wrt (\<lambda>a b. b - a \<ge> d) ts" "\<And>t. t \<in> set ts \<Longrightarrow> t \<le> last_t" "ts \<noteq> []"
  shows "of_nat (length ts - 1) * d \<le> last_t - hd ts"
  using assms
proof (induction ts)
  case (Cons a ts)
  show ?case
  proof (cases ts)
    case Nil
    then show ?thesis using Cons.prems(2) [of a] by simp
  next
    case (Cons b bs)
    have ih: "of_nat (length ts - 1) * d \<le> last_t - hd ts"
      by (rule Cons.IH) (use Cons.prems \<open>ts = b # bs\<close> in auto)
    have "b - a \<ge> d" using Cons.prems(1) \<open>ts = b # bs\<close> by simp
    then show ?thesis using ih \<open>ts = b # bs\<close> by (simp add: algebra_simps)
  qed
qed simp

section \<open>Facts about verification\<close>

lemma allowed_alg_Some: "allowed_alg algs j = Inr (Some a) \<Longrightarrow> j = JStr a \<and> a \<in> set algs"
  by (cases j) (auto split: if_splits)

lemma key_for_known:
  assumes "key_for kid now answer cache = (Inr (Some jwk), cache')"
  shows "map_of (jc_keys cache') kid = Some jwk"
  using assms by (auto simp: key_for_def split: option.splits prod.splits sum.splits)

lemma verify_token_Some:
  assumes "verify_token uh decode parse v token now answer cache = (Inr (Some tok), cache')"
  obtains header alg ty kid jwk claims where
    "uh token = Some header" "map_of header ''alg'' = Some (JStr alg)" "alg \<in> set (jv_algorithms v)"
    "jget header ''typ'' (JStr []) = JStr ty" "str_lower ty \<in> set ACCEPTED_TYP"
    "map_of header ''kid'' = Some (JStr kid)" "map_of (jc_keys cache') kid = Some jwk"
    "decode token jwk alg (jv_issuer v) (jv_audience v) (jv_leeway_s v) = Some claims"
    "verify_claims parse v token claims = Inr (Some tok)"
proof -
  obtain header alg where h: "uh token = Some header" "allowed_alg (jv_algorithms v) (jget header ''alg'' JNull) = Inr (Some alg)"
    using assms by (auto simp: verify_token_def split: option.splits sum.splits)
  note a = allowed_alg_Some [OF h(2)]
  then have m: "map_of header ''alg'' = Some (JStr alg)" by (auto simp: jget_def split: option.splits)
  obtain ty kid jwk claims where r:
    "jget header ''kid'' JNull = JStr kid"
    "jget header ''typ'' (JStr []) = JStr ty" "str_lower ty \<in> set ACCEPTED_TYP"
    "key_for kid now answer cache = (Inr (Some jwk), cache')"
    "decode token jwk alg (jv_issuer v) (jv_audience v) (jv_leeway_s v) = Some claims"
    "verify_claims parse v token claims = Inr (Some tok)"
    using assms h by (auto simp: verify_token_def split: json.splits option.splits sum.splits prod.splits if_splits)
  have k: "map_of header ''kid'' = Some (JStr kid)" using r(1) by (auto simp: jget_def split: option.splits)
  show thesis
    using key_for_known [OF r(4)] by (rule that [OF h(1) m conjunct2 [OF a] r(2,3) k _ r(5,6)])
qed

lemma verify_claims_Some:
  assumes "verify_claims parse v token claims = Inr (Some tok)"
  shows "set (jv_required_scopes v) \<subseteq> set (at_scopes tok)" "at_token tok = token" "at_claims tok = Some claims"
    "at_scopes tok = scopes_from_claims claims" "null_or_list (jget claims ''authorization_details'' JNull)"
  using assms by (auto simp: verify_claims_def access_token_of_def Let_def list_ex_iff split: if_splits)

section \<open>Properties\<close>

text \<open>C22. The verifier never answers a token it should not. If \<open>verify_token\<close> returns an access token, then the
  header's \<open>alg\<close> was on the configured list and is not \<open>none\<close>, its \<open>typ\<close> is \<open>at+jwt\<close> or \<open>jwt\<close>, a JWKS key
  for its \<open>kid\<close> decoded the token under the configured issuer, audience and leeway, every required
  scope was granted, and the answer carries exactly the claims that were decoded and the token that was sent.\<close>

theorem verified_token_sound:
  assumes "verify_token unverified_header decode parse (new_verifier issuer audience algorithms required leeway)
             token now answer cache = (Inr (Some tok), cache')"
  shows "\<exists>header alg ty kid jwk claims.
     unverified_header token = Some header \<and> map_of header ''alg'' = Some (JStr alg) \<and> alg \<in> set algorithms \<and> alg \<noteq> ''none''
     \<and> jget header ''typ'' (JStr []) = JStr ty \<and> str_lower ty \<in> {''at+jwt'', ''jwt''}
     \<and> map_of header ''kid'' = Some (JStr kid) \<and> map_of (jc_keys cache') kid = Some jwk
     \<and> decode token jwk alg issuer audience leeway = Some claims
     \<and> set required \<subseteq> set (at_scopes tok) \<and> at_scopes tok = scopes_from_claims claims
     \<and> at_claims tok = Some claims \<and> at_token tok = token"
proof -
  obtain header alg ty kid jwk claims where v:
    "unverified_header token = Some header" "map_of header ''alg'' = Some (JStr alg)"
    "alg \<in> set (jv_algorithms (new_verifier issuer audience algorithms required leeway))"
    "jget header ''typ'' (JStr []) = JStr ty" "str_lower ty \<in> set ACCEPTED_TYP"
    "map_of header ''kid'' = Some (JStr kid)" "map_of (jc_keys cache') kid = Some jwk"
    "decode token jwk alg (jv_issuer (new_verifier issuer audience algorithms required leeway))
       (jv_audience (new_verifier issuer audience algorithms required leeway))
       (jv_leeway_s (new_verifier issuer audience algorithms required leeway)) = Some claims"
    "verify_claims parse (new_verifier issuer audience algorithms required leeway) token claims = Inr (Some tok)"
    by (rule verify_token_Some [OF assms]) blast
  note c = verify_claims_Some [OF v(9)]
  have alg: "alg \<in> set algorithms" "alg \<noteq> ''none''" using v(3) by (auto simp: new_verifier_def)
  have ty: "str_lower ty \<in> {''at+jwt'', ''jwt''}" using v(5) by (simp add: ACCEPTED_TYP_def)
  show ?thesis
    using v(1,2,4,6,7,8) c alg ty by (intro exI conjI) (auto simp: new_verifier_def)
qed

definition sample_verifier :: jwt_verifier where
  "sample_verifier = new_verifier ''https://idp'' ''portal'' [''RS256'', ''none''] [''read''] 60"

definition sample_header :: jobj where
  "sample_header = [(''alg'', JStr ''RS256''), (''typ'', JStr ''JWT''), (''kid'', JStr ''k1'')]"

definition sample_claims :: jobj where
  "sample_claims = [(''exp'', JInt 1700000000), (''sub'', JStr ''alice''), (''scope'', JStr ''read write'')]"

definition sample_answer :: jwks_answer where
  "sample_answer = JwksDocument (JObj [(''keys'', JList [JObj [(''kid'', JStr ''k1'')]])])"

definition sample_verified_token :: access_token where
  "sample_verified_token = \<lparr>at_token = ''tok'', at_client_id = ''alice'', at_scopes = [''read'', ''write''],
     at_expires_at = Some 1700000000, at_subject = Some ''alice'', at_claims = Some sample_claims\<rparr>"

lemma verified_token_sound_witness:
  "\<exists>header alg. fst (verify_token (\<lambda>_. Some sample_header)
          (\<lambda>_ _ alg iss aud leeway. if alg = ''RS256'' \<and> iss = ''https://idp'' \<and> aud = ''portal'' then Some sample_claims else None)
          (\<lambda>_. None) sample_verifier ''tok'' 0 sample_answer \<lparr>jc_keys = [], jc_last_refresh = None\<rparr>) = Inr (Some sample_verified_token)
     \<and> map_of header ''alg'' = Some (JStr alg) \<and> alg \<noteq> ''none'' \<and> at_scopes sample_verified_token = scopes_from_claims sample_claims"
proof -
  let ?dec = "\<lambda>_ _ alg iss aud leeway. if alg = ''RS256'' \<and> iss = ''https://idp'' \<and> aud = ''portal'' then Some sample_claims else None"
  have v: "verify_token (\<lambda>_. Some sample_header) ?dec (\<lambda>_. None) sample_verifier ''tok'' 0 sample_answer
       \<lparr>jc_keys = [], jc_last_refresh = None\<rparr> = (Inr (Some sample_verified_token), \<lparr>jc_keys = [(''k1'', [(''kid'', JStr ''k1'')])], jc_last_refresh = Some 0\<rparr>)"
    by code_simp
  show ?thesis
    using verified_token_sound [OF v [unfolded sample_verifier_def]] v by (auto simp: sample_verified_token_def)
qed

text \<open>C36. A forged \<open>kid\<close> cannot drive unbounded fetches: over any run of key lookups in which the identity
  provider answers with an HTTP error or a proper key set, two requests to the JWKS endpoint are at least 60 seconds
  apart, so a run that ends at \<open>until\<close> makes at most \<open>1 + (until - first) / 60\<close> of them.\<close>

theorem jwks_refresh_rate:
  assumes "\<forall>(_, now, a) \<in> set calls. well_formed_answer a \<and> now \<le> until"
    and "refresh_times calls cache = first # rest"
  shows "sorted_wrt (\<lambda>a b. b - a \<ge> 60) (refresh_times calls cache)
         \<and> of_nat (length (refresh_times calls cache)) \<le> 1 + (until - first) / 60"
proof -
  have w: "\<forall>(_, _, a) \<in> set calls. well_formed_answer a" using assms(1) by auto
  have s: "sorted_wrt (\<lambda>a b. b - a \<ge> 60) (refresh_times calls cache)"
    using conjunct1 [OF refresh_times_spaced [OF w, of cache]] by (simp add: JWKS_REFRESH_INTERVAL_S_def)
  have u: "t \<le> until" if "t \<in> set (refresh_times calls cache)" for t
    using refresh_times_known [OF that] assms(1) by auto
  have "of_nat (length (refresh_times calls cache) - 1) * 60 \<le> until - hd (refresh_times calls cache)"
    using s u assms(2) by (intro spaced_length) auto
  then show ?thesis using s assms(2) by (simp add: field_simps)
qed

definition sample_lookups :: "(string \<times> rat \<times> jwks_answer) list" where
  "sample_lookups = [(''x'', 0, sample_answer), (''y'', 10, JwksHttpError), (''z'', 61, sample_answer), (''k1'', 200, sample_answer)]"

lemma jwks_refresh_rate_witness:
  "refresh_times sample_lookups \<lparr>jc_keys = [], jc_last_refresh = None\<rparr> = [0, 61]
     \<and> of_nat (length (refresh_times sample_lookups \<lparr>jc_keys = [], jc_last_refresh = None\<rparr>)) \<le> 1 + (200 - 0) / (60 :: rat)"
proof
  show e: "refresh_times sample_lookups \<lparr>jc_keys = [], jc_last_refresh = None\<rparr> = [0, 61]" by code_simp
  have "\<forall>(_, now, a) \<in> set sample_lookups. well_formed_answer a \<and> now \<le> 200"
    by (simp add: sample_lookups_def sample_answer_def jget_def)
  then show "of_nat (length (refresh_times sample_lookups \<lparr>jc_keys = [], jc_last_refresh = None\<rparr>)) \<le> 1 + (200 - 0) / (60 :: rat)"
    using jwks_refresh_rate [OF _ e] by blast
qed

end
