(* ===== verification/ServerHttp.thy ===== *)
theory ServerHttp
  imports App Inbound
begin

text \<open>
  Serving over streamable HTTP and over stdio (\<open>server/http.py\<close>, \<open>server/stdio.py\<close>). The \<open>mcp\<close> SDK is outside: it
  routes requests, checks \<open>Host\<close> and \<open>Origin\<close> against the lists computed here, and calls the token verifier; the access token
  of the request (\<open>get_access_token\<close>) is the argument \<open>current\<close>, and \<open>auth_ok\<close> is the validation of \<open>AuthSettings\<close>.
  The verifier that stands in for the real one until startup has found the key set is a state, with its own steps.
\<close>

section \<open>The verifier of the server\<close>

record inbound_verifier =
  ih_verifier :: "(jwt_verifier \<times> string) option"
  ih_jwks :: jwks_cache

datatype http_error =
    HttpAuth auth_error
  | Unresolved
  | HttpAssert string
  | AuthSettingsInvalid string
  | UrlCrash string
  | BadLocal config_error
  | CallFailed exec_error

definition unresolved_verifier :: inbound_verifier where
  "unresolved_verifier = \<lparr>ih_verifier = None, ih_jwks = \<lparr>jc_keys = [], jc_last_refresh = None\<rparr>\<rparr>"

definition resolve_verifier ::
    "(string \<Rightarrow> discovery_answer) \<Rightarrow> inbound_auth_config \<Rightarrow> inbound_verifier \<Rightarrow> http_error + inbound_verifier" where
  "resolve_verifier ask inbound st =
     (case (ia_issuer inbound, ia_audience inbound) of
        (Some issuer, Some audience) \<Rightarrow>
          (let found = (case ia_jwks_uri inbound of
                          Some (c # cs) \<Rightarrow> Inr (c # cs)
                        | _ \<Rightarrow> discover_jwks_uri ask issuer)
           in case found of
                Inl e \<Rightarrow> Inl (HttpAuth e)
              | Inr uri \<Rightarrow>
                  Inr \<lparr>ih_verifier = Some (new_verifier issuer audience (ia_algorithms inbound)
                         (ia_required_scopes inbound) (ia_leeway_s inbound), uri),
                       ih_jwks = \<lparr>jc_keys = [], jc_last_refresh = None\<rparr>\<rparr>)
      | _ \<Rightarrow> Inl (HttpAssert ''issuer and audience''))"

definition release_verifier :: "inbound_verifier \<Rightarrow> inbound_verifier" where
  "release_verifier st = st\<lparr>ih_verifier := None\<rparr>"

text \<open>\<open>pyjwt\<close>, \<open>int\<close> on a string, and what the key set endpoint answers at a time.\<close>

record token_outside =
  to_header :: "string \<Rightarrow> jobj option"
  to_decode :: jwt_decode
  to_int :: "string \<Rightarrow> int option"

definition inbound_verify ::
    "token_outside \<Rightarrow> string \<Rightarrow> rat \<Rightarrow> jwks_answer \<Rightarrow> inbound_verifier
     \<Rightarrow> (http_error + access_token option) \<times> inbound_verifier" where
  "inbound_verify jwt token now answer st =
     (case ih_verifier st of
        None \<Rightarrow> (Inl Unresolved, st)
      | Some (v, uri) \<Rightarrow>
          (case verify_token (to_header jwt) (to_decode jwt) (to_int jwt) v token now answer (ih_jwks st) of
             (Inl e, cache) \<Rightarrow> (Inl (HttpAuth e), st\<lparr>ih_jwks := cache\<rparr>)
           | (Inr r, cache) \<Rightarrow> (Inr r, st\<lparr>ih_jwks := cache\<rparr>)))"

text \<open>The life of a server: started, asked for tokens, stopped. \<open>served uri\<close> is what the key set endpoint at \<open>uri\<close> may answer;
  the cache of a verifier only ever asks the endpoint it was made for.\<close>

type_synonym key_sets = "string \<Rightarrow> jwks_answer set"

definition endpoint_answers :: "key_sets \<Rightarrow> inbound_verifier \<Rightarrow> jwks_answer \<Rightarrow> bool" where
  "endpoint_answers served st answer \<longleftrightarrow> (\<forall>v uri. ih_verifier st = Some (v, uri) \<longrightarrow> answer \<in> served uri)"

inductive serving :: "token_outside \<Rightarrow> key_sets \<Rightarrow> inbound_auth_config \<Rightarrow> inbound_verifier \<Rightarrow> bool" for jwt served inbound where
  built: "serving jwt served inbound unresolved_verifier"
| started: "serving jwt served inbound st \<Longrightarrow> resolve_verifier ask inbound st = Inr st' \<Longrightarrow> serving jwt served inbound st'"
| asked: "serving jwt served inbound st \<Longrightarrow> endpoint_answers served st answer
          \<Longrightarrow> inbound_verify jwt token now answer st = (r, st') \<Longrightarrow> serving jwt served inbound st'"
| stopped: "serving jwt served inbound st \<Longrightarrow> serving jwt served inbound (release_verifier st)"

section \<open>Security settings\<close>

definition bind_host :: "string \<Rightarrow> string" where
  "bind_host host = (if CHR '':'' \<in> set host \<and> \<not> starts_with ''['' host then ''['' @ host @ '']'' else host)"

definition bind_hosts :: "http_server_config \<Rightarrow> string list" where
  "bind_hosts http =
     (if hs_host http \<in> set LOOPBACK_HOSTS then [''127.0.0.1:*'', ''localhost:*'', ''[::1]:*'']
      else [bind_host (hs_host http) @ '':'' @ int_str (hs_port http), bind_host (hs_host http)])"

definition audience_hosts :: "(string \<Rightarrow> bool) \<Rightarrow> string \<Rightarrow> http_error + string list" where
  "audience_hosts bracket_ok audience =
     (case urlsplit bracket_ok audience of
        None \<Rightarrow> Inl (UrlCrash ''ValueError'')
      | Some (scheme, netloc) \<Rightarrow>
          (case url_hostname netloc of
             None \<Rightarrow> Inr []
           | Some host \<Rightarrow>
               (case url_port netloc of
                  None \<Rightarrow> Inl (UrlCrash ''ValueError'')
                | Some None \<Rightarrow> Inr [host]
                | Some (Some port) \<Rightarrow> Inr [host, host @ '':'' @ nat_str port])))"

definition allowed_hosts_of :: "(string \<Rightarrow> bool) \<Rightarrow> portal_config \<Rightarrow> http_error + string list" where
  "allowed_hosts_of bracket_ok config =
     (let http = sv_http (pc_server config); inbound = au_inbound (pc_auth config);
          hosts = bind_hosts http @ hs_allowed_hosts http
      in case (ia_enabled inbound, ia_audience inbound) of
           (True, Some audience) \<Rightarrow> bind_res (audience_hosts bracket_ok audience) (\<lambda>hs. Inr (hosts @ hs))
         | _ \<Rightarrow> Inr hosts)"

definition auth_settings :: "(string \<Rightarrow> string \<Rightarrow> bool) \<Rightarrow> inbound_auth_config \<Rightarrow> http_error + string \<times> string \<times> string list option" where
  "auth_settings auth_ok inbound =
     (case (ia_issuer inbound, ia_audience inbound) of
        (Some issuer, Some audience) \<Rightarrow>
          if auth_ok issuer audience
          then Inr (issuer, audience, if ia_required_scopes inbound = [] then None else Some (ia_required_scopes inbound))
          else Inl (AuthSettingsInvalid audience)
      | _ \<Rightarrow> Inl (HttpAssert ''issuer and audience''))"

record http_app =
  ha_path :: string
  ha_stateless :: bool
  ha_idle_timeout :: rat
  ha_max_sessions :: int
  ha_allowed_hosts :: "string list"
  ha_allowed_origins :: "string list"
  ha_auth :: "(string \<times> string \<times> string list option) option"
  ha_verifier :: "inbound_verifier option"

definition build_http_app ::
    "(string \<Rightarrow> bool) \<Rightarrow> (string \<Rightarrow> string \<Rightarrow> bool) \<Rightarrow> rat \<Rightarrow> int \<Rightarrow> portal_config \<Rightarrow> http_error + http_app" where
  "build_http_app bracket_ok auth_ok default_idle default_sessions config =
     (let http = sv_http (pc_server config); inbound = au_inbound (pc_auth config)
      in bind_res (allowed_hosts_of bracket_ok config) (\<lambda>hosts.
         bind_res (if ia_enabled inbound then bind_res (auth_settings auth_ok inbound) (\<lambda>a. Inr (Some a)) else Inr None) (\<lambda>auth.
         Inr \<lparr>ha_path = hs_path http, ha_stateless = False,
              ha_idle_timeout = (case hs_session_idle_timeout_s http of Some t \<Rightarrow> t | None \<Rightarrow> default_idle),
              ha_max_sessions = (case hs_max_sessions http of Some n \<Rightarrow> n | None \<Rightarrow> default_sessions),
              ha_allowed_hosts = hosts, ha_allowed_origins = hs_allowed_origins http, ha_auth = auth,
              ha_verifier = (if ia_enabled inbound then Some unresolved_verifier else None)\<rparr>)))"

section \<open>The handlers\<close>

definition list_tools :: "invoker \<Rightarrow> mcp_tool list" where
  "list_tools portal = invoker_tools portal"

definition http_call_tool ::
    "validator \<Rightarrow> portal_config \<Rightarrow> invoker \<Rightarrow> access_token option \<Rightarrow> string \<Rightarrow> jobj option
     \<Rightarrow> (http_error + tool_result) \<times> event list" where
  "http_call_tool validate config portal current name args =
     (case principal_for_request config current of
        Inl e \<Rightarrow> (Inl (BadLocal e), [])
      | Inr None \<Rightarrow> (Inr (error_result (''authorization denied for '' @ str_repr name)), [])
      | Inr (Some who) \<Rightarrow>
          (case call_tool validate portal name args (Some who) of
             (Inl e, evs) \<Rightarrow> (Inl (CallFailed e), evs)
           | (Inr res, evs) \<Rightarrow> (Inr res, evs)))"

definition stdio_call_tool ::
    "validator \<Rightarrow> invoker \<Rightarrow> string \<Rightarrow> jobj option \<Rightarrow> (exec_error + tool_result) \<times> event list" where
  "stdio_call_tool validate portal name args = call_tool validate portal name args None"

section \<open>Facts\<close>

text \<open>Whatever has happened to the verifier, it is unresolved or the one the configuration describes.\<close>

lemma serving_verifier:
  assumes "serving jwt served inbound st" "ih_verifier st = Some (v, uri)"
  shows "\<exists>issuer audience. ia_issuer inbound = Some issuer \<and> ia_audience inbound = Some audience
           \<and> v = new_verifier issuer audience (ia_algorithms inbound) (ia_required_scopes inbound) (ia_leeway_s inbound)
           \<and> (\<forall>u. ia_jwks_uri inbound = Some u \<and> u \<noteq> [] \<longrightarrow> uri = u)"
  using assms
proof (induction arbitrary: v uri rule: serving.induct)
  case built
  then show ?case by (simp add: unresolved_verifier_def)
next
  case (started st ask st')
  then show ?case by (auto simp: resolve_verifier_def Let_def split: option.splits list.splits sum.splits)
next
  case (asked st answer token now r st')
  then have "ih_verifier st' = ih_verifier st"
    by (auto simp: inbound_verify_def split: option.splits prod.splits sum.splits)
  then show ?case using asked.IH asked.prems by metis
next
  case (stopped st)
  then show ?case by (simp add: release_verifier_def)
qed

text \<open>A key of the cache is one an answer listed under its own \<open>kid\<close>.\<close>

definition lists_key :: "jwks_answer \<Rightarrow> string \<Rightarrow> jobj \<Rightarrow> bool" where
  "lists_key answer kid jwk \<longleftrightarrow>
     (\<exists>doc ks. answer = JwksDocument doc \<and> keys_of doc = Inr ks \<and> JObj jwk \<in> set ks \<and> map_of jwk ''kid'' = Some (JStr kid))"

lemma store_keys_listed:
  assumes "store_keys ks keys = (r, keys')" "map_of keys' kid = Some jwk"
  shows "map_of keys kid = Some jwk \<or> JObj jwk \<in> set ks \<and> map_of jwk ''kid'' = Some (JStr kid)"
  using assms
proof (induction ks keys rule: store_keys.induct)
  case (2 jwk0 rest keys)
  then show ?case by (cases "jget jwk0 ''kid'' JNull") (auto simp: jget_def update_conv' split: option.splits if_splits)
qed auto

lemma maybe_refresh_listed:
  assumes "maybe_refresh now answer cache = (r, cache')" "map_of (jc_keys cache') kid = Some jwk"
  shows "map_of (jc_keys cache) kid = Some jwk \<or> lists_key answer kid jwk"
  using assms
  by (auto simp: maybe_refresh_def lists_key_def split: if_splits jwks_answer.splits sum.splits prod.splits dest!: store_keys_listed)

lemma key_for_listed:
  assumes "key_for k now answer cache = (r, cache')" "map_of (jc_keys cache') kid = Some jwk"
  shows "map_of (jc_keys cache) kid = Some jwk \<or> lists_key answer kid jwk"
  using assms by (auto simp: key_for_def split: option.splits prod.splits sum.splits dest!: maybe_refresh_listed)

lemma verify_token_listed:
  assumes "verify_token uh decode parse v token now answer cache = (r, cache')" "map_of (jc_keys cache') kid = Some jwk"
  shows "map_of (jc_keys cache) kid = Some jwk \<or> lists_key answer kid jwk"
  using assms key_for_listed
  by (auto simp: verify_token_def split: option.splits sum.splits json.splits prod.splits if_splits)

lemma inbound_verify_listed:
  assumes "inbound_verify jwt token now answer st = (r, st')" "endpoint_answers served st answer"
    and "ih_verifier st' = Some (v, uri)" "map_of (jc_keys (ih_jwks st')) kid = Some jwk"
  shows "ih_verifier st = Some (v, uri)
         \<and> (map_of (jc_keys (ih_jwks st)) kid = Some jwk \<or> (\<exists>a \<in> served uri. lists_key a kid jwk))"
  using assms verify_token_listed
  by (fastforce simp: inbound_verify_def endpoint_answers_def split: option.splits prod.splits sum.splits)

lemma serving_keys:
  assumes "serving jwt served inbound st" "ih_verifier st = Some (v, uri)" "map_of (jc_keys (ih_jwks st)) kid = Some jwk"
  shows "\<exists>a \<in> served uri. lists_key a kid jwk"
  using assms
proof (induction arbitrary: v uri rule: serving.induct)
  case (started st ask st')
  then show ?case by (auto simp: resolve_verifier_def Let_def split: option.splits list.splits sum.splits)
next
  case (asked st answer token now r st')
  then show ?case using inbound_verify_listed [OF asked.hyps(3,2) asked.prems] by blast
qed (simp_all add: unresolved_verifier_def release_verifier_def)

lemma inbound_verify_Some:
  assumes "inbound_verify jwt token now answer st = (Inr (Some tok), st')"
  obtains v uri cache where "ih_verifier st = Some (v, uri)" "st' = st\<lparr>ih_jwks := cache\<rparr>"
    "verify_token (to_header jwt) (to_decode jwt) (to_int jwt) v token now answer (ih_jwks st) = (Inr (Some tok), cache)"
  using assms by (auto simp: inbound_verify_def split: option.splits prod.splits sum.splits)

text \<open>A token the server accepted, at any point of its life.\<close>

definition accepted :: "token_outside \<Rightarrow> key_sets \<Rightarrow> inbound_auth_config \<Rightarrow> access_token \<Rightarrow> bool" where
  "accepted jwt served inbound tok \<longleftrightarrow>
     (\<exists>token now answer st st'. serving jwt served inbound st \<and> endpoint_answers served st answer
        \<and> inbound_verify jwt token now answer st = (Inr (Some tok), st'))"

lemma accepted_token:
  assumes "accepted jwt served inbound tok"
  obtains issuer audience header alg kid jwk uri answer claims where
    "ia_issuer inbound = Some issuer" "ia_audience inbound = Some audience"
    "to_header jwt (at_token tok) = Some header" "map_of header ''alg'' = Some (JStr alg)"
    "alg \<in> set (ia_algorithms inbound)" "alg \<noteq> ''none''" "map_of header ''kid'' = Some (JStr kid)"
    "\<forall>u. ia_jwks_uri inbound = Some u \<and> u \<noteq> [] \<longrightarrow> uri = u" "answer \<in> served uri" "lists_key answer kid jwk"
    "to_decode jwt (at_token tok) jwk alg issuer audience (ia_leeway_s inbound) = Some claims"
    "set (ia_required_scopes inbound) \<subseteq> set (scopes_from_claims claims)" "at_claims tok = Some claims"
proof -
  obtain token now answer st st' where s: "serving jwt served inbound st" and e: "endpoint_answers served st answer"
    and i: "inbound_verify jwt token now answer st = (Inr (Some tok), st')"
    using assms unfolding accepted_def by blast
  obtain v uri cache where v: "ih_verifier st = Some (v, uri)" and st': "st' = st\<lparr>ih_jwks := cache\<rparr>"
    and t: "verify_token (to_header jwt) (to_decode jwt) (to_int jwt) v token now answer (ih_jwks st) = (Inr (Some tok), cache)"
    using i by (rule inbound_verify_Some)
  obtain issuer audience where c: "ia_issuer inbound = Some issuer" "ia_audience inbound = Some audience"
    and nv: "v = new_verifier issuer audience (ia_algorithms inbound) (ia_required_scopes inbound) (ia_leeway_s inbound)"
    and u: "\<forall>u. ia_jwks_uri inbound = Some u \<and> u \<noteq> [] \<longrightarrow> uri = u"
    using serving_verifier [OF s v] by blast
  obtain header alg kid jwk claims where h: "to_header jwt token = Some header" "map_of header ''alg'' = Some (JStr alg)"
      "alg \<in> set (jv_algorithms v)" "map_of header ''kid'' = Some (JStr kid)" "map_of (jc_keys cache) kid = Some jwk"
      "to_decode jwt token jwk alg (jv_issuer v) (jv_audience v) (jv_leeway_s v) = Some claims"
      "verify_claims (to_int jwt) v token claims = Inr (Some tok)"
    using t by (rule verify_token_Some) blast
  have "serving jwt served inbound st'" using s e i by (rule serving.asked)
  then obtain a where a: "a \<in> served uri" "lists_key a kid jwk"
    using serving_keys [of jwt served inbound st' v uri kid jwk] v h(5) by (auto simp: st')
  note vc = verify_claims_Some [OF h(7)]
  show thesis
    using h(1-4,6) vc u a unfolding nv new_verifier_def by (intro that [OF c, where uri = uri and answer = a and kid = kid and jwk = jwk]) auto
qed

section \<open>Properties\<close>

text \<open>C5. Over HTTP with inbound authentication, nothing reaches an upstream without a verified token. The hypothesis on \<open>current\<close>
  is the SDK's: the token of a request is one the server's verifier accepted, at some point of its life. If a call sends any
  request, the \<open>kid\<close> of the token's header names a key that the server's own key set endpoint - the configured
  \<open>jwks_uri\<close>, when there is one - listed under that \<open>kid\<close>; the token was decoded with that key, under the configured
  issuer, audience and leeway and an allowed algorithm other than \<open>none\<close>; every required scope is in its claims; and the
  policy allowed the tool for exactly the authorization details of those claims.\<close>

theorem http_call_needs_verified_token:
  assumes "ia_enabled (au_inbound (pc_auth config))"
    and "\<And>tok. current = Some tok \<Longrightarrow> accepted jwt served (au_inbound (pc_auth config)) tok"
    and "http_call_tool validate config portal current name args = (res, evs)" and "evs \<noteq> []"
  shows "\<exists>tok issuer audience header alg kid jwk uri answer claims details op.
     current = Some tok \<and> ia_issuer (au_inbound (pc_auth config)) = Some issuer
     \<and> ia_audience (au_inbound (pc_auth config)) = Some audience
     \<and> to_header jwt (at_token tok) = Some header \<and> map_of header ''alg'' = Some (JStr alg)
     \<and> alg \<in> set (ia_algorithms (au_inbound (pc_auth config))) \<and> alg \<noteq> ''none''
     \<and> map_of header ''kid'' = Some (JStr kid)
     \<and> (\<forall>u. ia_jwks_uri (au_inbound (pc_auth config)) = Some u \<and> u \<noteq> [] \<longrightarrow> uri = u)
     \<and> answer \<in> served uri \<and> lists_key answer kid jwk
     \<and> to_decode jwt (at_token tok) jwk alg issuer audience (ia_leeway_s (au_inbound (pc_auth config))) = Some claims
     \<and> set (ia_required_scopes (au_inbound (pc_auth config))) \<subseteq> set (scopes_from_claims claims)
     \<and> parse_authorization_details (jget claims ''authorization_details'' (JList [])) = Inr details
     \<and> map_of (ts_by_name (iv_toolset portal)) name = Some op \<and> pd_allowed (evaluate (iv_policy portal) op details)"
proof -
  let ?in = "au_inbound (pc_auth config)"
  obtain tok who where tok: "current = Some tok" and p: "principal_from_access_token tok = Some who"
    and c: "\<exists>r. call_tool validate portal name args (Some who) = (r, evs)"
    using assms(1,3,4) by (auto simp: http_call_tool_def principal_for_request_def split: option.splits prod.splits sum.splits)
  obtain issuer audience header alg kid jwk uri answer claims where a:
    "ia_issuer ?in = Some issuer" "ia_audience ?in = Some audience"
    "to_header jwt (at_token tok) = Some header" "map_of header ''alg'' = Some (JStr alg)"
    "alg \<in> set (ia_algorithms ?in)" "alg \<noteq> ''none''" "map_of header ''kid'' = Some (JStr kid)"
    "\<forall>u. ia_jwks_uri ?in = Some u \<and> u \<noteq> [] \<longrightarrow> uri = u" "answer \<in> served uri" "lists_key answer kid jwk"
    "to_decode jwt (at_token tok) jwk alg issuer audience (ia_leeway_s ?in) = Some claims"
    "set (ia_required_scopes ?in) \<subseteq> set (scopes_from_claims claims)" "at_claims tok = Some claims"
    using assms(2) [OF tok] by (rule accepted_token)
  have d: "parse_authorization_details (jget claims ''authorization_details'' (JList [])) = Inr (pi_details who)"
    using principal_from_access_token_Some [OF p] a(13) by simp
  obtain r where "call_tool validate portal name args (Some who) = (r, evs)" using c by blast
  then obtain op where "map_of (ts_by_name (iv_toolset portal)) name = Some op" "pd_allowed (evaluate (iv_policy portal) op (pi_details who))"
    using assms(4) by (rule call_tool_events) simp
  then show ?thesis using tok a(1-12) d by blast
qed

definition sample_jwt :: token_outside where
  "sample_jwt =
     \<lparr>to_header = (\<lambda>_. Some sample_header),
      to_decode = (\<lambda>_ _ _ iss aud _. if iss = ''https://as'' \<and> aud = ''portal''
                     then Some (sample_claims @ [(''authorization_details'', JList [detail_json sample_detail])]) else None),
      to_int = (\<lambda>_. None)\<rparr>"

definition sample_http_token :: access_token where
  "sample_http_token = sample_verified_token\<lparr>at_claims := Some (sample_claims @ [(''authorization_details'', JList [detail_json sample_detail])])\<rparr>"

definition sample_http_inbound :: inbound_auth_config where
  "sample_http_inbound = sample_inbound\<lparr>ia_jwks_uri := Some ''https://as/jwks'', ia_required_scopes := [''read'']\<rparr>"

definition sample_resolved :: inbound_verifier where
  "sample_resolved =
     \<lparr>ih_verifier = Some (new_verifier ''https://as'' ''portal'' [''RS256''] [''read''] 30, ''https://as/jwks''),
      ih_jwks = \<lparr>jc_keys = [], jc_last_refresh = None\<rparr>\<rparr>"

definition sample_key_sets :: key_sets where
  "sample_key_sets = (\<lambda>uri. if uri = ''https://as/jwks'' then {sample_answer} else {})"

lemma sample_accepted: "accepted sample_jwt sample_key_sets sample_http_inbound sample_http_token"
proof -
  have "resolve_verifier (\<lambda>_. Unreachable) sample_http_inbound unresolved_verifier = Inr sample_resolved"
    by (simp add: resolve_verifier_def sample_http_inbound_def sample_inbound_def sample_resolved_def)
  then have "serving sample_jwt sample_key_sets sample_http_inbound sample_resolved" by (rule serving.started [OF serving.built])
  moreover have "fst (inbound_verify sample_jwt ''tok'' 0 sample_answer sample_resolved) = Inr (Some sample_http_token)"
    by code_simp
  moreover have "endpoint_answers sample_key_sets sample_resolved sample_answer"
    by (simp add: endpoint_answers_def sample_resolved_def sample_key_sets_def)
  ultimately show ?thesis unfolding accepted_def by (metis prod.collapse)
qed

definition sample_http_config :: portal_config where
  "sample_http_config =
     sample_app_config\<lparr>pc_auth := \<lparr>au_local_principal = \<lparr>lp_authorization_details = []\<rparr>, au_inbound = sample_http_inbound\<rparr>\<rparr>"

lemma sample_http_call:
  "snd (http_call_tool (\<lambda>_ _. Valid) sample_http_config sample_app (Some sample_http_token) ''get'' None) \<noteq> []"
  by code_simp

theorem http_call_needs_verified_token_witness:
  "\<exists>jwk claims. lists_key sample_answer ''k1'' jwk
     \<and> to_decode sample_jwt ''tok'' jwk ''RS256'' ''https://as'' ''portal'' 30 = Some claims
     \<and> set [''read''] \<subseteq> set (scopes_from_claims claims)"
proof -
  have i: "au_inbound (pc_auth sample_http_config) = sample_http_inbound" by (simp add: sample_http_config_def)
  have e: "ia_enabled (au_inbound (pc_auth sample_http_config))" by (simp add: i sample_http_inbound_def sample_inbound_def)
  obtain res evs where c: "http_call_tool (\<lambda>_ _. Valid) sample_http_config sample_app (Some sample_http_token) ''get'' None = (res, evs)"
    by fastforce
  then have "evs \<noteq> []" using sample_http_call by simp
  note http_call_needs_verified_token [where jwt = sample_jwt and served = sample_key_sets, OF e _ c this]
  then show ?thesis
    using sample_accepted
    by (auto simp: i sample_http_inbound_def sample_inbound_def sample_jwt_def sample_key_sets_def sample_header_def)
qed

text \<open>The host of an IPv6 \<open>audience\<close> is listed without its brackets, so no \<open>Host\<close> header of the wire matches it.\<close>

lemma ipv6_audience_unbracketed:
  "audience_hosts (\<lambda>_. True) ''https://[2001:db8::1]/mcp'' = Inr [''2001:db8::1'']
   \<and> bind_host ''2001:db8::1'' = ''[2001:db8::1]''"
  by code_simp

end
