(* ===== verification/Survey.thy ===== *)
theory Survey
  imports Operations PyJson "HOL-Library.Multiset"
begin

text \<open>
  The interactive survey of \<open>configure\<close> (\<open>configure/decisions.py\<close>, \<open>configure/interaction.py\<close>,
  \<open>configure/survey.py\<close>). A prompter is a pair of operations on a state: the lines typed on standard input, or a
  script. What it prints is left out, except that the questions are the model's arguments. An
  \<open>input()\<close> at the end of the input raises \<open>EOFError\<close>, which nothing catches.
\<close>

section \<open>Decisions\<close>

record required_detail =
  rd_type :: string
  rd_actions :: "string list"

record operation_decision =
  od_operation :: operation
  od_exposed :: bool
  od_effect :: effect
  od_sensitivity :: sensitivity
  od_require :: "required_detail option"

record survey_result =
  sr_decisions :: "operation_decision list"
  sr_warnings :: "string list"

datatype configure_error =
    EndOfInput
  | UnsupportedMethodCrash string
  | AssertCrash string
  | GraphQlNotRendered string
  | RewriteCrash string

section \<open>Prompters\<close>

record 's prompter =
  pm_confirm :: "string \<Rightarrow> bool \<Rightarrow> 's \<Rightarrow> (configure_error + bool) \<times> 's"
  pm_text :: "string \<Rightarrow> string \<Rightarrow> 's \<Rightarrow> (configure_error + string) \<times> 's"

definition stdin_confirm :: "string \<Rightarrow> bool \<Rightarrow> string list \<Rightarrow> (configure_error + bool) \<times> string list" where
  "stdin_confirm question dflt input =
     (case input of
        [] \<Rightarrow> (Inl EndOfInput, [])
      | line # rest \<Rightarrow>
          (let answer = str_lower (str_strip line)
           in (Inr (if answer = [] then dflt else answer \<in> {''y'', ''yes''}), rest)))"

definition stdin_text :: "string \<Rightarrow> string \<Rightarrow> string list \<Rightarrow> (configure_error + string) \<times> string list" where
  "stdin_text question dflt input =
     (case input of
        [] \<Rightarrow> (Inl EndOfInput, [])
      | line # rest \<Rightarrow>
          (let answer = str_strip line in (Inr (if answer = [] then dflt else answer), rest)))"

definition stdin_prompter :: "string list prompter" where
  "stdin_prompter = \<lparr>pm_confirm = stdin_confirm, pm_text = stdin_text\<rparr>"

record script =
  sc_confirms :: "bool list"
  sc_texts :: "string list"

definition scripted_confirm :: "string \<Rightarrow> bool \<Rightarrow> script \<Rightarrow> (configure_error + bool) \<times> script" where
  "scripted_confirm question dflt s =
     (case sc_confirms s of [] \<Rightarrow> (Inr dflt, s) | b # bs \<Rightarrow> (Inr b, s\<lparr>sc_confirms := bs\<rparr>))"

definition scripted_text :: "string \<Rightarrow> string \<Rightarrow> script \<Rightarrow> (configure_error + string) \<times> script" where
  "scripted_text question dflt s =
     (case sc_texts s of [] \<Rightarrow> (Inr dflt, s) | t # ts \<Rightarrow> (Inr t, s\<lparr>sc_texts := ts\<rparr>))"

definition scripted_prompter :: "script prompter" where
  "scripted_prompter = \<lparr>pm_confirm = scripted_confirm, pm_text = scripted_text\<rparr>"

section \<open>The survey\<close>

definition UNGROUPED_TAG :: string where
  "UNGROUPED_TAG = ''(ungrouped)''"

definition tag_for :: "operation \<Rightarrow> string" where
  "tag_for op = (case op_group_tags op of [] \<Rightarrow> UNGROUPED_TAG | t # _ \<Rightarrow> t)"

type_synonym decisions = "(string, operation_decision) pydict"

definition default_for :: "decisions \<Rightarrow> operation \<Rightarrow> operation_decision" where
  "default_for defaults op =
     (case map_of defaults (op_id op) of
        Some d \<Rightarrow> d
      | None \<Rightarrow> \<lparr>od_operation = op, od_exposed = True, od_effect = op_effect op,
                 od_sensitivity = op_sensitivity op, od_require = None\<rparr>)"

definition ask_requirement ::
    "'s prompter \<Rightarrow> operation \<Rightarrow> required_detail option \<Rightarrow> 's \<Rightarrow> (configure_error + required_detail option) \<times> 's" where
  "ask_requirement prm op dflt st =
     (if op_effect op = READ_ONLY then (Inr None, st)
      else
        bind_st (pm_confirm prm
            (''  require a RAR authorization_details entry to call '' @ str_repr (op_id op) @ ''?'') (dflt \<noteq> None) st) (\<lambda>attach st1.
        if \<not> attach then (Inr None, st1)
        else
          bind_st (pm_text prm ''    required detail type?'' (case dflt of Some r \<Rightarrow> rd_type r | None \<Rightarrow> []) st1) (\<lambda>ty st2.
          (Inr (if ty \<noteq> [] then Some \<lparr>rd_type = ty, rd_actions = []\<rparr> else None), st2))))"

definition survey_one ::
    "'s prompter \<Rightarrow> decisions \<Rightarrow> operation \<Rightarrow> 's \<Rightarrow> (configure_error + operation_decision) \<times> 's" where
  "survey_one prm defaults op st =
     (let dflt = default_for defaults op
      in bind_st (pm_confirm prm (''  expose '' @ str_repr (op_id op) @ '' ('' @ effect_value (op_effect op) @ '')?'')
           (od_exposed dflt) st) (\<lambda>exposed st1.
         if \<not> exposed
         then (Inr \<lparr>od_operation = op, od_exposed = False, od_effect = op_effect op,
                    od_sensitivity = od_sensitivity dflt, od_require = None\<rparr>, st1)
         else
           bind_st (pm_confirm prm (''  mark '' @ str_repr (op_id op) @ '' sensitive?'')
               (od_sensitivity dflt = SENSITIVE) st1) (\<lambda>sensitive st2.
           bind_st (ask_requirement prm op (od_require dflt) st2) (\<lambda>require st3.
           (Inr \<lparr>od_operation = op, od_exposed = True, od_effect = op_effect op,
                 od_sensitivity = (if sensitive then SENSITIVE else NORMAL), od_require = require\<rparr>, st3)))))"

definition accept_one :: "decisions \<Rightarrow> operation \<Rightarrow> operation_decision" where
  "accept_one defaults op =
     \<lparr>od_operation = op, od_exposed = True, od_effect = op_effect op,
      od_sensitivity = od_sensitivity (default_for defaults op),
      od_require = (if op_effect op \<noteq> READ_ONLY then od_require (default_for defaults op) else None)\<rparr>"

fun survey_each ::
    "'s prompter \<Rightarrow> decisions \<Rightarrow> operation list \<Rightarrow> 's \<Rightarrow> (configure_error + operation_decision list) \<times> 's" where
  "survey_each prm defaults [] st = (Inr [], st)"
| "survey_each prm defaults (op # ops) st =
     bind_st (survey_one prm defaults op st) (\<lambda>d st1.
     bind_st (survey_each prm defaults ops st1) (\<lambda>ds st2. (Inr (d # ds), st2)))"

definition survey_group ::
    "'s prompter \<Rightarrow> decisions \<Rightarrow> string \<times> operation list \<Rightarrow> 's \<Rightarrow> (configure_error + operation_decision list) \<times> 's" where
  "survey_group prm defaults tg st =
     bind_st (pm_confirm prm (''expose all '' @ nat_str (length (snd tg)) @ '' operation(s) in '' @ str_repr (fst tg) @ ''?'') True st)
       (\<lambda>accept_all st1.
        if accept_all then (Inr (map (accept_one defaults) (snd tg)), st1)
        else survey_each prm defaults (snd tg) st1)"

text \<open>\<open>itertools.groupby\<close>: runs of equal keys.\<close>

fun group_runs :: "('a \<Rightarrow> 'k) \<Rightarrow> 'a list \<Rightarrow> ('k \<times> 'a list) list" where
  "group_runs key [] = []"
| "group_runs key (x # xs) =
     (case group_runs key xs of
        (k, g) # gs \<Rightarrow> if k = key x then (k, x # g) # gs else (key x, [x]) # (k, g) # gs
      | [] \<Rightarrow> [(key x, [x])])"

fun survey_groups ::
    "'s prompter \<Rightarrow> decisions \<Rightarrow> (string \<times> operation list) list \<Rightarrow> 's \<Rightarrow> (configure_error + operation_decision list) \<times> 's" where
  "survey_groups prm defaults [] st = (Inr [], st)"
| "survey_groups prm defaults (tg # tgs) st =
     bind_st (survey_group prm defaults tg st) (\<lambda>ds st1.
     bind_st (survey_groups prm defaults tgs st1) (\<lambda>ds' st2. (Inr (ds @ ds'), st2)))"

definition run_survey ::
    "operation list \<Rightarrow> 's prompter \<Rightarrow> decisions \<Rightarrow> 's \<Rightarrow> (configure_error + survey_result) \<times> 's" where
  "run_survey operations prm defaults st =
     bind_st (survey_groups prm defaults (group_runs tag_for (sort_key tag_for operations)) st) (\<lambda>ds st1.
     (Inr \<lparr>sr_decisions = ds, sr_warnings = []\<rparr>, st1))"

section \<open>Groups\<close>

lemma group_runs_concat: "concat (map snd (group_runs key xs)) = xs"
  by (induction xs) (auto split: list.splits prod.splits if_splits)

lemma group_runs_Cons:
  obtains "group_runs key xs = []" "group_runs key (x # xs) = [(key x, [x])]"
  | k g gs where "group_runs key xs = (k, g) # gs" "k = key x" "group_runs key (x # xs) = (k, x # g) # gs"
  | k g gs where "group_runs key xs = (k, g) # gs" "k \<noteq> key x" "group_runs key (x # xs) = (key x, [x]) # (k, g) # gs"
proof (cases "group_runs key xs")
  case (Cons kg gs)
  obtain k g where "kg = (k, g)" by fastforce
  then show thesis using that(2,3) Cons by (cases "k = key x") simp_all
qed (use that in simp)

lemma group_runs_key: "\<forall>(k, g) \<in> set (group_runs key xs). g \<noteq> [] \<and> (\<forall>x \<in> set g. key x = k)"
proof (induction xs)
  case (Cons x xs)
  show ?case by (rule group_runs_Cons [of key xs x]) (use Cons.IH in auto)
qed simp

lemma group_runs_keys: "fst ` set (group_runs key xs) = key ` set xs"
proof (induction xs)
  case (Cons x xs)
  show ?case by (rule group_runs_Cons [of key xs x]) (use Cons.IH in auto)
qed simp

text \<open>On sorted input each key has one group.\<close>

lemma group_runs_distinct:
  fixes key :: "'a \<Rightarrow> 'k :: linorder"
  shows "sorted (map key xs) \<Longrightarrow> sorted_wrt (<) (map fst (group_runs key xs))"
proof (induction xs)
  case (Cons x xs)
  have le: "key x \<le> k" if "k \<in> fst ` set (group_runs key xs)" for k
    using that Cons.prems unfolding group_runs_keys by auto
  have ih: "sorted_wrt (<) (map fst (group_runs key xs))" using Cons by simp
  show ?case
  proof (rule group_runs_Cons [of key xs x])
    fix k g gs
    assume g: "group_runs key xs = (k, g) # gs" "k \<noteq> key x" and c: "group_runs key (x # xs) = (key x, [x]) # (k, g) # gs"
    have "key x < k" using le [of k] g by simp
    then show ?thesis using ih unfolding g(1) c by auto
  qed (use ih in simp_all)
qed simp

section \<open>What a survey decides\<close>

definition decided :: "decisions \<Rightarrow> operation \<Rightarrow> operation_decision \<Rightarrow> bool" where
  "decided defaults op d \<longleftrightarrow>
     od_operation d = op \<and> od_effect d = op_effect op
     \<and> (od_require d \<noteq> None \<longrightarrow> od_exposed d \<and> op_effect op \<noteq> READ_ONLY)
     \<and> (\<not> od_exposed d \<longrightarrow> od_sensitivity d = od_sensitivity (default_for defaults op))"

lemma accept_one_decided: "decided defaults op (accept_one defaults op)"
  by (simp add: decided_def accept_one_def)

lemma ask_requirement_read_only: "ask_requirement prm op dflt st = (Inr (Some r), st') \<Longrightarrow> op_effect op \<noteq> READ_ONLY"
  by (auto simp: ask_requirement_def)

lemma survey_one_decided: "survey_one prm defaults op st = (Inr d, st') \<Longrightarrow> decided defaults op d"
  by (auto simp: survey_one_def decided_def Let_def bind_st_Inr dest!: ask_requirement_read_only split: if_splits)

lemma survey_each_decided:
  "survey_each prm defaults ops st = (Inr ds, st') \<Longrightarrow> list_all2 (decided defaults) ops ds"
  by (induction ops arbitrary: st ds) (auto simp: bind_st_Inr survey_one_decided)

lemma survey_group_decided:
  "survey_group prm defaults tg st = (Inr ds, st') \<Longrightarrow> list_all2 (decided defaults) (snd tg) ds"
  by (auto simp: survey_group_def bind_st_Inr list_all2_map2 accept_one_decided intro!: list.rel_refl_strong
      dest: survey_each_decided split: if_splits)

lemma survey_groups_decided:
  "survey_groups prm defaults tgs st = (Inr ds, st') \<Longrightarrow> list_all2 (decided defaults) (concat (map snd tgs)) ds"
proof (induction tgs arbitrary: st ds)
  case (Cons tg tgs)
  then show ?case by (auto simp: bind_st_Inr intro!: list_all2_appendI dest!: survey_group_decided)
qed simp

lemma run_survey_decided:
  assumes "run_survey ops prm defaults st = (Inr r, st')"
  shows "list_all2 (decided defaults) (sort_key tag_for ops) (sr_decisions r)"
  using assms survey_groups_decided unfolding run_survey_def bind_st_Inr by (fastforce simp: group_runs_concat)

section \<open>A terminal that only refuses\<close>

definition refusal :: "string \<Rightarrow> bool" where
  "refusal line = (str_lower (str_strip line) \<notin> {[], ''y'', ''yes''})"

lemma confirm_refused:
  assumes "stdin_confirm question dflt input = (Inr b, rest)" "\<forall>line \<in> set input. refusal line"
  shows "\<not> b \<and> (\<forall>line \<in> set rest. refusal line)"
  using assms by (auto simp: stdin_confirm_def refusal_def Let_def split: list.splits if_splits)

lemma survey_one_refused:
  assumes "survey_one stdin_prompter defaults op input = (Inr d, rest)" "\<forall>line \<in> set input. refusal line"
  shows "\<not> od_exposed d \<and> (\<forall>line \<in> set rest. refusal line)"
  using assms by (auto simp: survey_one_def stdin_prompter_def Let_def bind_st_Inr dest!: confirm_refused)

lemma survey_each_refused:
  assumes "survey_each stdin_prompter defaults ops input = (Inr ds, rest)" "\<forall>line \<in> set input. refusal line"
  shows "(\<forall>d \<in> set ds. \<not> od_exposed d) \<and> (\<forall>line \<in> set rest. refusal line)"
  using assms
proof (induction ops arbitrary: input ds)
  case (Cons op ops)
  then show ?case by (auto simp: bind_st_Inr dest!: survey_one_refused)
qed simp

lemma survey_groups_refused:
  assumes "survey_groups stdin_prompter defaults tgs input = (Inr ds, rest)" "\<forall>line \<in> set input. refusal line"
  shows "(\<forall>d \<in> set ds. \<not> od_exposed d) \<and> (\<forall>line \<in> set rest. refusal line)"
  using assms
proof (induction tgs arbitrary: input ds)
  case (Cons tg tgs)
  obtain ds1 ds2 mid where g: "survey_group stdin_prompter defaults tg input = (Inr ds1, mid)"
    and r: "survey_groups stdin_prompter defaults tgs mid = (Inr ds2, rest)" and ds: "ds = ds1 @ ds2"
    using Cons.prems(1) by (auto simp: bind_st_Inr)
  obtain input1 where "survey_each stdin_prompter defaults (snd tg) input1 = (Inr ds1, mid)" "\<forall>line \<in> set input1. refusal line"
    using g Cons.prems(2) by (auto simp: survey_group_def stdin_prompter_def bind_st_Inr dest!: confirm_refused)
  then show ?case using survey_each_refused Cons.IH [OF r] ds by (metis Un_iff set_append)
qed simp

lemma run_survey_refused:
  assumes "run_survey ops stdin_prompter defaults input = (Inr res, rest)" "\<forall>line \<in> set input. refusal line"
  shows "\<forall>d \<in> set (sr_decisions res). \<not> od_exposed d"
  using assms by (auto simp: run_survey_def bind_st_Inr dest!: survey_groups_refused)

section \<open>A prompter that answers nothing\<close>

text \<open>The contract of a prompter with nothing to say: every question is answered by its default.\<close>

locale quiet_prompter =
  fixes prm :: "'s prompter" and quiet :: "'s \<Rightarrow> bool"
  assumes confirm_default: "quiet s \<Longrightarrow> pm_confirm prm question b s = (Inr b, s)"
    and text_default: "quiet s \<Longrightarrow> pm_text prm question t s = (Inr t, s)"
begin

lemma quiet_groups:
  "quiet st \<Longrightarrow> survey_groups prm defaults tgs st = (Inr (map (accept_one defaults) (concat (map snd tgs))), st)"
  by (induction tgs) (simp_all add: survey_group_def confirm_default)

lemma quiet_survey:
  "quiet st \<Longrightarrow> run_survey ops prm defaults st
     = (Inr \<lparr>sr_decisions = map (accept_one defaults) (sort_key tag_for ops), sr_warnings = []\<rparr>, st)"
  by (simp add: run_survey_def quiet_groups group_runs_concat)

end

interpretation scripted: quiet_prompter scripted_prompter "\<lambda>s. sc_confirms s = [] \<and> sc_texts s = []"
  by unfold_locales (simp_all add: scripted_prompter_def scripted_confirm_def scripted_text_def)

section \<open>How much a survey asks\<close>

text \<open>A question that at most \<open>n\<close> units of what remains answer.\<close>

definition answered_by :: "('s \<Rightarrow> nat) \<Rightarrow> nat \<Rightarrow> ('s \<Rightarrow> ('e + 'a) \<times> 's) \<Rightarrow> bool" where
  "answered_by remaining n q \<longleftrightarrow>
     (\<forall>st. n \<le> remaining st \<longrightarrow> (\<exists>x st'. q st = (Inr x, st') \<and> remaining st \<le> remaining st' + n))"

lemma answered_by_bind:
  assumes "answered_by remaining n q" "\<And>x. answered_by remaining m (r x)" "n + m \<le> k"
  shows "answered_by remaining k (\<lambda>st. bind_st (q st) r)"
  unfolding answered_by_def
proof (intro allI impI)
  fix st :: 'a
  assume k: "k \<le> remaining st"
  then have "n \<le> remaining st" using assms(3) by simp
  then obtain x st1 where q: "q st = (Inr x, st1)" "remaining st \<le> remaining st1 + n"
    using assms(1) unfolding answered_by_def by blast
  then have "m \<le> remaining st1" using k assms(3) by simp
  then obtain y st2 where "r x st1 = (Inr y, st2)" "remaining st1 \<le> remaining st2 + m"
    using assms(2) unfolding answered_by_def by blast
  then show "\<exists>y st2. bind_st (q st) r = (Inr y, st2) \<and> remaining st \<le> remaining st2 + k"
    using q assms(3) by simp
qed

lemma answered_by_return: "answered_by remaining k (\<lambda>st. (Inr x, st))"
  by (simp add: answered_by_def)

lemma answered_by_if:
  "answered_by remaining k q \<Longrightarrow> answered_by remaining k r \<Longrightarrow> answered_by remaining k (\<lambda>st. if b then q st else r st)"
  by (cases b) simp_all

text \<open>The contract of a prompter whose every question takes at most one unit of what remains.\<close>

locale bounded_prompter =
  fixes prm :: "'s prompter" and remaining :: "'s \<Rightarrow> nat"
  assumes confirm_answered: "answered_by remaining 1 (pm_confirm prm question b)"
    and text_answered: "answered_by remaining 1 (pm_text prm question t)"
begin

lemma requirement_answered: "answered_by remaining 2 (ask_requirement prm op d)"
  unfolding ask_requirement_def
  by (intro answered_by_if answered_by_return answered_by_bind [OF confirm_answered, where m = 1]
      answered_by_bind [OF text_answered, where m = 0]) simp_all

lemma one_answered: "answered_by remaining 4 (survey_one prm defaults op)"
  unfolding survey_one_def Let_def
  by (intro answered_by_if answered_by_return answered_by_bind [OF confirm_answered, where m = 3]
      answered_by_bind [OF confirm_answered, where m = 2] answered_by_bind [OF requirement_answered, where m = 0]) simp_all

lemma each_answered: "answered_by remaining (4 * length ops) (survey_each prm defaults ops)"
proof (induction ops)
  case Nil
  have "survey_each prm defaults [] = (\<lambda>st. (Inr [], st))" by (simp add: fun_eq_iff)
  then show ?case by (simp add: answered_by_return)
next
  case (Cons op ops)
  have "survey_each prm defaults (op # ops) =
      (\<lambda>st. bind_st (survey_one prm defaults op st) (\<lambda>d st1.
       bind_st (survey_each prm defaults ops st1) (\<lambda>ds st2. (Inr (d # ds), st2))))"
    by (simp add: fun_eq_iff)
  then show ?case
    by (auto intro!: answered_by_bind [OF one_answered, where m = "4 * length ops"]
        answered_by_bind [OF Cons.IH, where m = 0] answered_by_return)
qed

lemma group_answered: "answered_by remaining (1 + 4 * length (snd tg)) (survey_group prm defaults tg)"
  unfolding survey_group_def
  by (intro answered_by_bind [OF confirm_answered, where m = "4 * length (snd tg)"] answered_by_if answered_by_return
      each_answered) simp

lemma groups_answered:
  "\<forall>tg \<in> set tgs. snd tg \<noteq> [] \<Longrightarrow> answered_by remaining (5 * length (concat (map snd tgs))) (survey_groups prm defaults tgs)"
proof (induction tgs)
  case Nil
  have "survey_groups prm defaults [] = (\<lambda>st. (Inr [], st))" by (simp add: fun_eq_iff)
  then show ?case by (simp add: answered_by_return)
next
  case (Cons tg tgs)
  have "survey_groups prm defaults (tg # tgs) =
      (\<lambda>st. bind_st (survey_group prm defaults tg st) (\<lambda>ds st1.
       bind_st (survey_groups prm defaults tgs st1) (\<lambda>ds' st2. (Inr (ds @ ds'), st2))))"
    by (simp add: fun_eq_iff)
  moreover have "1 \<le> length (snd tg)" using Cons.prems by (cases "snd tg") simp_all
  ultimately show ?case
    using Cons by (auto intro!: answered_by_bind [OF group_answered, where m = "5 * length (concat (map snd tgs))"]
        answered_by_bind [OF Cons.IH, where m = 0] answered_by_return)
qed

lemma survey_answered: "answered_by remaining (5 * length ops) (run_survey ops prm defaults)"
proof -
  let ?g = "group_runs tag_for (sort_key tag_for ops)"
  have "\<forall>tg \<in> set ?g. snd tg \<noteq> []" using group_runs_key [of tag_for "sort_key tag_for ops"] by auto
  note groups_answered [OF this, of defaults]
  then have "answered_by remaining (5 * length ops) (survey_groups prm defaults ?g)" by (simp only: group_runs_concat length_sort)
  then show ?thesis unfolding run_survey_def by (rule answered_by_bind [where m = 0]) (simp_all add: answered_by_return)
qed

end

interpretation terminal: bounded_prompter stdin_prompter length
  by unfold_locales (auto simp: answered_by_def stdin_prompter_def stdin_confirm_def stdin_text_def Let_def split: list.splits)

interpretation canned: bounded_prompter scripted_prompter "\<lambda>s. length (sc_confirms s) + length (sc_texts s)"
  by unfold_locales (auto simp: answered_by_def scripted_prompter_def scripted_confirm_def scripted_text_def split: list.splits)

section \<open>Properties\<close>

text \<open>A survey decides every operation exactly once, in tag order: whatever the prompter answers, the decisions are
  those of the surveyed operations sorted by tag, none missing or repeated; each pins the operation's own effect, only an
  exposed operation that changes state can carry a requirement, and declining an operation keeps its recorded sensitivity.\<close>

theorem survey_decides_all:
  assumes "run_survey ops prm defaults st = (Inr r, st')"
  shows "map od_operation (sr_decisions r) = sort_key tag_for ops
         \<and> mset (map od_operation (sr_decisions r)) = mset ops
         \<and> list_all (\<lambda>d. od_effect d = op_effect (od_operation d)
              \<and> (od_require d \<noteq> None \<longrightarrow> od_exposed d \<and> op_effect (od_operation d) \<noteq> READ_ONLY)
              \<and> (\<not> od_exposed d \<longrightarrow> od_sensitivity d = od_sensitivity (default_for defaults (od_operation d)))) (sr_decisions r)"
proof -
  note d = run_survey_decided [OF assms]
  then have "map od_operation (sr_decisions r) = sort_key tag_for ops"
    by (induction rule: list_all2_induct) (simp_all add: decided_def)
  then show ?thesis
    using d by (auto simp: list_all_length list_all2_conv_all_nth decided_def mset_sort)
qed

text \<open>A survey at a terminal ends: five lines of input per operation are enough for every question it asks, so it
  never blocks on more, and it runs to its result.\<close>

theorem survey_ends:
  assumes "5 * length ops \<le> length input"
  shows "\<exists>r rest. run_survey ops stdin_prompter defaults input = (Inr r, rest) \<and> length input \<le> length rest + 5 * length ops"
  using terminal.survey_answered [of ops defaults] assms unfolding answered_by_def by blast

text \<open>Without answers, everything is accepted: a script that is exhausted exposes every operation with its recorded or
  introspected sensitivity and keeps the recorded requirement of each that changes state.\<close>

theorem survey_accepts_defaults:
  "run_survey ops scripted_prompter defaults \<lparr>sc_confirms = [], sc_texts = []\<rparr>
   = (Inr \<lparr>sr_decisions = map (accept_one defaults) (sort_key tag_for ops), sr_warnings = []\<rparr>, \<lparr>sc_confirms = [], sc_texts = []\<rparr>)"
  by (rule scripted.quiet_survey) simp

definition sample_write :: operation where
  "sample_write =
     \<lparr>op_id = ''setPet'', op_upstream = ''up'', op_name = [], op_title = ''Set'', op_description = ''Set'', op_group_tags = [''pets''],
      op_effect = ACTION, op_sensitivity = NORMAL, op_input_schema = [],
      op_binding = Http \<lparr>hb_method = ''POST'', hb_path = ''/pets'',
        hb_parameters = [\<lparr>p_arg = ''id'', p_location = QUERY, p_wire_name = ''id'', p_required = True,
                          p_schema = [(''type'', JStr ''integer'')], p_style = FORM, p_explode = True\<rparr>], hb_body = None\<rparr>,
      op_meta = []\<rparr>"

definition sample_typed :: "string list" where
  "sample_typed = [''n'', ''y'', ''n'', ''y'', '' pets ''] "

definition sample_decision :: operation_decision where
  "sample_decision =
     \<lparr>od_operation = sample_write, od_exposed = True, od_effect = ACTION, od_sensitivity = NORMAL,
      od_require = Some \<lparr>rd_type = ''pets'', rd_actions = []\<rparr>\<rparr>"

lemma sample_survey:
  "run_survey [sample_write] stdin_prompter [] sample_typed = (Inr \<lparr>sr_decisions = [sample_decision], sr_warnings = []\<rparr>, [])"
  by code_simp

theorem survey_decides_all_witness: "mset (map od_operation [sample_decision]) = mset [sample_write]"
  using survey_decides_all [OF sample_survey] by simp

theorem survey_ends_witness:
  "\<exists>r rest. run_survey [sample_write] stdin_prompter [] sample_typed = (Inr r, rest) \<and> length sample_typed \<le> length rest + 5"
  using survey_ends [of "[sample_write]" sample_typed "[]"] by (simp add: sample_typed_def)

end
