(* ===== verification/Reconcile.thy ===== *)
theory Reconcile
  imports Survey Explicit Policy
begin

text \<open>
  Reconciling a fresh introspection with a previous run of \<open>configure\<close> (\<open>configure/reconcile.py\<close>): the decisions a
  configuration records, what is new, removed, changed or unchanged, and the survey of what needs one. Schemas are
  compared as Python compares dictionaries.
\<close>

section \<open>Equality of values\<close>

fun py_num :: "json \<Rightarrow> rat option" where
  "py_num (JBool b) = Some (if b then 1 else 0)"
| "py_num (JInt i) = Some (of_int i)"
| "py_num (JFloat q _) = Some q"
| "py_num _ = None"

fun py_eq :: "json \<Rightarrow> json \<Rightarrow> bool"
  and py_eq_list :: "json list \<Rightarrow> json list \<Rightarrow> bool"
  and py_eq_fields :: "(string \<times> json) list \<Rightarrow> jobj \<Rightarrow> bool" where
  "py_eq JNull w = (w = JNull)"
| "py_eq (JBool b) w = (py_num w = Some (if b then 1 else 0))"
| "py_eq (JInt i) w = (py_num w = Some (of_int i))"
| "py_eq (JFloat q _) w = (py_num w = Some q)"
| "py_eq (JStr s) w = (w = JStr s)"
| "py_eq (JList vs) w = (case w of JList ws \<Rightarrow> py_eq_list vs ws | _ \<Rightarrow> False)"
| "py_eq (JObj d) w = (case w of JObj e \<Rightarrow> length d = length e \<and> py_eq_fields d e | _ \<Rightarrow> False)"
| "py_eq_list [] ws = (ws = [])"
| "py_eq_list (v # vs) ws = (case ws of [] \<Rightarrow> False | w # ws' \<Rightarrow> py_eq v w \<and> py_eq_list vs ws')"
| "py_eq_fields [] e = True"
| "py_eq_fields ((k, v) # d) e = (case map_of e k of None \<Rightarrow> False | Some w \<Rightarrow> py_eq v w \<and> py_eq_fields d e)"

text \<open>A value as Python holds it: no dictionary has a key twice.\<close>

fun proper :: "json \<Rightarrow> bool" where
  "proper (JList vs) = list_all proper vs"
| "proper (JObj d) = (distinct (map fst d) \<and> list_all (\<lambda>(k, v). proper v) d)"
| "proper _ = True"

section \<open>What a configuration records\<close>

definition require_for :: "operation \<Rightarrow> policy_config option \<Rightarrow> required_detail option" where
  "require_for op policy =
     (case policy of
        None \<Rightarrow> None
      | Some p \<Rightarrow>
          (case accumulated_details (matching_rules op (po_rules p)) of
             [] \<Rightarrow> None
           | d # _ \<Rightarrow> Some \<lparr>rd_type = ad_type d, rd_actions = ad_actions d\<rparr>))"

definition fallback_effect :: "string \<Rightarrow> configure_error + effect" where
  "fallback_effect m = (case effect_for_method m of Inl _ \<Rightarrow> Inl (UnsupportedMethodCrash m) | Inr e \<Rightarrow> Inr e)"

definition decision_of_entry :: "policy_config option \<Rightarrow> operation_entry \<Rightarrow> http_binding_entry \<Rightarrow> configure_error + operation_decision" where
  "decision_of_entry policy entry be =
     bind_res (case oe_effect entry of Some e \<Rightarrow> Inr e | None \<Rightarrow> fallback_effect (he_method be)) (\<lambda>eff.
     let op = \<lparr>op_id = oe_id entry, op_upstream = oe_upstream entry, op_name = or_text (oe_name entry) [],
               op_title = or_text (oe_title entry) (oe_description entry), op_description = oe_description entry,
               op_group_tags = oe_group_tags entry, op_effect = eff,
               op_sensitivity = (case oe_sensitivity entry of Some s \<Rightarrow> s | None \<Rightarrow> NORMAL),
               op_input_schema = [], op_binding = Http (http_binding_of be), op_meta = []\<rparr>
     in Inr \<lparr>od_operation = op, od_exposed = True, od_effect = op_effect op, od_sensitivity = op_sensitivity op,
             od_require = require_for op policy\<rparr>)"

fun collect_decisions :: "policy_config option \<Rightarrow> operation_entry list \<Rightarrow> decisions \<Rightarrow> configure_error + decisions" where
  "collect_decisions policy [] decisions = Inr decisions"
| "collect_decisions policy (entry # entries) decisions =
     (case oe_binding entry of
        GraphQlEntry _ \<Rightarrow> collect_decisions policy entries decisions
      | HttpEntry be \<Rightarrow>
          bind_res (decision_of_entry policy entry be) (\<lambda>d.
          collect_decisions policy entries (AList.update (oe_id entry) d decisions)))"

definition decisions_from_config :: "portal_config \<Rightarrow> policy_config option \<Rightarrow> configure_error + decisions" where
  "decisions_from_config config policy = collect_decisions policy (pc_operations config) []"

section \<open>The difference\<close>

record reconcile_report =
  rr_new :: "string list"
  rr_removed :: "string list"
  rr_changed :: "string list"
  rr_unchanged :: "string list"

definition param_equal :: "parameter \<Rightarrow> parameter \<Rightarrow> bool" where
  "param_equal p q =
     (p_arg p = p_arg q \<and> p_location p = p_location q \<and> p_wire_name p = p_wire_name q \<and> p_required p = p_required q
      \<and> py_eq (JObj (p_schema p)) (JObj (p_schema q)) \<and> p_style p = p_style q \<and> p_explode p = p_explode q)"

definition body_equal :: "body_spec option \<Rightarrow> body_spec option \<Rightarrow> bool" where
  "body_equal a b =
     (case (a, b) of
        (None, None) \<Rightarrow> True
      | (Some x, Some y) \<Rightarrow> b_content_type x = b_content_type y \<and> b_mode x = b_mode y \<and> py_eq (JObj (b_schema x)) (JObj (b_schema y))
      | _ \<Rightarrow> False)"

definition http_equal :: "http_binding \<Rightarrow> http_binding \<Rightarrow> bool" where
  "http_equal a b =
     (hb_method a = hb_method b \<and> hb_path a = hb_path b
      \<and> list_all2 param_equal (hb_parameters a) (hb_parameters b) \<and> body_equal (hb_body a) (hb_body b))"

definition binding_equal :: "binding \<Rightarrow> binding \<Rightarrow> configure_error + bool" where
  "binding_equal a b =
     (case (a, b) of
        (Http x, Http y) \<Rightarrow> Inr (http_equal x y)
      | _ \<Rightarrow> Inl (AssertCrash ''not an HTTP binding''))"

definition by_op_id :: "operation list \<Rightarrow> (string, operation) pydict" where
  "by_op_id ops = dict_of (map (\<lambda>op. (op_id op, op)) ops)"

definition compare_ids ::
    "decisions \<Rightarrow> (string, operation) pydict \<Rightarrow> string \<Rightarrow> configure_error + string \<times> bool" where
  "compare_ids previous current i =
     (case (map_of previous i, map_of current i) of
        (Some d, Some op) \<Rightarrow> bind_res (binding_equal (op_binding (od_operation d)) (op_binding op)) (\<lambda>same. Inr (i, same))
      | _ \<Rightarrow> Inl (AssertCrash ''KeyError''))"

definition diff_operation_ids :: "decisions \<Rightarrow> operation list \<Rightarrow> configure_error + reconcile_report" where
  "diff_operation_ids previous current =
     (let cur = by_op_id current;
          common = sorted_set (filter (\<lambda>i. i \<in> fst ` set cur) (map fst previous))
      in bind_res (mapM (compare_ids previous cur) common) (\<lambda>verdicts.
         Inr \<lparr>rr_new = sorted_set (filter (\<lambda>i. i \<notin> fst ` set previous) (map fst cur)),
              rr_removed = sorted_set (filter (\<lambda>i. i \<notin> fst ` set cur) (map fst previous)),
              rr_changed = map fst (filter (\<lambda>v. \<not> snd v) verdicts),
              rr_unchanged = map fst (filter snd verdicts)\<rparr>))"

definition lookup_all :: "('k, 'v) pydict \<Rightarrow> 'k list \<Rightarrow> 'v list" where
  "lookup_all d ks = List.map_filter (map_of d) ks"

definition run_reconcile ::
    "operation list \<Rightarrow> decisions \<Rightarrow> 's prompter \<Rightarrow> 's \<Rightarrow> (configure_error + survey_result \<times> reconcile_report) \<times> 's" where
  "run_reconcile current previous prm st =
     bind_st (diff_operation_ids previous current, st) (\<lambda>report st1.
     let kept = lookup_all previous (rr_unchanged report);
         to_survey = lookup_all (by_op_id current) (rr_new report @ rr_changed report);
         defaults = List.map_filter (\<lambda>i. map_option (Pair i) (map_of previous i)) (rr_changed report)
     in bind_st (if to_survey \<noteq> [] then run_survey to_survey prm defaults st1
                 else (Inr \<lparr>sr_decisions = [], sr_warnings = []\<rparr>, st1)) (\<lambda>surveyed st2.
        (Inr (\<lparr>sr_decisions = kept @ sr_decisions surveyed, sr_warnings = sr_warnings surveyed\<rparr>, report), st2)))"

section \<open>Facts\<close>

lemma set_by_op_id: "fst ` set (by_op_id ops) = op_id ` set ops"
proof -
  have "fst ` set (by_op_id ops) = dom (map_of (by_op_id ops))" by (simp add: dom_map_of_conv_image_fst)
  also have "\<dots> = op_id ` set ops" by (simp add: by_op_id_def map_of_dict_of dom_map_of_conv_image_fst image_image)
  finally show ?thesis .
qed

lemma by_op_id_lookup: "map_of (by_op_id ops) i = Some op \<Longrightarrow> op_id op = i \<and> op \<in> set ops"
  by (auto simp: by_op_id_def map_of_dict_of dest!: map_of_SomeD)

lemma compare_ids_fst:
  assumes "mapM (compare_ids previous cur) is = Inr verdicts"
  shows "map fst verdicts = is"
  using assms
proof (induction "is" arbitrary: verdicts)
  case (Cons i "is")
  then show ?case by (auto simp: compare_ids_def split: option.splits)
qed simp

lemma compare_ids_snd:
  assumes "compare_ids previous cur i = Inr (j, same)"
  shows "j = i \<and> (\<exists>d op. map_of previous i = Some d \<and> map_of cur i = Some op \<and> binding_equal (op_binding (od_operation d)) (op_binding op) = Inr same)"
  using assms by (auto simp: compare_ids_def split: option.splits)

lemma filter_fst_cover:
  "set (map fst (filter P vs)) \<union> set (map fst (filter (\<lambda>v. \<not> P v) vs)) = set (map fst vs)"
  by auto

lemma diff_operation_ids_Inr:
  assumes "diff_operation_ids previous current = Inr r"
  obtains verdicts where
    "mapM (compare_ids previous (by_op_id current)) (sorted_set (filter (\<lambda>i. i \<in> op_id ` set current) (map fst previous))) = Inr verdicts"
    "rr_new r = sorted_set (filter (\<lambda>i. i \<notin> fst ` set previous) (map fst (by_op_id current)))"
    "rr_removed r = sorted_set (filter (\<lambda>i. i \<notin> op_id ` set current) (map fst previous))"
    "rr_changed r = map fst (filter (\<lambda>v. \<not> snd v) verdicts)" "rr_unchanged r = map fst (filter snd verdicts)"
  using assms by (auto simp: diff_operation_ids_def Let_def set_by_op_id case_prod_beta)

lemma report_partition:
  assumes "diff_operation_ids previous current = Inr r"
  shows "set (rr_new r) = op_id ` set current - fst ` set previous"
    and "set (rr_removed r) = fst ` set previous - op_id ` set current"
    and "set (rr_changed r) \<union> set (rr_unchanged r) = op_id ` set current \<inter> fst ` set previous"
    and "distinct (rr_new r @ rr_removed r @ rr_changed r @ rr_unchanged r)"
    and "sorted (rr_new r)" "sorted (rr_removed r)" "sorted (rr_changed r)" "sorted (rr_unchanged r)"
proof -
  let ?common = "sorted_set (filter (\<lambda>i. i \<in> op_id ` set current) (map fst previous))"
  obtain verdicts where m: "mapM (compare_ids previous (by_op_id current)) ?common = Inr verdicts"
    and n: "rr_new r = sorted_set (filter (\<lambda>i. i \<notin> fst ` set previous) (map fst (by_op_id current)))"
    and d: "rr_removed r = sorted_set (filter (\<lambda>i. i \<notin> op_id ` set current) (map fst previous))"
    and c: "rr_changed r = map fst (filter (\<lambda>v. \<not> snd v) verdicts)" and u: "rr_unchanged r = map fst (filter snd verdicts)"
    using assms by (rule diff_operation_ids_Inr)
  have v: "map fst verdicts = ?common" using m by (rule compare_ids_fst)
  have dv: "distinct (map fst verdicts)" "sorted (map fst verdicts)" unfolding v by simp_all
  have sv: "fst ` set verdicts = op_id ` set current \<inter> fst ` set previous"
    unfolding list.set_map [symmetric] v by auto
  show 1: "set (rr_new r) = op_id ` set current - fst ` set previous"
    unfolding n set_by_op_id [symmetric] by auto
  show 2: "set (rr_removed r) = fst ` set previous - op_id ` set current" unfolding d by auto
  show 3: "set (rr_changed r) \<union> set (rr_unchanged r) = op_id ` set current \<inter> fst ` set previous"
    unfolding c u sv [symmetric] by auto
  have "distinct (rr_changed r)" "distinct (rr_unchanged r)"
    using dv(1) unfolding c u by (auto simp: distinct_map inj_on_def)
  moreover have "set (rr_changed r) \<inter> set (rr_unchanged r) = {}"
    using dv(1) unfolding c u by (auto simp: distinct_map inj_on_def)
  moreover have "distinct (rr_new r)" "distinct (rr_removed r)" unfolding n d by simp_all
  ultimately show "distinct (rr_new r @ rr_removed r @ rr_changed r @ rr_unchanged r)"
    using 1 2 3 by auto
  show "sorted (rr_new r)" "sorted (rr_removed r)" unfolding n d by simp_all
  show "sorted (rr_changed r)" "sorted (rr_unchanged r)"
    using dv(2) unfolding c u by (simp_all add: sorted_filter)
qed

lemma unchanged_same:
  assumes "diff_operation_ids previous current = Inr r" "i \<in> set (rr_unchanged r)"
  shows "\<exists>d op. map_of previous i = Some d \<and> map_of (by_op_id current) i = Some op
           \<and> binding_equal (op_binding (od_operation d)) (op_binding op) = Inr True"
proof -
  obtain verdicts where m: "mapM (compare_ids previous (by_op_id current)) (sorted_set (filter (\<lambda>i. i \<in> op_id ` set current) (map fst previous))) = Inr verdicts"
    and u: "rr_unchanged r = map fst (filter snd verdicts)"
    using assms(1) by (rule diff_operation_ids_Inr)
  obtain same where "(i, same) \<in> set verdicts" "same" using assms(2) unfolding u by auto
  then obtain j where "compare_ids previous (by_op_id current) j = Inr (i, True)" using mapM_mem [OF m] by auto
  then show ?thesis using compare_ids_snd by metis
qed

section \<open>What a reconcile decides\<close>

lemma map_filter_Some: "(\<And>x. x \<in> set xs \<Longrightarrow> \<exists>y. f x = Some y \<and> g y = x) \<Longrightarrow> map g (List.map_filter f xs) = xs"
  by (induction xs) (fastforce simp: map_filter_simps split: option.splits)+

text \<open>A record of decisions under the ids of their operations.\<close>

definition keyed :: "decisions \<Rightarrow> bool" where
  "keyed ds = (\<forall>(i, d) \<in> set ds. op_id (od_operation d) = i)"

lemma keyed_lookup: "keyed ds \<Longrightarrow> map_of ds i = Some d \<Longrightarrow> op_id (od_operation d) = i"
  by (auto simp: keyed_def dest!: map_of_SomeD)

lemma run_reconcile_Inr:
  assumes "run_reconcile current previous prm st = (Inr (res, report), st')"
  obtains ds where "diff_operation_ids previous current = Inr report"
    "sr_decisions res = lookup_all previous (rr_unchanged report) @ ds"
    "map od_operation ds = sort_key tag_for (lookup_all (by_op_id current) (rr_new report @ rr_changed report))"
proof -
  let ?ops = "lookup_all (by_op_id current) (rr_new report @ rr_changed report)"
  let ?defaults = "List.map_filter (\<lambda>i. map_option (Pair i) (map_of previous i)) (rr_changed report)"
  obtain surveyed st2 where d: "diff_operation_ids previous current = Inr report"
    and s: "(if ?ops \<noteq> [] then run_survey ?ops prm ?defaults st else (Inr \<lparr>sr_decisions = [], sr_warnings = []\<rparr>, st)) = (Inr surveyed, st2)"
    and r: "sr_decisions res = lookup_all previous (rr_unchanged report) @ sr_decisions surveyed"
    using assms unfolding run_reconcile_def Let_def bind_st_Inr by auto
  have "map od_operation (sr_decisions surveyed) = sort_key tag_for ?ops"
  proof (cases "?ops = []")
    case False
    then have "run_survey ?ops prm ?defaults st = (Inr surveyed, st2)" using s by simp
    from run_survey_decided [OF this] show ?thesis by (induction rule: list_all2_induct) (simp_all add: decided_def)
  next
    case True
    then have "surveyed = \<lparr>sr_decisions = [], sr_warnings = []\<rparr>" using s by simp
    then show ?thesis using True by simp
  qed
  then show thesis using that d r by blast
qed

lemma reconcile_decisions:
  assumes "run_reconcile current previous prm st = (Inr (res, report), st')" and "keyed previous"
  shows "mset (map (\<lambda>d. op_id (od_operation d)) (sr_decisions res)) = mset (rr_unchanged report @ rr_new report @ rr_changed report)"
    and "d \<in> set (sr_decisions res) \<Longrightarrow>
           (op_id (od_operation d) \<in> set (rr_unchanged report) \<and> map_of previous (op_id (od_operation d)) = Some d)
           \<or> (op_id (od_operation d) \<notin> set (rr_unchanged report) \<and> od_operation d \<in> set current)"
proof -
  obtain ds where df: "diff_operation_ids previous current = Inr report"
    and r: "sr_decisions res = lookup_all previous (rr_unchanged report) @ ds"
    and m: "map od_operation ds = sort_key tag_for (lookup_all (by_op_id current) (rr_new report @ rr_changed report))"
    using assms(1) by (rule run_reconcile_Inr)
  note part = report_partition [OF df]
  have kept: "map (\<lambda>d. op_id (od_operation d)) (lookup_all previous (rr_unchanged report)) = rr_unchanged report"
    unfolding lookup_all_def by (rule map_filter_Some) (use unchanged_same [OF df] keyed_lookup [OF assms(2)] in blast)
  have cur: "\<exists>op. map_of (by_op_id current) i = Some op \<and> op_id op = i" if "i \<in> set (rr_new report @ rr_changed report)" for i
  proof -
    have "i \<in> fst ` set (by_op_id current)" using that part(1,3) unfolding set_by_op_id by auto
    then show ?thesis using by_op_id_lookup by (metis map_of_eq_None_iff not_None_eq)
  qed
  have surveyed: "map op_id (lookup_all (by_op_id current) (rr_new report @ rr_changed report)) = rr_new report @ rr_changed report"
    unfolding lookup_all_def by (rule map_filter_Some) (rule cur)
  have "mset (map (\<lambda>d. op_id (od_operation d)) ds) = image_mset op_id (mset (map od_operation ds))"
    by (simp add: multiset.map_comp comp_def)
  also have "\<dots> = mset (rr_new report @ rr_changed report)" unfolding m by (simp flip: mset_map add: surveyed)
  finally have ids: "mset (map (\<lambda>d. op_id (od_operation d)) ds) = mset (rr_new report @ rr_changed report)" .
  then show "mset (map (\<lambda>d. op_id (od_operation d)) (sr_decisions res)) = mset (rr_unchanged report @ rr_new report @ rr_changed report)"
    unfolding r using kept by simp
  assume "d \<in> set (sr_decisions res)"
  then consider "d \<in> set (lookup_all previous (rr_unchanged report))" | "d \<in> set ds" unfolding r by auto
  then show "(op_id (od_operation d) \<in> set (rr_unchanged report) \<and> map_of previous (op_id (od_operation d)) = Some d)
           \<or> (op_id (od_operation d) \<notin> set (rr_unchanged report) \<and> od_operation d \<in> set current)"
  proof cases
    case 1
    then obtain i where "i \<in> set (rr_unchanged report)" "map_of previous i = Some d" by (auto simp: lookup_all_def map_filter_def)
    then show ?thesis using keyed_lookup [OF assms(2)] by metis
  next
    case 2
    then have "op_id (od_operation d) \<in> set (rr_new report @ rr_changed report)"
      using mset_eq_setD [OF ids] by auto
    moreover have "set (rr_new report @ rr_changed report) \<inter> set (rr_unchanged report) = {}" using part(4) by auto
    moreover have "od_operation d \<in> set (map od_operation ds)" using 2 by simp
    then have "od_operation d \<in> set current"
      unfolding m by (auto simp: lookup_all_def map_filter_def dest: by_op_id_lookup)
    ultimately show ?thesis by blast
  qed
qed

lemma decision_of_entry_Inr:
  "decision_of_entry policy entry be = Inr d \<Longrightarrow>
     op_id (od_operation d) = oe_id entry \<and> od_exposed d \<and> op_binding (od_operation d) = Http (http_binding_of be)
     \<and> od_effect d = op_effect (od_operation d) \<and> od_sensitivity d = op_sensitivity (od_operation d)
     \<and> od_require d = require_for (od_operation d) policy"
  by (auto simp: decision_of_entry_def Let_def)

lemma collect_decisions_keyed:
  "collect_decisions policy es ds = Inr ds' \<Longrightarrow> keyed ds \<Longrightarrow> keyed ds'"
proof (induction es arbitrary: ds)
  case (Cons e es)
  show ?case
  proof (cases "oe_binding e")
    case (GraphQlEntry g)
    then show ?thesis using Cons by simp
  next
    case (HttpEntry be)
    then obtain d where d: "decision_of_entry policy e be = Inr d"
      and r: "collect_decisions policy es (AList.update (oe_id e) d ds) = Inr ds'"
      using Cons.prems(1) by (auto simp: bind_res_eq_Inr)
    have "set (AList.update (oe_id e) d ds) \<subseteq> insert (oe_id e, d) (set ds)" by (induction ds) auto
    then have "keyed (AList.update (oe_id e) d ds)"
      using Cons.prems(2) decision_of_entry_Inr [OF d] unfolding keyed_def by fastforce
    then show ?thesis by (rule Cons.IH [OF r])
  qed
qed simp

lemma decisions_keyed: "decisions_from_config config policy = Inr ds \<Longrightarrow> keyed ds"
  using collect_decisions_keyed [of policy "pc_operations config" "[]" ds] by (simp add: decisions_from_config_def keyed_def)

section \<open>Properties\<close>

text \<open>The reconcile report is a partition: every current and every recorded operation is reported exactly once, as new,
  removed, changed or unchanged, each list sorted; and an operation is unchanged only if its recorded binding equals the
  introspected one.\<close>

theorem reconcile_partition:
  assumes "diff_operation_ids previous current = Inr r"
  shows "set (rr_new r) = op_id ` set current - fst ` set previous
         \<and> set (rr_removed r) = fst ` set previous - op_id ` set current
         \<and> set (rr_changed r) \<union> set (rr_unchanged r) = op_id ` set current \<inter> fst ` set previous
         \<and> distinct (rr_new r @ rr_removed r @ rr_changed r @ rr_unchanged r)
         \<and> sorted (rr_new r) \<and> sorted (rr_removed r) \<and> sorted (rr_changed r) \<and> sorted (rr_unchanged r)
         \<and> (\<forall>i \<in> set (rr_unchanged r). \<exists>d op. map_of previous i = Some d \<and> map_of (by_op_id current) i = Some op
              \<and> binding_equal (op_binding (od_operation d)) (op_binding op) = Inr True)"
  using report_partition [OF assms] unchanged_same [OF assms] by (intro conjI ballI)

text \<open>C12. Reconciling decides every current operation exactly once: an unchanged one keeps the recorded decision verbatim,
  every other one gets a fresh decision about the introspected operation, and a removed one gets none.\<close>

theorem reconcile_decides_all:
  assumes "decisions_from_config config policy = Inr previous"
    and "run_reconcile current previous prm st = (Inr (res, report), st')"
  shows "distinct (map (\<lambda>d. op_id (od_operation d)) (sr_decisions res))
         \<and> (\<lambda>d. op_id (od_operation d)) ` set (sr_decisions res) = op_id ` set current
         \<and> list_all (\<lambda>d. if op_id (od_operation d) \<in> set (rr_unchanged report)
              then map_of previous (op_id (od_operation d)) = Some d else od_operation d \<in> set current) (sr_decisions res)"
proof -
  note dec = reconcile_decisions [OF assms(2) decisions_keyed [OF assms(1)]]
  have df: "diff_operation_ids previous current = Inr report" using assms(2) by (rule run_reconcile_Inr)
  note part = report_partition [OF df]
  have "distinct (rr_unchanged report @ rr_new report @ rr_changed report)" using part(4) by auto
  then have "distinct (map (\<lambda>d. op_id (od_operation d)) (sr_decisions res))"
    using dec(1) by (metis mset_eq_imp_distinct_iff)
  moreover have "set (map (\<lambda>d. op_id (od_operation d)) (sr_decisions res)) = op_id ` set current"
    using mset_eq_setD [OF dec(1)] part(1,3) by auto
  ultimately show ?thesis using dec(2) by (fastforce simp: list_all_iff)
qed

text \<open>An entry with a GraphQL binding is not recorded, so it is not among the decisions a reconcile writes back.\<close>

lemma graphql_entry_skipped:
  assumes "oe_binding e = GraphQlEntry g"
  shows "collect_decisions policy (e # es) ds = collect_decisions policy es ds"
  by (simp add: assms)

section \<open>A second run against a recorded configuration\<close>

definition sample_read :: operation where
  "sample_read =
     sample_write\<lparr>op_id := ''listPets'', op_effect := READ_ONLY,
       op_binding := Http \<lparr>hb_method = ''GET'', hb_path = ''/pets'', hb_parameters = [], hb_body = None\<rparr>\<rparr>"

definition sample_recorded :: operation_entry where
  "sample_recorded =
     \<lparr>oe_id = ''setPet'', oe_upstream = ''up'', oe_description = ''Set'', oe_title = None, oe_name = None, oe_group_tags = [''pets''],
      oe_effect = None, oe_sensitivity = Some SENSITIVE,
      oe_binding = HttpEntry \<lparr>he_method = ''post'', he_path = ''/pets'',
        he_parameters = [\<lparr>pe_arg = ''id'', pe_location = QUERY, pe_wire_name = None, pe_required = True,
                          pe_schema = [(''type'', JStr ''integer'')], pe_style = FORM, pe_explode = True\<rparr>], he_body = None\<rparr>\<rparr>"

definition sample_gone :: operation_entry where
  "sample_gone =
     sample_recorded\<lparr>oe_id := ''dropPet'',
       oe_binding := HttpEntry \<lparr>he_method = ''DELETE'', he_path = ''/pets'', he_parameters = [], he_body = None\<rparr>\<rparr>"

definition sample_reconciled :: portal_config where
  "sample_reconciled = sample_portal\<lparr>pc_operations := [sample_recorded, sample_gone]\<rparr>"

definition sample_previous :: decisions where
  "sample_previous = (case decisions_from_config sample_reconciled None of Inr ds \<Rightarrow> ds | Inl _ \<Rightarrow> [])"

definition sample_report :: reconcile_report where
  "sample_report =
     \<lparr>rr_new = [''listPets''], rr_removed = [''dropPet''], rr_changed = [], rr_unchanged = [''setPet'']\<rparr>"

lemma sample_diff: "diff_operation_ids sample_previous [sample_read, sample_write] = Inr sample_report"
  by code_simp

theorem reconcile_partition_witness:
  "set [''setPet''] = op_id ` set [sample_read, sample_write] \<inter> fst ` set sample_previous"
  using reconcile_partition [OF sample_diff] by (simp add: sample_report_def)

lemma sample_previous_recorded: "decisions_from_config sample_reconciled None = Inr sample_previous"
  by code_simp

definition sample_outcome :: "(configure_error + survey_result \<times> reconcile_report) \<times> string list" where
  "sample_outcome = run_reconcile [sample_read, sample_write] sample_previous stdin_prompter [''n'', ''y'', ''n'']"

definition sample_reconcile_result :: survey_result where
  "sample_reconcile_result = (case fst sample_outcome of Inr (r, _) \<Rightarrow> r | Inl _ \<Rightarrow> \<lparr>sr_decisions = [], sr_warnings = []\<rparr>)"

lemma sample_run_reconcile:
  "run_reconcile [sample_read, sample_write] sample_previous stdin_prompter [''n'', ''y'', ''n'']
   = (Inr (sample_reconcile_result, sample_report), [])"
  by code_simp

theorem reconcile_decides_all_witness:
  "(\<lambda>d. op_id (od_operation d)) ` set (sr_decisions sample_reconcile_result) = {''listPets'', ''setPet''}"
  using reconcile_decides_all [OF sample_previous_recorded sample_run_reconcile] by (simp add: sample_read_def sample_write_def)

end
