(* ===== verification/Render.thy ===== *)
theory Render
  imports Reconcile OpenApi
begin

text \<open>
  Rendering decisions into the configuration and the policy file, and writing them after confirmation
  (\<open>configure/write.py\<close>). \<open>dump_rule\<close> is Pydantic's \<open>model_dump\<close> of a rule that is kept; the YAML renderers are outside.
  Files are a map from resolved paths to texts, every file readable; how a difference is laid out on the
  terminal is left out.
\<close>

section \<open>The configuration\<close>

primrec sensitivity_value :: "sensitivity \<Rightarrow> string" where
  "sensitivity_value NORMAL = ''normal''"
| "sensitivity_value SENSITIVE = ''sensitive''"

primrec body_mode_value :: "body_mode \<Rightarrow> string" where
  "body_mode_value FLATTEN = ''flatten''"
| "body_mode_value SINGLE_ARG = ''single_arg''"

primrec style_value :: "param_style \<Rightarrow> string" where
  "style_value FORM = ''form''"

definition render_parameter :: "parameter \<Rightarrow> json" where
  "render_parameter p =
     JObj [(''arg'', JStr (p_arg p)), (''in'', JStr (location_value (p_location p))), (''wire_name'', JStr (p_wire_name p)),
           (''required'', JBool (p_required p)), (''schema'', JObj (p_schema p)), (''style'', JStr (style_value (p_style p))),
           (''explode'', JBool (p_explode p))]"

definition render_body :: "body_spec option \<Rightarrow> jobj" where
  "render_body body =
     (case body of
        None \<Rightarrow> []
      | Some b \<Rightarrow>
          [(''body'', JObj [(''content_type'', JStr (b_content_type b)), (''mode'', JStr (body_mode_value (b_mode b))),
                            (''schema'', JObj (b_schema b))])])"

definition render_entry :: "operation_decision \<Rightarrow> configure_error + json" where
  "render_entry d =
     (let op = od_operation d
      in case op_binding op of
           GraphQl _ \<Rightarrow> Inl (GraphQlNotRendered (op_id op))
         | Http b \<Rightarrow>
             Inr (JObj ([(''id'', JStr (op_id op)), (''upstream'', JStr (op_upstream op)),
                         (''description'', JStr (op_description op)), (''title'', JStr (op_title op)),
                         (''group_tags'', JList (map JStr (op_group_tags op))),
                         (''effect'', JStr (effect_value (od_effect d))),
                         (''sensitivity'', JStr (sensitivity_value (od_sensitivity d))),
                         (''binding'', JObj ([(''method'', JStr (hb_method b)), (''path'', JStr (hb_path b)),
                            (''parameters'', JList (map render_parameter (hb_parameters b)))] @ render_body (hb_body b)))]
                        @ (if op_name op \<noteq> [] then [(''name'', JStr (op_name op))] else []))))"

definition decision_id :: "operation_decision \<Rightarrow> string" where
  "decision_id d = op_id (od_operation d)"

definition rendered_decisions :: "operation_decision list \<Rightarrow> operation_decision list" where
  "rendered_decisions decisions = filter od_exposed (sort_key decision_id decisions)"

definition render_config ::
    "operation_decision list \<Rightarrow> string \<Rightarrow> (string, string) pydict \<Rightarrow> string \<Rightarrow> configure_error + jobj" where
  "render_config decisions server_name base_urls mode =
     bind_res (mapM render_entry (rendered_decisions decisions)) (\<lambda>operations.
     Inr [(''version'', JStr ''1''), (''mode'', JStr mode),
          (''server'', JObj [(''name'', JStr server_name), (''transport'', JStr ''stdio'')]),
          (''upstreams'', JObj (map (\<lambda>(key, url). (key, JObj [(''base_url'', JStr url)])) base_urls)),
          (''operations'', JList operations)])"

section \<open>The policy\<close>

definition set_text :: "string option \<Rightarrow> bool" where
  "set_text v = (v \<noteq> None \<and> v \<noteq> Some [])"

definition set_list :: "string list option \<Rightarrow> bool" where
  "set_list v = (v \<noteq> None \<and> v \<noteq> Some [])"

definition within_required_detail_shape :: "policy_rule \<Rightarrow> bool" where
  "within_required_detail_shape rule =
     (if pr_carry rule then False
      else case pr_require rule of
          None \<Rightarrow> True
        | Some [d] \<Rightarrow> \<not> (set_list (rq_locations d) \<or> set_list (rq_datatypes d) \<or> set_text (rq_identifier d) \<or> set_list (rq_privileges d))
        | Some _ \<Rightarrow> False)"

definition matches_configure_id_shape :: "string list \<Rightarrow> policy_rule \<Rightarrow> bool" where
  "matches_configure_id_shape decision_ids rule =
     (let m = pr_match rule
      in (case pm_ids m of [i] \<Rightarrow> i \<in> set decision_ids | _ \<Rightarrow> False)
         \<and> pm_tags m = [] \<and> pm_upstream m = [] \<and> pm_effect m = [] \<and> pm_sensitivity m = [])"

definition is_configure_owned :: "string list \<Rightarrow> policy_rule \<Rightarrow> bool" where
  "is_configure_owned decision_ids rule =
     (matches_configure_id_shape decision_ids rule \<and> within_required_detail_shape rule)"

definition foreign_rules :: "string list \<Rightarrow> policy_config option \<Rightarrow> policy_rule list" where
  "foreign_rules decision_ids existing =
     (case existing of None \<Rightarrow> [] | Some p \<Rightarrow> filter (\<lambda>r. \<not> is_configure_owned decision_ids r) (po_rules p))"

definition foreign_id_shaped_ids :: "string list \<Rightarrow> policy_config option \<Rightarrow> string list" where
  "foreign_id_shaped_ids decision_ids existing =
     map (\<lambda>r. hd (pm_ids (pr_match r)))
       (filter (matches_configure_id_shape decision_ids) (foreign_rules decision_ids existing))"

definition generated_for :: "operation_decision list \<Rightarrow> policy_config option \<Rightarrow> operation_decision list" where
  "generated_for decisions existing =
     filter (\<lambda>d. od_exposed d \<and> od_require d \<noteq> None
               \<and> decision_id d \<notin> set (foreign_id_shaped_ids (map decision_id decisions) existing)) decisions"

definition owned_rule_json :: "operation_decision \<Rightarrow> json" where
  "owned_rule_json d =
     (case od_require d of
        None \<Rightarrow> JNull
      | Some r \<Rightarrow>
          JObj [(''match'', JObj [(''ids'', JList [JStr (decision_id d)])]),
                (''require'', JObj [(''authorization_details'', JList [JObj ((''type'', JStr (rd_type r))
                    # (if rd_actions r \<noteq> [] then [(''actions'', JList (map JStr (rd_actions r)))] else []))])])])"

primrec unmatched_value :: "unmatched_default \<Rightarrow> string" where
  "unmatched_value Allow = ''allow''"
| "unmatched_value Deny = ''deny''"

definition render_policy ::
    "(policy_rule \<Rightarrow> json) \<Rightarrow> operation_decision list \<Rightarrow> policy_config option \<Rightarrow> jobj" where
  "render_policy dump_rule decisions existing =
     (let ids = map decision_id decisions
      in [(''version'', JStr ''1''),
          (''rules'', JList (map dump_rule (foreign_rules ids existing) @ map owned_rule_json (generated_for decisions existing)))]
         @ (case existing of
              None \<Rightarrow> []
            | Some p \<Rightarrow> [(''defaults'', JObj [(''unmatched'', JStr (unmatched_value (po_unmatched p)))])]))"

section \<open>Writing\<close>

text \<open>\<open>json.dumps(data, indent=2)\<close>.\<close>

definition pad :: "nat \<Rightarrow> string" where
  "pad n = CHR 0x0A # replicate n (CHR '' '')"

fun dumps_pretty :: "nat \<Rightarrow> json \<Rightarrow> string" where
  "dumps_pretty n (JList vs) =
     (if vs = [] then ''[]''
      else ''['' @ pad (n + 2) @ str_join ('','' @ pad (n + 2)) (map (dumps_pretty (n + 2)) vs) @ pad n @ '']'')"
| "dumps_pretty n (JObj kvs) =
     (if kvs = [] then ''{}''
      else ''{'' @ pad (n + 2)
           @ str_join ('','' @ pad (n + 2)) (map (\<lambda>(k, v). dumps_str k @ '': '' @ dumps_pretty (n + 2) v) kvs) @ pad n @ ''}'')"
| "dumps_pretty n v = json_dumps v"

definition render_json :: "jobj \<Rightarrow> string" where
  "render_json data = dumps_pretty 0 (JObj data) @ [CHR 0x0A]"

text \<open>\<open>ruamel.yaml\<close>: a fresh dump, and the round trip that keeps the existing text's comments and order, which fails
  on a text that is not a YAML mapping.\<close>

record yaml_outside =
  yo_dump :: "jobj \<Rightarrow> string"
  yo_update :: "string \<Rightarrow> jobj \<Rightarrow> string + string"

type_synonym files = "(string, string) pydict"

text \<open>What a run prints on standard output, with the two texts a printed difference compares.\<close>

datatype message =
    Shown string string string string
  | RemovedFromOutput "string list"
  | NewSurveyed "string list"
  | ChangedConfirmed "string list"
  | NotWritten string
  | ToolLine string string

record run_state =
  rs_files :: files
  rs_typed :: "string list"
  rs_said :: "message list"

definition say :: "message list \<Rightarrow> run_state \<Rightarrow> run_state" where
  "say ms st = st\<lparr>rs_said := rs_said st @ ms\<rparr>"

definition prompting :: "(string list \<Rightarrow> ('e + 'a) \<times> string list) \<Rightarrow> run_state \<Rightarrow> ('e + 'a) \<times> run_state" where
  "prompting m st = (case m (rs_typed st) of (r, rest) \<Rightarrow> (r, st\<lparr>rs_typed := rest\<rparr>))"

text \<open>\<open>realpath\<close> is the operating system's resolution of a path, by which files are found.\<close>

definition render_text ::
    "yaml_outside \<Rightarrow> (string \<Rightarrow> string) \<Rightarrow> files \<Rightarrow> string \<Rightarrow> jobj \<Rightarrow> configure_error + string \<times> string" where
  "render_text yaml realpath fs path data =
     (let is_yaml = path_suffix path \<in> set YAML_SUFFIXES
      in case map_of fs (realpath path) of
           Some existing \<Rightarrow>
             if is_yaml
             then (case yo_update yaml existing data of
                     Inl msg \<Rightarrow> Inl (RewriteCrash msg)
                   | Inr text \<Rightarrow> Inr (text, ''YAML: comments, key order, and anchors in the existing file are preserved.''))
             else Inr (render_json data,
                    ''JSON: formatting is normalized (JSON cannot carry comments); key order is preserved.'')
         | None \<Rightarrow>
             Inr (if is_yaml then yo_dump yaml data else render_json data, ''new file: no prior formatting to preserve.''))"

definition write_with_confirmation ::
    "yaml_outside \<Rightarrow> (string \<Rightarrow> string) \<Rightarrow> string list prompter \<Rightarrow> string \<Rightarrow> jobj \<Rightarrow> run_state
     \<Rightarrow> (configure_error + bool) \<times> run_state" where
  "write_with_confirmation yaml realpath prm path rendered st =
     bind_st (render_text yaml realpath (rs_files st) path rendered, st) (\<lambda>(new_text, fidelity) st1.
     let old_text = (case map_of (rs_files st1) (realpath path) of Some text \<Rightarrow> text | None \<Rightarrow> [])
     in bind_st (prompting (pm_confirm prm (''write '' @ path @ ''?'') True) (say [Shown path fidelity old_text new_text] st1)) (\<lambda>ok st2.
        if \<not> ok then (Inr False, st2)
        else (Inr True, st2\<lparr>rs_files := AList.update (realpath path) new_text (rs_files st2)\<rparr>)))"

section \<open>Reading a rendered entry back\<close>

text \<open>What Pydantic documents for the keys written: every field is the value under its key, \<open>name\<close> is absent without one.\<close>

definition entry_parameter :: "parameter \<Rightarrow> parameter_entry" where
  "entry_parameter p =
     \<lparr>pe_arg = p_arg p, pe_location = p_location p, pe_wire_name = Some (p_wire_name p), pe_required = p_required p,
      pe_schema = p_schema p, pe_style = p_style p, pe_explode = p_explode p\<rparr>"

definition entry_binding :: "http_binding \<Rightarrow> http_binding_entry" where
  "entry_binding b =
     \<lparr>he_method = hb_method b, he_path = hb_path b, he_parameters = map entry_parameter (hb_parameters b),
      he_body = map_option (\<lambda>s. \<lparr>be_content_type = b_content_type s, be_mode = b_mode s, be_schema = b_schema s\<rparr>) (hb_body b)\<rparr>"

definition entry_of_decision :: "operation_decision \<Rightarrow> http_binding \<Rightarrow> operation_entry" where
  "entry_of_decision d b =
     (let op = od_operation d
      in \<lparr>oe_id = op_id op, oe_upstream = op_upstream op, oe_description = op_description op, oe_title = Some (op_title op),
          oe_name = (if op_name op \<noteq> [] then Some (op_name op) else None), oe_group_tags = op_group_tags op,
          oe_effect = Some (od_effect d), oe_sensitivity = Some (od_sensitivity d), oe_binding = HttpEntry (entry_binding b)\<rparr>)"

text \<open>A binding as the sources build it: an upper-case method, wire names that are not empty.\<close>

definition source_binding :: "http_binding \<Rightarrow> bool" where
  "source_binding b \<longleftrightarrow> str_upper (hb_method b) = hb_method b \<and> (\<forall>p \<in> set (hb_parameters b). p_wire_name p \<noteq> [])"

lemma upper_char_upper: "c \<in> set (upper_char d) \<Longrightarrow> upper_char c = [c]"
  by (auto simp: upper_char_def is_lower_ascii_def of_char_of split: if_splits)

lemma str_upper_idem: "str_upper (str_upper s) = str_upper s"
proof -
  have "concat (map upper_char cs) = cs" if "\<forall>c \<in> set cs. upper_char c = [c]" for cs
    using that by (induction cs) simp_all
  moreover have "\<forall>c \<in> set (str_upper s). upper_char c = [c]" by (auto simp: str_upper_def upper_char_upper)
  ultimately show ?thesis by (metis str_upper_def)
qed

lemma entry_binding_back: "source_binding b \<Longrightarrow> http_binding_of (entry_binding b) = b"
proof -
  assume s: "source_binding b"
  have "map (parameter_of \<circ> entry_parameter) (hb_parameters b) = hb_parameters b"
    using s by (auto simp: source_binding_def parameter_of_def entry_parameter_def entry_header_def intro!: map_idI)
  moreover have "map_option (\<lambda>x. \<lparr>b_content_type = be_content_type x, b_schema = be_schema x, b_mode = be_mode x\<rparr>)
       (map_option (\<lambda>s. \<lparr>be_content_type = b_content_type s, be_mode = b_mode s, be_schema = b_schema s\<rparr>) (hb_body b)) = hb_body b"
    by (cases "hb_body b") simp_all
  ultimately show ?thesis
    using s by (simp add: http_binding_of_def entry_binding_def source_binding_def)
qed

lemma resolved_schema: "resolve_arg_names b = Inr r \<Longrightarrow> build_input_schema r = build_input_schema b"
  using resolve_arg_names_idem [of b r] by (simp add: build_input_schema_def)

section \<open>Equality is reflexive\<close>

lemma py_eq_same:
  "v = w \<Longrightarrow> proper v \<Longrightarrow> py_eq v w"
  "vs = ws \<Longrightarrow> list_all proper vs \<Longrightarrow> py_eq_list vs ws"
  "list_all (\<lambda>(k, v). proper v) d \<Longrightarrow> \<forall>(k, v) \<in> set d. map_of e k = Some v \<Longrightarrow> py_eq_fields d e"
  by (induction v w and vs ws and d e rule: py_eq_py_eq_list_py_eq_fields.induct) auto

definition proper_binding :: "http_binding \<Rightarrow> bool" where
  "proper_binding b \<longleftrightarrow> (\<forall>p \<in> set (hb_parameters b). proper (JObj (p_schema p)))
     \<and> (case hb_body b of None \<Rightarrow> True | Some s \<Rightarrow> proper (JObj (b_schema s)))"

lemma http_equal_refl: "proper_binding b \<Longrightarrow> http_equal b b"
  by (auto simp: http_equal_def proper_binding_def body_equal_def param_equal_def py_eq_same
      intro!: list.rel_refl_strong split: option.splits simp del: py_eq.simps proper.simps)

section \<open>A second run\<close>

text \<open>The decisions a configuration written by \<open>configure\<close> records, entry by entry.\<close>

definition recorded :: "policy_config option \<Rightarrow> operation_decision \<Rightarrow> http_binding \<Rightarrow> operation_decision" where
  "recorded policy d b =
     (let op = (od_operation d)\<lparr>op_title := or_text (Some (op_title (od_operation d))) (op_description (od_operation d)),
                  op_effect := od_effect d, op_sensitivity := od_sensitivity d, op_input_schema := [], op_meta := []\<rparr>
      in \<lparr>od_operation = op, od_exposed = True, od_effect = od_effect d, od_sensitivity = od_sensitivity d,
          od_require = require_for op policy\<rparr>)"

lemma recorded_entry:
  assumes "op_binding (od_operation d) = Http b" "source_binding b"
  shows "decision_of_entry policy (entry_of_decision d b) (entry_binding b) = Inr (recorded policy d b)"
  using assms entry_binding_back [OF assms(2)]
  by (cases "od_operation d") (simp add: decision_of_entry_def entry_of_decision_def recorded_def Let_def or_text_def)

definition http_decision :: "operation_decision \<Rightarrow> bool" where
  "http_decision d \<longleftrightarrow> (\<exists>b. op_binding (od_operation d) = Http b \<and> source_binding b \<and> proper_binding b)"

fun http_part :: "binding \<Rightarrow> http_binding" where
  "http_part (Http b) = b"
| "http_part (GraphQl _) = \<lparr>hb_method = [], hb_path = [], hb_parameters = [], hb_body = None\<rparr>"

lemma collect_recorded:
  assumes "\<forall>d \<in> set ds. http_decision d" "distinct (map decision_id ds)" "fst ` set acc \<inter> decision_id ` set ds = {}"
  shows "collect_decisions policy (map (\<lambda>d. entry_of_decision d (http_part (op_binding (od_operation d)))) ds) acc
     = Inr (acc @ map (\<lambda>d. (decision_id d, recorded policy d (http_part (op_binding (od_operation d))))) ds)"
  using assms
proof (induction ds arbitrary: acc)
  case (Cons d ds)
  obtain b where b: "op_binding (od_operation d) = Http b" "source_binding b"
    using Cons.prems(1) by (auto simp: http_decision_def)
  have e: "oe_binding (entry_of_decision d b) = HttpEntry (entry_binding b)" "oe_id (entry_of_decision d b) = decision_id d"
    by (simp_all add: entry_of_decision_def decision_id_def Let_def)
  have "AList.update (decision_id d) x acc = acc @ [(decision_id d, x)]" for x
    using Cons.prems(3) by (auto intro!: update_fresh)
  then show ?case
    using Cons.IH [of "acc @ [(decision_id d, recorded policy d b)]"] Cons.prems recorded_entry [OF b, of policy]
    by (auto simp: b e)
qed simp

lemma set_rendered: "set (rendered_decisions decisions) = {d \<in> set decisions. od_exposed d}"
  by (auto simp: rendered_decisions_def)

lemma sorted_rendered: "sorted (map decision_id (rendered_decisions decisions))"
  by (simp add: rendered_decisions_def sorted_filter)

lemma distinct_rendered:
  assumes "distinct (map decision_id decisions)"
  shows "distinct (map decision_id (rendered_decisions decisions))"
proof -
  have "distinct (map decision_id (sort_key decision_id decisions))"
    using assms by (simp add: distinct_map)
  then show ?thesis unfolding rendered_decisions_def by (rule distinct_map_filter)
qed

lemma render_config_operations:
  assumes "render_config decisions server urls mode = Inr data" "map_of data ''operations'' = Some (JList js)"
  shows "mapM render_entry (rendered_decisions decisions) = Inr js"
  using assms by (auto simp: render_config_def bind_res_eq_Inr)

lemma render_entry_http: "render_entry d = Inr j \<Longrightarrow> \<exists>b. op_binding (od_operation d) = Http b"
  by (auto simp: render_entry_def Let_def split: binding.splits)

text \<open>\<open>read\<close> stands for Pydantic: on each entry written it gives the fields that were written.\<close>

definition reads_back :: "(json \<Rightarrow> operation_entry) \<Rightarrow> operation_decision list \<Rightarrow> bool" where
  "reads_back read ds \<longleftrightarrow>
     (\<forall>d \<in> set ds. \<forall>j. render_entry d = Inr j \<longrightarrow> read j = entry_of_decision d (http_part (op_binding (od_operation d))))"

lemma map_read:
  assumes "mapM render_entry ds = Inr js" "reads_back read ds"
  shows "map read js = map (\<lambda>d. entry_of_decision d (http_part (op_binding (od_operation d)))) ds"
  using assms
proof (induction ds arbitrary: js)
  case (Cons d ds)
  then show ?case by (auto simp: reads_back_def)
qed simp

lemma recorded_binding: "op_binding (od_operation (recorded policy d b)) = op_binding (od_operation d)"
  by (simp add: recorded_def Let_def)

lemma by_op_id_decisions:
  assumes "distinct (map decision_id decisions)"
  shows "by_op_id (map od_operation decisions) = map (\<lambda>d. (decision_id d, od_operation d)) decisions"
  using assms by (simp add: by_op_id_def dict_of_distinct_id comp_def flip: decision_id_def)

lemma lookup_all_own:
  assumes "distinct (map f xs)" "set ys \<subseteq> set xs"
  shows "lookup_all (map (\<lambda>x. (f x, g x)) xs) (map f ys) = map g ys"
proof -
  have "map_of (map (\<lambda>x. (f x, g x)) xs) (f y) = Some (g y)" if "y \<in> set ys" for y
    by (rule map_of_is_SomeI) (use assms that in \<open>auto simp: comp_def\<close>)
  then show ?thesis by (induction ys) (auto simp: lookup_all_def map_filter_simps)
qed

lemma second_run_report:
  assumes "\<forall>d \<in> set decisions. http_decision d" "distinct (map decision_id decisions)"
    and "previous = map (\<lambda>d. (decision_id d, recorded policy d (http_part (op_binding (od_operation d))))) (rendered_decisions decisions)"
  shows "diff_operation_ids previous (map od_operation decisions)
     = Inr \<lparr>rr_new = sorted_set (map decision_id (filter (\<lambda>d. \<not> od_exposed d) decisions)), rr_removed = [], rr_changed = [],
            rr_unchanged = map decision_id (rendered_decisions decisions)\<rparr>"
proof -
  let ?ds = "rendered_decisions decisions"
  let ?cur = "by_op_id (map od_operation decisions)"
  have keys: "map fst previous = map decision_id ?ds" using assms(3) by simp
  have kset: "fst ` set previous = decision_id ` set ?ds" using assms(3) by (simp add: image_image)
  have cur: "?cur = map (\<lambda>d. (decision_id d, od_operation d)) decisions" using assms(2) by (rule by_op_id_decisions)
  have cset: "fst ` set ?cur = decision_id ` set decisions" by (simp add: cur image_image)
  have dis: "distinct (map decision_id ?ds)" using assms(2) by (rule distinct_rendered)
  have same: "compare_ids previous ?cur i = Inr (i, True)" if i: "i \<in> decision_id ` set ?ds" for i
  proof -
    obtain d where d: "d \<in> set ?ds" "i = decision_id d" using i by blast
    then have d': "d \<in> set decisions" by (simp add: set_rendered)
    obtain b where b: "op_binding (od_operation d) = Http b" "proper_binding b"
      using assms(1) d' by (auto simp: http_decision_def)
    have "map_of previous i = Some (recorded policy d (http_part (op_binding (od_operation d))))"
      unfolding assms(3) by (rule map_of_is_SomeI) (use dis d in \<open>auto simp: comp_def\<close>)
    moreover have "map_of ?cur i = Some (od_operation d)"
      unfolding cur by (rule map_of_is_SomeI) (use assms(2) d(2) d' in \<open>auto simp: comp_def\<close>)
    ultimately show ?thesis using b http_equal_refl by (simp add: compare_ids_def recorded_binding binding_equal_def)
  qed
  have all: "filter (\<lambda>i. i \<in> fst ` set ?cur) (map fst previous) = map decision_id ?ds"
    unfolding keys cset by (rule filter_True) (auto simp: set_rendered)
  have srt: "sorted_set (map decision_id ?ds) = map decision_id ?ds"
    using dis by (simp add: sorted_set_def distinct_remdups_id sorted_sort_id sorted_rendered)
  have m: "mapM (compare_ids previous ?cur) (map decision_id ?ds) = Inr (map (\<lambda>i. (i, True)) (map decision_id ?ds))"
    by (rule mapM_total) (use same in auto)
  have new: "filter (\<lambda>i. i \<notin> fst ` set previous) (map fst ?cur) = map decision_id (filter (\<lambda>d. \<not> od_exposed d) decisions)"
  proof -
    have "decision_id d \<in> decision_id ` set ?ds \<longleftrightarrow> od_exposed d" if "d \<in> set decisions" for d
      using assms(2) that by (auto simp: set_rendered distinct_map inj_on_def)
    then show ?thesis by (simp add: cur kset filter_map comp_def cong: filter_cong)
  qed
  have old: "filter (\<lambda>i. i \<notin> fst ` set ?cur) (map fst previous) = []"
    unfolding keys cset by (auto simp: set_rendered filter_empty_conv)
  show ?thesis
    unfolding diff_operation_ids_def Let_def all srt m new old by (simp add: filter_map comp_def)
qed

section \<open>The policy that is written\<close>

text \<open>The rule a generated entry reads as.\<close>

definition owned_requirement :: "required_detail \<Rightarrow> auth_requirement" where
  "owned_requirement r =
     \<lparr>rq_type = rd_type r, rq_actions = (if rd_actions r \<noteq> [] then Some (rd_actions r) else None), rq_locations = None,
      rq_datatypes = None, rq_identifier = None, rq_privileges = None\<rparr>"

definition owned_rule :: "operation_decision \<Rightarrow> required_detail \<Rightarrow> policy_rule" where
  "owned_rule d r =
     \<lparr>pr_match = \<lparr>pm_ids = [decision_id d], pm_tags = [], pm_upstream = [], pm_effect = [], pm_sensitivity = []\<rparr>,
      pr_require = Some [owned_requirement r], pr_carry = False\<rparr>"

definition reads_rules_back ::
    "(policy_rule \<Rightarrow> json) \<Rightarrow> (json \<Rightarrow> policy_rule) \<Rightarrow> operation_decision list \<Rightarrow> policy_rule list \<Rightarrow> bool" where
  "reads_rules_back dump read ds rules \<longleftrightarrow>
     (\<forall>r \<in> set rules. read (dump r) = r)
     \<and> (\<forall>d \<in> set ds. \<forall>r. od_require d = Some r \<longrightarrow> read (owned_rule_json d) = owned_rule d r)"

text \<open>The whole document read back: a missing \<open>defaults\<close> is the model's own default, \<open>allow\<close>.\<close>

definition read_unmatched :: "jobj \<Rightarrow> unmatched_default" where
  "read_unmatched data =
     (case map_of data ''defaults'' of
        Some (JObj d) \<Rightarrow> if map_of d ''unmatched'' = Some (JStr ''deny'') then Deny else Allow
      | _ \<Rightarrow> Allow)"

definition read_policy :: "(json \<Rightarrow> policy_rule) \<Rightarrow> jobj \<Rightarrow> policy_config" where
  "read_policy read data =
     \<lparr>po_unmatched = read_unmatched data,
      po_rules = (case map_of data ''rules'' of Some (JList js) \<Rightarrow> map read js | _ \<Rightarrow> [])\<rparr>"

text \<open>A requirement that \<open>configure\<close> owns is still decided: its operation is exposed with the same detail.\<close>

definition still_decided :: "operation_decision list \<Rightarrow> policy_rule \<Rightarrow> bool" where
  "still_decided ds rule \<longleftrightarrow>
     (\<forall>q. pr_require rule = Some [q] \<longrightarrow>
        (\<exists>d \<in> set ds. \<exists>r. pm_ids (pr_match rule) = [decision_id d] \<and> od_exposed d \<and> od_require d = Some r
           \<and> detail_of (owned_requirement r) = detail_of q))"

text \<open>The rule's operation has another rule of its own, with content that \<open>configure\<close> cannot express.\<close>

definition has_richer_rule :: "string list \<Rightarrow> policy_config \<Rightarrow> policy_rule \<Rightarrow> bool" where
  "has_richer_rule ids p rule \<longleftrightarrow>
     (\<exists>rich \<in> set (po_rules p). matches_configure_id_shape ids rich \<and> \<not> within_required_detail_shape rich
        \<and> pm_ids (pr_match rich) = pm_ids (pr_match rule))"

lemma owned_shape:
  assumes "is_configure_owned ids rule"
  shows "\<exists>i. pr_match rule = \<lparr>pm_ids = [i], pm_tags = [], pm_upstream = [], pm_effect = [], pm_sensitivity = []\<rparr>"
    and "pr_require rule = Some qs \<Longrightarrow> \<exists>q. qs = [q]"
  using assms
  by (cases "pr_match rule"; auto simp: is_configure_owned_def matches_configure_id_shape_def within_required_detail_shape_def
      Let_def split: list.splits if_splits)+

lemma render_policy_rules:
  assumes "map_of (render_policy dump ds existing) ''rules'' = Some (JList js)"
  shows "js = map dump (foreign_rules (map decision_id ds) existing) @ map owned_rule_json (generated_for ds existing)"
  using assms by (simp add: render_policy_def Let_def)

lemma generated_read:
  assumes "reads_rules_back dump read ds rules" "d \<in> set (generated_for ds existing)" "od_require d = Some r"
  shows "read (owned_rule_json d) = owned_rule d r"
  using assms by (auto simp: reads_rules_back_def generated_for_def)

section \<open>Properties\<close>

text \<open>The rules of a policy that was written: the ones kept, and one per decided requirement.\<close>

lemma read_policy_rules:
  assumes "reads_rules_back dump read ds (po_rules p)"
  shows "set (po_rules (read_policy read (render_policy dump ds (Some p)))) =
     {rule \<in> set (po_rules p). \<not> is_configure_owned (map decision_id ds) rule}
     \<union> {owned_rule d r | d r. d \<in> set (generated_for ds (Some p)) \<and> od_require d = Some r}"
proof -
  let ?gen = "generated_for ds (Some p)" and ?kept = "foreign_rules (map decision_id ds) (Some p)"
  have "(read \<circ> dump) ` set ?kept = set ?kept"
    using assms by (auto simp: reads_rules_back_def foreign_rules_def image_iff)
  moreover have "(read \<circ> owned_rule_json) ` set ?gen = {owned_rule d r | d r. d \<in> set ?gen \<and> od_require d = Some r}"
  proof -
    have "\<exists>r. od_require d = Some r \<and> read (owned_rule_json d) = owned_rule d r" if d: "d \<in> set ?gen" for d
    proof -
      obtain r where "od_require d = Some r" using d by (auto simp: generated_for_def)
      then show ?thesis using generated_read [OF assms d] by blast
    qed
    then show ?thesis by (auto simp: image_iff) (metis option.inject)+
  qed
  ultimately show ?thesis
    by (simp add: read_policy_def render_policy_def Let_def image_Un image_comp foreign_rules_def)
qed

lemma read_policy_unmatched: "po_unmatched (read_policy read (render_policy dump ds (Some p))) = po_unmatched p"
  by (cases "po_unmatched p") (simp_all add: read_policy_def read_unmatched_def render_policy_def Let_def)

lemma foreign_id_richer:
  assumes "i \<in> set (foreign_id_shaped_ids ids (Some p))" "pm_ids (pr_match rule) = [i]"
  shows "has_richer_rule ids p rule"
proof -
  obtain rich where r: "rich \<in> set (po_rules p)" "\<not> is_configure_owned ids rich" "matches_configure_id_shape ids rich"
    "i = hd (pm_ids (pr_match rich))"
    using assms(1) by (auto simp: foreign_id_shaped_ids_def foreign_rules_def)
  moreover have "pm_ids (pr_match rich) = [i]"
    using r(3,4) by (auto simp: matches_configure_id_shape_def Let_def split: list.splits)
  ultimately show ?thesis
    unfolding has_richer_rule_def is_configure_owned_def using assms(2) by auto
qed

lemma requirement_kept:
  assumes "reads_rules_back dump read ds (po_rules p)"
    and "\<forall>rule \<in> set (po_rules p). is_configure_owned (map decision_id ds) rule
           \<longrightarrow> still_decided ds rule \<and> \<not> has_richer_rule (map decision_id ds) p rule"
  shows "set (required_for p op) \<subseteq> set (required_for (read_policy read (render_policy dump ds (Some p))) op)"
proof
  let ?p' = "read_policy read (render_policy dump ds (Some p))"
  fix x
  assume "x \<in> set (required_for p op)"
  then obtain rule qs q where r: "rule \<in> set (po_rules p)" "policy_matches op (pr_match rule)" "pr_require rule = Some qs"
    "q \<in> set qs" "x = detail_of q"
    by (auto simp: set_accumulated matching_rules_def)
  show "x \<in> set (required_for ?p' op)"
  proof (cases "is_configure_owned (map decision_id ds) rule")
    case False
    then have "rule \<in> set (po_rules ?p')" using r(1) by (simp add: read_policy_rules [OF assms(1)])
    then show ?thesis using r unfolding set_accumulated matching_rules_def by auto
  next
    case True
    then have "qs = [q]" using owned_shape(2) [OF True r(3)] r(4) by auto
    then obtain d rq where d: "d \<in> set ds" "pm_ids (pr_match rule) = [decision_id d]" "od_exposed d" "od_require d = Some rq"
      "detail_of (owned_requirement rq) = x"
      using assms(2) True r(1,3,5) unfolding still_decided_def by blast
    have "decision_id d \<notin> set (foreign_id_shaped_ids (map decision_id ds) (Some p))"
      using foreign_id_richer [OF _ d(2)] assms(2) True r(1) by blast
    then have "d \<in> set (generated_for ds (Some p))" using d by (simp add: generated_for_def)
    then have "owned_rule d rq \<in> set (po_rules ?p')" using d(4) by (auto simp: read_policy_rules [OF assms(1)])
    moreover have "pr_match (owned_rule d rq) = pr_match rule"
      using owned_shape(1) [OF True] d(2) by (auto simp: owned_rule_def)
    ultimately show ?thesis
      using r(2) d(5) unfolding set_accumulated matching_rules_def by (force simp: owned_rule_def)
  qed
qed

lemma requirement_decided:
  assumes "reads_rules_back dump read ds (po_rules p)"
    and "required_for p op = []" and "required_for (read_policy read (render_policy dump ds (Some p))) op \<noteq> []"
  shows "\<exists>d \<in> set ds. fnmatch (op_id op) (decision_id d) \<and> od_exposed d \<and> od_require d \<noteq> None"
proof -
  let ?p' = "read_policy read (render_policy dump ds (Some p))"
  obtain rule qs q where r: "rule \<in> set (po_rules ?p')" "policy_matches op (pr_match rule)" "pr_require rule = Some qs" "q \<in> set qs"
    using assms(3) by (force simp: set_accumulated matching_rules_def simp flip: set_empty)
  have "rule \<notin> set (po_rules p)"
  proof
    assume "rule \<in> set (po_rules p)"
    then have "detail_of q \<in> set (required_for p op)" using r(2-4) unfolding set_accumulated matching_rules_def by auto
    then show False using assms(2) by simp
  qed
  then obtain d rq where d: "rule = owned_rule d rq" "d \<in> set (generated_for ds (Some p))" "od_require d = Some rq"
    using r(1) by (auto simp: read_policy_rules [OF assms(1)])
  moreover have "fnmatch (op_id op) (decision_id d)"
    using r(2) d(1) by (auto simp: owned_rule_def policy_matches_def ids_clause_def split: if_splits)
  ultimately show ?thesis by (auto simp: generated_for_def)
qed

text \<open>C8. Writing the policy does not loosen it. The hypotheses are Pydantic's \<open>reads_rules_back\<close>, that every requirement
  \<open>configure\<close> owns is still decided, and that no operation with such a requirement also has a rule that is richer than
  \<open>configure\<close> can express (\<open>owned_rule_dropped\<close> below shows the requirement that is lost otherwise). Then
  every rule \<open>configure\<close> does not own is written back, the \<open>unmatched\<close> default is written back, whatever the old policy
  required for an operation the new one requires too, and every call that the new policy allows the old one
  allowed - except that under \<open>deny\<close> an operation without a requirement becomes callable when the rule of a decision of this run matches it
  (a rule's id is an \<open>fnmatch\<close> pattern).\<close>

theorem policy_requirements_kept:
  assumes "reads_rules_back dump read ds (po_rules p)"
    and "\<forall>rule \<in> set (po_rules p). is_configure_owned (map decision_id ds) rule
           \<longrightarrow> still_decided ds rule \<and> \<not> has_richer_rule (map decision_id ds) p rule"
    and "p' = read_policy read (render_policy dump ds (Some p))"
  shows "{rule \<in> set (po_rules p). \<not> is_configure_owned (map decision_id ds) rule} \<subseteq> set (po_rules p')
         \<and> po_unmatched p' = po_unmatched p \<and> set (required_for p op) \<subseteq> set (required_for p' op)
         \<and> (pd_allowed (evaluate p' op details) \<longrightarrow> pd_allowed (evaluate p op details)
              \<or> po_unmatched p = Deny \<and> required_for p op = []
                \<and> (\<exists>d \<in> set ds. fnmatch (op_id op) (decision_id d) \<and> od_exposed d \<and> od_require d \<noteq> None))"
proof -
  have kept: "set (required_for p op) \<subseteq> set (required_for p' op)"
    using requirement_kept [OF assms(1,2)] by (simp add: assms(3))
  have new: "\<exists>d \<in> set ds. fnmatch (op_id op) (decision_id d) \<and> od_exposed d \<and> od_require d \<noteq> None"
    if "required_for p op = []" "required_for p' op \<noteq> []"
    using requirement_decided [OF assms(1)] that by (simp add: assms(3))
  have u: "po_unmatched p' = po_unmatched p" by (simp add: assms(3) read_policy_unmatched)
  have "pd_allowed (evaluate p op details) \<or> po_unmatched p = Deny \<and> required_for p op = [] \<and> required_for p' op \<noteq> []"
    if "pd_allowed (evaluate p' op details)"
    using that kept u unfolding evaluate_simps by (cases "po_unmatched p") (auto split: if_splits)
  then show ?thesis using kept u new read_policy_rules [OF assms(1)] by (auto simp: assms(3))
qed

lemma sorted_set_map:
  assumes "distinct (map f xs)"
  shows "sorted_set (map f xs) = map f (sort_key f xs)"
  by (rule sorted_distinct_set_unique) (use assms in \<open>simp_all add: distinct_map\<close>)

lemma second_run_keeps:
  assumes "\<forall>d \<in> set decisions. http_decision d" "distinct (map decision_id decisions)"
    and "previous = map (\<lambda>d. (decision_id d, recorded policy d (http_part (op_binding (od_operation d))))) (rendered_decisions decisions)"
    and "run_reconcile (map od_operation decisions) previous prm st = (Inr (res, report), st')"
  shows "\<exists>asked. sr_decisions res = map snd previous @ asked
           \<and> od_operation ` set asked = od_operation ` {d \<in> set decisions. \<not> od_exposed d}"
proof -
  let ?ds = "rendered_decisions decisions" and ?declined = "filter (\<lambda>d. \<not> od_exposed d) decisions"
  obtain asked where a: "diff_operation_ids previous (map od_operation decisions) = Inr report"
    "sr_decisions res = lookup_all previous (rr_unchanged report) @ asked"
    "map od_operation asked = sort_key tag_for (lookup_all (by_op_id (map od_operation decisions)) (rr_new report @ rr_changed report))"
    using assms(4) by (rule run_reconcile_Inr)
  note r = second_run_report [OF assms(1-3)]
  have rep: "rr_new report = sorted_set (map decision_id ?declined)" "rr_changed report = []"
    "rr_unchanged report = map decision_id ?ds"
    using a(1) unfolding r by auto
  define zs where "zs = sort_key decision_id ?declined"
  have zs: "sorted_set (map decision_id ?declined) = map decision_id zs" "set zs = set ?declined"
    using distinct_map_filter [OF assms(2)] by (simp_all add: zs_def sorted_set_map)
  have "lookup_all (by_op_id (map od_operation decisions)) (map decision_id zs) = map od_operation zs"
    unfolding by_op_id_decisions [OF assms(2)] by (rule lookup_all_own) (use assms(2) zs(2) in auto)
  then have "set (map od_operation asked) = od_operation ` set ?declined"
    unfolding a(3) rep zs by (simp add: zs(2))
  moreover have "lookup_all previous (map decision_id ?ds) = map snd previous"
    unfolding assms(3) using distinct_rendered [OF assms(2)] by (subst lookup_all_own) auto
  ultimately show ?thesis using a(2) rep(3) by (intro exI [of _ asked]) auto
qed

lemma second_run_quiet:
  assumes "\<forall>d \<in> set decisions. http_decision d" "distinct (map decision_id decisions)"
    and "previous = map (\<lambda>d. (decision_id d, recorded policy d (http_part (op_binding (od_operation d))))) (rendered_decisions decisions)"
    and "\<forall>d \<in> set decisions. od_exposed d"
  shows "\<exists>r. run_reconcile (map od_operation decisions) previous prm st
           = (Inr (\<lparr>sr_decisions = map snd previous, sr_warnings = []\<rparr>, r), st)"
proof -
  have none: "filter (\<lambda>d. \<not> od_exposed d) decisions = []" using assms(4) by (simp add: filter_empty_conv)
  have "lookup_all previous (map decision_id (rendered_decisions decisions)) = map snd previous"
    unfolding assms(3) using distinct_rendered [OF assms(2)] by (subst lookup_all_own) auto
  then show ?thesis
    unfolding run_reconcile_def second_run_report [OF assms(1-3)] none
    by (simp add: lookup_all_def map_filter_simps sorted_set_def)
qed

text \<open>C10. A second run of \<open>configure\<close> over the operations of the first asks only about those that were declined. Whatever was
  decided about the introspected operations, the configuration written records exactly the exposed ones, with their
  pinned effect and sensitivity; reconciling all the introspected operations with it reports the exposed ones
  unchanged, the declined ones - which no file records - as new, and nothing changed or removed; the
  recorded decisions are kept as they are and only the declined operations are decided again; and when nothing was
  declined, no question is asked. Pydantic is the hypothesis \<open>reads_back\<close>.\<close>

theorem second_run_unchanged:
  assumes "\<forall>d \<in> set decisions. http_decision d" and "distinct (map decision_id decisions)"
    and "render_config decisions server urls mode = Inr data" and "map_of data ''operations'' = Some (JList js)"
    and "reads_back read (rendered_decisions decisions)" and "pc_operations config = map read js"
  shows "\<exists>previous. decisions_from_config config policy = Inr previous
     \<and> map fst previous = map decision_id (rendered_decisions decisions)
     \<and> map (\<lambda>(_, d). (od_effect d, od_sensitivity d)) previous = map (\<lambda>d. (od_effect d, od_sensitivity d)) (rendered_decisions decisions)
     \<and> diff_operation_ids previous (map od_operation decisions)
         = Inr \<lparr>rr_new = sorted_set (map decision_id (filter (\<lambda>d. \<not> od_exposed d) decisions)), rr_removed = [], rr_changed = [],
                rr_unchanged = map decision_id (rendered_decisions decisions)\<rparr>
     \<and> (\<forall>res report st'. run_reconcile (map od_operation decisions) previous prm st = (Inr (res, report), st')
          \<longrightarrow> (\<exists>asked. sr_decisions res = map snd previous @ asked
                 \<and> od_operation ` set asked = od_operation ` {d \<in> set decisions. \<not> od_exposed d}))
     \<and> ((\<forall>d \<in> set decisions. od_exposed d)
          \<longrightarrow> (\<exists>r. run_reconcile (map od_operation decisions) previous prm st
                 = (Inr (\<lparr>sr_decisions = map snd previous, sr_warnings = []\<rparr>, r), st)))"
proof -
  let ?ds = "rendered_decisions decisions"
  let ?p = "map (\<lambda>d. (decision_id d, recorded policy d (http_part (op_binding (od_operation d))))) ?ds"
  have h: "\<forall>d \<in> set ?ds. http_decision d" using assms(1) by (simp add: set_rendered)
  have dis: "distinct (map decision_id ?ds)" using assms(2) by (rule distinct_rendered)
  have "pc_operations config = map (\<lambda>d. entry_of_decision d (http_part (op_binding (od_operation d)))) ?ds"
    using map_read [OF render_config_operations [OF assms(3,4)] assms(5)] assms(6) by simp
  then have "decisions_from_config config policy = Inr ?p"
    using collect_recorded [OF h dis, of "[]" policy] by (simp add: decisions_from_config_def)
  moreover have "map fst ?p = map decision_id ?ds"
    "map (\<lambda>(_, d). (od_effect d, od_sensitivity d)) ?p = map (\<lambda>d. (od_effect d, od_sensitivity d)) ?ds"
    by (simp_all add: recorded_def Let_def)
  ultimately show ?thesis
    using second_run_report [OF assms(1,2) refl, of policy] second_run_keeps [OF assms(1,2) refl, of policy prm st]
      second_run_quiet [OF assms(1,2) refl, of policy prm st]
    by (intro exI [of _ ?p]) blast
qed

text \<open>C11. What \<open>configure\<close> writes serves the tool it surveyed: the entry written for an operation of an OpenAPI document builds
  an operation with the same id, upstream, description, binding and input schema, and with the effect and
  sensitivity that were decided.\<close>

theorem written_entry_serves_same_tool:
  assumes "build_openapi upstream creds raw = Inr (Some (od_operation d))"
    and "op_binding (od_operation d) = Http b" and "\<forall>p \<in> set (hb_parameters b). p_wire_name p \<noteq> []"
    and "render_entry d = Inr j" and "reads_back read [d]"
  shows "\<exists>op. build_entry (read j) = Inr (Some op) \<and> op_id op = op_id (od_operation d)
           \<and> op_upstream op = op_upstream (od_operation d) \<and> op_description op = op_description (od_operation d)
           \<and> op_binding op = op_binding (od_operation d) \<and> op_input_schema op = op_input_schema (od_operation d)
           \<and> op_effect op = od_effect d \<and> op_sensitivity op = od_sensitivity d \<and> op_name op = op_name (od_operation d)"
proof -
  obtain b0 schema where b0: "openapi_binding raw = Inr b0" and e: "effect_for_method (hb_method b0) = Inr (op_effect (od_operation d))"
    and t: "check_path_template b0 = Inr ()" and r: "resolve_arg_names b0 = Inr b" and s: "build_input_schema b0 = Inr schema"
    and sc: "op_input_schema (od_operation d) = schema"
    by (rule build_openapi_Some [OF assms(1)]) (use assms(2) in auto)
  have m: "str_upper (hb_method b) = hb_method b"
    using b0 by (auto simp: openapi_binding_def bind_res_eq_Inr str_upper_idem resolve_arg_names_frame(1) [OF r])
  then have src: "source_binding b" using assms(3) by (simp add: source_binding_def)
  have "template_ok b" using t resolve_keeps_template [OF _ r] by (simp add: check_path_template_iff)
  then have tb: "check_path_template b = Inr ()" by (simp add: check_path_template_iff)
  have rb: "resolve_arg_names b = Inr b" using r by (rule resolve_arg_names_idem)
  have sb: "build_input_schema b = Inr schema" using resolved_schema [OF r] s by simp
  obtain names where "body_names (hb_body b) = Inr names" using rb by (rule resolve_arg_names_Inr)
  then obtain kws where k: "unsupported_body_keywords (hb_body b) = Inr kws" using keywords_of_names by blast
  have "read j = entry_of_decision d b" using assms(2,4,5) by (simp add: reads_back_def)
  then show ?thesis
    using tb rb sb k e entry_binding_back [OF src] resolve_arg_names_frame(1) [OF r] sc assms(2)
    by (simp add: build_entry_def build_http_op_def entry_of_decision_def Let_def entry_effect_def entry_operation_def or_text_def)
qed

section \<open>One decision, written and read\<close>

definition sample_owned :: policy_rule where
  "sample_owned = owned_rule sample_decision \<lparr>rd_type = ''pets'', rd_actions = []\<rparr>"

definition sample_written_policy :: policy_config where
  "sample_written_policy = \<lparr>po_unmatched = Deny, po_rules = [sample_policy_rule, sample_owned]\<rparr>"

definition sample_dump :: "policy_rule \<Rightarrow> json" where
  "sample_dump rule = (if rule = sample_owned then JStr ''owned'' else JNull)"

definition sample_read_rule :: "json \<Rightarrow> policy_rule" where
  "sample_read_rule j = (if j = JNull then sample_policy_rule else sample_owned)"

lemma sample_owned_shape:
  "\<not> is_configure_owned [''setPet''] sample_policy_rule" "is_configure_owned [''setPet''] sample_owned"
  by code_simp+

lemma sample_decision_id: "decision_id sample_decision = ''setPet''"
  by code_simp

lemma sample_rules_back: "reads_rules_back sample_dump sample_read_rule [sample_decision] (po_rules sample_written_policy)"
proof -
  have "sample_policy_rule \<noteq> sample_owned" using sample_owned_shape by metis
  then show ?thesis
    by (auto simp: reads_rules_back_def sample_written_policy_def sample_dump_def sample_read_rule_def owned_rule_json_def
        sample_owned_def sample_decision_def)
qed

lemma sample_still_decided: "still_decided [sample_decision] sample_owned"
  by (simp add: still_decided_def sample_owned_def owned_rule_def sample_decision_def)

lemma sample_not_richer: "\<not> has_richer_rule [''setPet''] sample_written_policy sample_owned"
  by code_simp

theorem policy_requirements_kept_witness:
  "po_unmatched (read_policy sample_read_rule (render_policy sample_dump [sample_decision] (Some sample_written_policy))) = Deny
   \<and> set (required_for sample_written_policy sample_write) \<subseteq> set (required_for
       (read_policy sample_read_rule (render_policy sample_dump [sample_decision] (Some sample_written_policy))) sample_write)
   \<and> required_for sample_written_policy sample_write \<noteq> []"
proof -
  have o: "\<forall>rule \<in> set (po_rules sample_written_policy). is_configure_owned (map decision_id [sample_decision]) rule
      \<longrightarrow> still_decided [sample_decision] rule \<and> \<not> has_richer_rule (map decision_id [sample_decision]) sample_written_policy rule"
    using sample_owned_shape(1) sample_still_decided sample_not_richer by (simp add: sample_written_policy_def sample_decision_id)
  have "required_for sample_written_policy sample_write \<noteq> []" by code_simp
  then show ?thesis
    using policy_requirements_kept [OF sample_rules_back o refl, of sample_write] by (simp add: sample_written_policy_def)
qed

definition sample_entry_json :: json where
  "sample_entry_json = (case render_entry sample_decision of Inr j \<Rightarrow> j | Inl _ \<Rightarrow> JNull)"

lemma sample_render_config:
  "render_config [sample_decision] ''portal'' [(''up'', ''https://api'')] ''configured''
   = Inr [(''version'', JStr ''1''), (''mode'', JStr ''configured''),
          (''server'', JObj [(''name'', JStr ''portal''), (''transport'', JStr ''stdio'')]),
          (''upstreams'', JObj [(''up'', JObj [(''base_url'', JStr ''https://api'')])]),
          (''operations'', JList [sample_entry_json])]"
  by code_simp

definition sample_written :: operation_entry where
  "sample_written = entry_of_decision sample_decision (http_part (op_binding sample_write))"

text \<open>A second operation, declined: the file written is the one of \<open>sample_decision\<close> alone.\<close>

definition sample_declined :: operation_decision where
  "sample_declined = sample_decision\<lparr>od_operation := sample_write\<lparr>op_id := ''dropPet''\<rparr>, od_exposed := False\<rparr>"

theorem second_run_unchanged_witness:
  "\<exists>previous r. decisions_from_config (sample_portal\<lparr>pc_operations := [sample_written]\<rparr>) None = Inr previous
     \<and> diff_operation_ids previous [sample_write, sample_write\<lparr>op_id := ''dropPet''\<rparr>] = Inr r
     \<and> rr_new r = [''dropPet''] \<and> rr_removed r = [] \<and> rr_changed r = [] \<and> rr_unchanged r = [''setPet'']"
proof -
  have o: "od_operation sample_decision = sample_write" "od_exposed sample_decision" by (simp_all add: sample_decision_def)
  have n: "od_operation sample_declined = sample_write\<lparr>op_id := ''dropPet''\<rparr>" "\<not> od_exposed sample_declined"
    by (simp_all add: sample_declined_def)
  have i: "decision_id sample_declined = ''dropPet''" by (simp add: decision_id_def n)
  have rd: "rendered_decisions [sample_decision, sample_declined] = [sample_decision]" by code_simp
  have b: "op_binding sample_write = Http (http_part (op_binding sample_write))" by (simp add: sample_write_def)
  have "source_binding (http_part (op_binding sample_write))" "proper_binding (http_part (op_binding sample_write))"
    by code_simp+
  then have h: "\<forall>d \<in> set [sample_decision, sample_declined]. http_decision d" using b o n by (auto simp: http_decision_def)
  have d: "distinct (map decision_id [sample_decision, sample_declined])" by (simp add: i sample_decision_id)
  have cfg: "render_config [sample_decision, sample_declined] ''portal'' [(''up'', ''https://api'')] ''configured''
     = render_config [sample_decision] ''portal'' [(''up'', ''https://api'')] ''configured''"
    using rd by (simp add: render_config_def rendered_decisions_def o)
  have readback: "reads_back (\<lambda>_. sample_written) (rendered_decisions [sample_decision, sample_declined])"
    by (simp add: reads_back_def rd sample_written_def o)
  have c: "pc_operations (sample_portal\<lparr>pc_operations := [sample_written]\<rparr>) = map (\<lambda>_. sample_written) [sample_entry_json]" by simp
  have m: "map_of [(''version'', JStr ''1''), (''mode'', JStr ''configured''),
          (''server'', JObj [(''name'', JStr ''portal''), (''transport'', JStr ''stdio'')]),
          (''upstreams'', JObj [(''up'', JObj [(''base_url'', JStr ''https://api'')])]),
          (''operations'', JList [sample_entry_json])] ''operations'' = Some (JList [sample_entry_json])" by simp
  show ?thesis
    using second_run_unchanged [OF h d cfg [unfolded sample_render_config] m readback c, of None stdin_prompter "[]"] unfolding rd
    by (auto simp: o n i sample_decision_id sorted_set_def)
qed

definition sample_pet_decision :: operation_decision where
  "sample_pet_decision =
     \<lparr>od_operation = sample_openapi_op, od_exposed = True, od_effect = READ_ONLY, od_sensitivity = NORMAL, od_require = None\<rparr>"

theorem written_entry_serves_same_tool_witness:
  "\<exists>op. build_entry (entry_of_decision sample_pet_decision (http_part (op_binding sample_openapi_op))) = Inr (Some op)
     \<and> op_input_schema op = op_input_schema sample_openapi_op \<and> op_sensitivity op = NORMAL"
proof -
  let ?b = "http_part (op_binding sample_openapi_op)"
  have o: "od_operation sample_pet_decision = sample_openapi_op" by (simp add: sample_pet_decision_def)
  have h: "op_binding (od_operation sample_pet_decision) = Http ?b" by (simp add: o sample_openapi_op_def)
  have w: "\<forall>p \<in> set (hb_parameters ?b). p_wire_name p \<noteq> []" by (simp add: sample_openapi_op_def)
  obtain j where j: "render_entry sample_pet_decision = Inr j" using h by (simp add: render_entry_def Let_def)
  have readback: "reads_back (\<lambda>_. entry_of_decision sample_pet_decision ?b) [sample_pet_decision]"
    by (simp add: reads_back_def o)
  show ?thesis
    using written_entry_serves_same_tool [OF _ h w j readback, of "''up''" "[''authorization'']" sample_raw] sample_openapi_build
    unfolding o by (auto simp: sample_pet_decision_def)
qed

section \<open>Requirements that a run loses\<close>

text \<open>Two rules for one operation, one of them richer than \<open>configure\<close> can express: the richer one is kept, and the other is neither
  kept nor generated again, so the operation requires less than before.\<close>

definition sample_rich :: policy_rule where
  "sample_rich = sample_owned\<lparr>pr_require := Some [\<lparr>rq_type = ''audit'', rq_actions = None, rq_locations = Some [''eu''],
     rq_datatypes = None, rq_identifier = None, rq_privileges = None\<rparr>]\<rparr>"

lemma owned_rule_dropped:
  "is_configure_owned [''setPet''] sample_owned
   \<and> foreign_rules [''setPet''] (Some \<lparr>po_unmatched = Deny, po_rules = [sample_rich, sample_owned]\<rparr>) = [sample_rich]
   \<and> generated_for [sample_decision] (Some \<lparr>po_unmatched = Deny, po_rules = [sample_rich, sample_owned]\<rparr>) = []"
  by code_simp

text \<open>A read-only operation is never asked for a requirement, so surveying it again loses the rule it had.\<close>

lemma read_only_requirement_dropped:
  "op_effect sample_read = READ_ONLY
   \<and> od_require (accept_one [(''listPets'', sample_decision)] sample_read) = None
   \<and> foreign_rules [''listPets''] (Some \<lparr>po_unmatched = Allow,
       po_rules = [sample_owned\<lparr>pr_match := (pr_match sample_owned)\<lparr>pm_ids := [''listPets'']\<rparr>\<rparr>]\<rparr>) = []"
  by code_simp

text \<open>A rule's ids are patterns: the rule written for an operation whose id holds a bracket does not match that operation.\<close>

lemma bracket_id_not_matched:
  "pm_ids (pr_match (owned_rule (sample_decision\<lparr>od_operation := sample_write\<lparr>op_id := ''set[Pet]''\<rparr>\<rparr>) \<lparr>rd_type = ''pets'', rd_actions = []\<rparr>)) = [''set[Pet]'']
   \<and> \<not> policy_matches (sample_write\<lparr>op_id := ''set[Pet]''\<rparr>)
         (pr_match (owned_rule (sample_decision\<lparr>od_operation := sample_write\<lparr>op_id := ''set[Pet]''\<rparr>\<rparr>) \<lparr>rd_type = ''pets'', rd_actions = []\<rparr>))"
  by code_simp

end
