(* ===== verification/Cli.thy ===== *)
theory Cli
  imports Startup ServerHttp Render
begin

text \<open>
  The command line (\<open>cli.py\<close>): \<open>serve\<close>, \<open>validate\<close> and \<open>configure\<close> over the files and the lines typed. \<open>argparse\<close> and
  the logging setup are outside. \<open>toolkit\<close> gathers what the commands use that is not under \<open>src/\<close>: the world of the running
  process, whose files are those of the run's state, \<open>os.environ\<close>, Pydantic's parsing and dumping,
  the YAML renderers, and the SDK's validation and defaults. A command that serves runs until its transport closes.
\<close>

section \<open>Outcomes\<close>

datatype cli_error =
    LoadFailed load_config_error
  | IntrospectFailed introspect_error
  | ConfigureFailed configure_error
  | AppFailed app_error
  | HttpFailed http_error
  | PolicyRejected "string + policy_error"
  | CliCrash string

fun is_load_crash :: "load_config_error \<Rightarrow> bool" where
  "is_load_crash (YamlCrash _) = True"
| "is_load_crash (CheckFailed (Uncaught _)) = True"
| "is_load_crash _ = False"

fun is_introspect_crash :: "introspect_error \<Rightarrow> bool" where
  "is_introspect_crash (IntrospectCrash _) = True"
| "is_introspect_crash (IntrospectIllTyped _) = True"
| "is_introspect_crash _ = False"

fun is_app_crash :: "app_error \<Rightarrow> bool" where
  "is_app_crash (ConfigFailed (Uncaught _)) = True"
| "is_app_crash (IntrospectionFailed e) = is_introspect_crash e"
| "is_app_crash (RegistryFailed (Naming (UnpublishableName _))) = True"
| "is_app_crash (RegistryFailed NameShadowed) = True"
| "is_app_crash (StartupAssertion _) = True"
| "is_app_crash _ = False"

text \<open>The errors that are a \<open>ConfigError\<close>; every other one is an exception that nothing in \<open>cli.py\<close> catches.\<close>

fun is_config_error :: "cli_error \<Rightarrow> bool" where
  "is_config_error (LoadFailed e) = (\<not> is_load_crash e)"
| "is_config_error (IntrospectFailed e) = (\<not> is_introspect_crash e)"
| "is_config_error (ConfigureFailed (GraphQlNotRendered _)) = True"
| "is_config_error (ConfigureFailed _) = False"
| "is_config_error (AppFailed e) = (\<not> is_app_crash e)"
| "is_config_error (HttpFailed (AuthSettingsInvalid _)) = True"
| "is_config_error (HttpFailed (BadLocal _)) = True"
| "is_config_error (HttpFailed _) = False"
| "is_config_error (PolicyRejected _) = False"
| "is_config_error (CliCrash _) = False"

datatype outcome =
    Done
  | Refused cli_error
  | Crashed cli_error
  | Serving invoker "http_app option"

fun exit_status :: "outcome \<Rightarrow> nat" where
  "exit_status Done = 0"
| "exit_status (Refused _) = 2"
| "exit_status (Crashed _) = 1"
| "exit_status (Serving _ _) = 0"

definition guarded :: "(cli_error + 'a) \<times> run_state \<Rightarrow> ('a \<Rightarrow> run_state \<Rightarrow> outcome \<times> run_state) \<Rightarrow> outcome \<times> run_state" where
  "guarded m f =
     (case m of
        (Inl e, st) \<Rightarrow> (if is_config_error e then Refused e else Crashed e, st)
      | (Inr x, st) \<Rightarrow> f x st)"

definition unguarded :: "(cli_error + 'a) \<times> run_state \<Rightarrow> ('a \<Rightarrow> run_state \<Rightarrow> outcome \<times> run_state) \<Rightarrow> outcome \<times> run_state" where
  "unguarded m f = (case m of (Inl e, st) \<Rightarrow> (Crashed e, st) | (Inr x, st) \<Rightarrow> f x st)"

definition asking :: "(configure_error + 'a) \<times> run_state \<Rightarrow> (cli_error + 'a) \<times> run_state" where
  "asking m = (case m of (r, st) \<Rightarrow> (wrap_error ConfigureFailed r, st))"

section \<open>The toolkit\<close>

record toolkit =
  tk_world :: world
  tk_environ :: "string \<rightharpoonup> string"
  tk_parse :: "json \<Rightarrow> string + portal_config"
  tk_parse_policy :: "json \<Rightarrow> string + policy_config"
  tk_dump_config :: "portal_config \<Rightarrow> jobj"
  tk_dump_upstream :: "upstream_config \<Rightarrow> json"
  tk_dump_rule :: "policy_rule \<Rightarrow> json"
  tk_yaml :: yaml_outside
  tk_auth_ok :: "string \<Rightarrow> string \<Rightarrow> bool"
  tk_idle :: rat
  tk_sessions :: int

definition read_file :: "files \<Rightarrow> string \<Rightarrow> string + string" where
  "read_file fs path = (case map_of fs path of Some text \<Rightarrow> Inr text | None \<Rightarrow> Inl ''No such file or directory'')"

definition outside_of :: "toolkit \<Rightarrow> files \<Rightarrow> outside" where
  "outside_of tk fs = (wo_outside (tk_world tk))\<lparr>ou_read := read_file fs\<rparr>"

definition realpath_of :: "toolkit \<Rightarrow> string \<Rightarrow> string" where
  "realpath_of tk = ou_real (wo_outside (tk_world tk))"

definition load_from :: "toolkit \<Rightarrow> string \<Rightarrow> run_state \<Rightarrow> (cli_error + loaded_config) \<times> run_state" where
  "load_from tk path st =
     (wrap_error LoadFailed
        (load_config (outside_of tk (rs_files st)) (tk_environ tk) (tk_parse tk) (tk_parse_policy tk) path), st)"

section \<open>Paths\<close>

text \<open>\<open>str(Path(p))\<close>: repeated slashes and \<open>.\<close> parts go, and exactly two leading slashes stay.\<close>

definition path_str :: "string \<Rightarrow> string" where
  "path_str p =
     (let lead = (if starts_with ''//'' p \<and> \<not> starts_with ''///'' p then ''//'' else if starts_with ''/'' p then ''/'' else []);
          parts = filter (\<lambda>q. q \<noteq> [] \<and> q \<noteq> ''.'') (split_char (CHR ''/'') p);
          text = lead @ str_join ''/'' parts
      in if text = [] then ''.'' else text)"

definition join_path :: "string \<Rightarrow> string \<Rightarrow> string" where
  "join_path parent target = path_str (resolve_path parent target)"

definition default_policy_path :: "string \<Rightarrow> string option \<Rightarrow> string" where
  "default_policy_path config_path loaded_policy_file =
     (case loaded_policy_file of
        Some file \<Rightarrow> join_path (parent_dir config_path) file
      | None \<Rightarrow>
          join_path (parent_dir config_path)
            (''policy'' @ (if path_suffix config_path = ''.json'' then ''.json'' else ''.yaml'')))"

section \<open>Configure\<close>

definition report_messages :: "reconcile_report \<Rightarrow> message list" where
  "report_messages report =
     (if rr_removed report \<noteq> [] then [RemovedFromOutput (rr_removed report)] else [])
     @ (if rr_new report \<noteq> [] then [NewSurveyed (rr_new report)] else [])
     @ (if rr_changed report \<noteq> [] then [ChangedConfirmed (rr_changed report)] else [])"

definition decide_operations ::
    "loaded_config \<Rightarrow> operation list \<Rightarrow> run_state \<Rightarrow> (cli_error + operation_decision list) \<times> run_state" where
  "decide_operations loaded operations st =
     (if pc_operations (lc_config loaded) \<noteq> []
      then bind_st (asking (decisions_from_config (lc_config loaded) (lc_policy loaded), st)) (\<lambda>previous st1.
           bind_st (asking (prompting (run_reconcile operations previous stdin_prompter) st1)) (\<lambda>(result, report) st2.
           (Inr (sr_decisions result), say (report_messages report) st2)))
      else bind_st (asking (prompting (run_survey operations stdin_prompter []) st)) (\<lambda>result st1.
           (Inr (sr_decisions result), st1)))"

fun pin_base_urls ::
    "(upstream_config \<Rightarrow> json) \<Rightarrow> (string, upstream_config) pydict \<Rightarrow> (string, string) pydict \<Rightarrow> jobj \<Rightarrow> cli_error + jobj" where
  "pin_base_urls dump ups [] rendered = Inr rendered"
| "pin_base_urls dump ups ((key, url) # urls) rendered =
     (case map_of rendered ''upstreams'' of
        Some (JObj d) \<Rightarrow>
          if key \<in> fst ` set d \<and> url \<noteq> []
          then (case map_of ups key of
                  None \<Rightarrow> Inl (CliCrash ''KeyError'')
                | Some u \<Rightarrow>
                    pin_base_urls dump ups urls
                      (AList.update ''upstreams'' (JObj (AList.update key (dump (u\<lparr>up_base_url := Some url\<rparr>)) d)) rendered))
          else pin_base_urls dump ups urls rendered
      | _ \<Rightarrow> Inl (CliCrash ''KeyError''))"

definition operations_of :: "jobj \<Rightarrow> json" where
  "operations_of data = jget data ''operations'' JNull"

definition rendered_configuration ::
    "toolkit \<Rightarrow> portal_config \<Rightarrow> operation_decision list \<Rightarrow> (string, string) pydict \<Rightarrow> string \<Rightarrow> cli_error + jobj" where
  "rendered_configuration tk config decisions base_urls policy_path =
     bind_res (wrap_error ConfigureFailed (render_config decisions (sv_name (pc_server config)) base_urls ''configured'')) (\<lambda>data.
     pin_base_urls (tk_dump_upstream tk) (pc_upstreams config) base_urls
       (AList.update ''policy'' (JObj [(''file'', JStr policy_path)])
         (AList.update ''operations'' (operations_of data)
           (AList.update ''mode'' (JStr ''configured'') (tk_dump_config tk config)))))"

definition plan_configure ::
    "toolkit \<Rightarrow> loaded_config \<Rightarrow> string \<Rightarrow> run_state \<Rightarrow> (cli_error + jobj \<times> jobj) \<times> run_state" where
  "plan_configure tk loaded policy_path st =
     (let w = tk_world tk
      in bind_st (wrap_error IntrospectFailed
             (introspect_upstreams (outside_of tk (rs_files st)) (wo_ask w) (wo_fuel w) (lc_config loaded) (lc_base_dir loaded)), st)
           (\<lambda>(operations, base_urls) st1.
         bind_st (decide_operations loaded operations st1) (\<lambda>decisions st2.
         bind_st (rendered_configuration tk (lc_config loaded) decisions base_urls policy_path, st2) (\<lambda>config st3.
         (Inr (config, render_policy (tk_dump_rule tk) decisions (lc_policy loaded)), st3)))))"

definition check_written_policy :: "toolkit \<Rightarrow> files \<Rightarrow> string \<Rightarrow> cli_error + policy_config" where
  "check_written_policy tk fs path =
     (let out = outside_of tk fs
      in case ou_read out (ou_real out path) of
           Inl msg \<Rightarrow> Inl (CliCrash msg)
         | Inr text \<Rightarrow>
             (case ou_yaml out text of
                Inl msg \<Rightarrow> Inl (CliCrash msg)
              | Inr raw \<Rightarrow> wrap_error PolicyRejected (model_validate (tk_parse_policy tk) validate_policy raw)))"

definition write_documents :: "toolkit \<Rightarrow> string \<Rightarrow> string \<Rightarrow> jobj \<times> jobj \<Rightarrow> run_state \<Rightarrow> outcome \<times> run_state" where
  "write_documents tk config_path policy_path docs st =
     unguarded (asking (write_with_confirmation (tk_yaml tk) (realpath_of tk) stdin_prompter policy_path (snd docs) st)) (\<lambda>ok st1.
     if \<not> ok then (Done, say [NotWritten ''policy''] st1)
     else unguarded (asking (write_with_confirmation (tk_yaml tk) (realpath_of tk) stdin_prompter config_path (fst docs) st1)) (\<lambda>ok st2.
       if \<not> ok then (Done, say [NotWritten ''config''] st2)
       else unguarded (check_written_policy tk (rs_files st2) policy_path, st2) (\<lambda>_ st3. (Done, st3))))"

definition policy_path_for :: "toolkit \<Rightarrow> string \<Rightarrow> string option \<Rightarrow> portal_config \<Rightarrow> string" where
  "policy_path_for tk config_path policy_arg config =
     (case policy_arg of
        Some p \<Rightarrow> p
      | None \<Rightarrow> default_policy_path (realpath_of tk config_path) (pc_policy_file config))"

definition run_configure :: "toolkit \<Rightarrow> string \<Rightarrow> string option \<Rightarrow> run_state \<Rightarrow> outcome \<times> run_state" where
  "run_configure tk config_path policy_arg st =
     guarded (load_from tk config_path st) (\<lambda>loaded st1.
     let policy_path = policy_path_for tk config_path policy_arg (lc_config loaded)
     in guarded (plan_configure tk loaded policy_path st1) (\<lambda>docs st2.
        write_documents tk config_path policy_path docs st2))"

section \<open>The commands\<close>

datatype cli_command =
    Serve string
  | Validate string
  | Configure string "string option"

definition app_from :: "toolkit \<Rightarrow> loaded_config \<Rightarrow> run_state \<Rightarrow> (cli_error + invoker) \<times> run_state" where
  "app_from tk loaded st =
     (wrap_error AppFailed (build_app ((tk_world tk)\<lparr>wo_outside := outside_of tk (rs_files st)\<rparr>) loaded), st)"

definition serve_app :: "toolkit \<Rightarrow> loaded_config \<Rightarrow> invoker \<Rightarrow> run_state \<Rightarrow> outcome \<times> run_state" where
  "serve_app tk loaded portal st =
     (if sv_transport (pc_server (lc_config loaded)) = Stdio then (Serving portal None, st)
      else unguarded (wrap_error HttpFailed (build_http_app (ou_bracket_ok (outside_of tk (rs_files st))) (tk_auth_ok tk)
                        (tk_idle tk) (tk_sessions tk) (lc_config loaded)), st) (\<lambda>http st1.
           (Serving portal (Some http), st1)))"

definition with_app ::
    "toolkit \<Rightarrow> string \<Rightarrow> (loaded_config \<Rightarrow> invoker \<Rightarrow> run_state \<Rightarrow> outcome \<times> run_state) \<Rightarrow> run_state \<Rightarrow> outcome \<times> run_state" where
  "with_app tk path run st =
     guarded (load_from tk path st) (\<lambda>loaded st1.
     guarded (app_from tk loaded st1) (\<lambda>portal st2. run loaded portal st2))"

definition main :: "toolkit \<Rightarrow> cli_command \<Rightarrow> run_state \<Rightarrow> outcome \<times> run_state" where
  "main tk cmd st =
     (case cmd of
        Configure config policy \<Rightarrow> run_configure tk (path_str config) (map_option path_str policy) st
      | Validate config \<Rightarrow>
          with_app tk (path_str config) (\<lambda>loaded portal st1.
            (Done, say (map (\<lambda>t. ToolLine (mt_name t) (mt_title t)) (invoker_tools portal)) st1)) st
      | Serve config \<Rightarrow> with_app tk (path_str config) (serve_app tk) st)"

section \<open>What a run leaves alone\<close>

lemma say_frame [simp]: "rs_files (say ms st) = rs_files st" "rs_typed (say ms st) = rs_typed st" "rs_said (say ms st) = rs_said st @ ms"
  by (simp_all add: say_def)

lemma asking_Inr: "asking m = (Inr x, st) \<longleftrightarrow> m = (Inr x, st)"
  by (cases m) (simp add: asking_def)

lemma prompting_Inr:
  "prompting m st = (Inr x, st') \<longleftrightarrow> (\<exists>rest. m (rs_typed st) = (Inr x, rest) \<and> st' = st\<lparr>rs_typed := rest\<rparr>)"
  by (auto simp: prompting_def split: prod.splits)

lemma asking_state [simp]: "snd (asking m) = snd m"
  by (cases m) (simp add: asking_def)

lemma prompting_files [simp]: "rs_files (snd (prompting m st)) = rs_files st"
  by (simp add: prompting_def split: prod.splits)

text \<open>A part of a run that changes no file.\<close>

definition reads_only :: "(run_state \<Rightarrow> ('e + 'a) \<times> run_state) \<Rightarrow> bool" where
  "reads_only q \<longleftrightarrow> (\<forall>st. rs_files (snd (q st)) = rs_files st)"

lemma reads_only_bind: "reads_only q \<Longrightarrow> (\<And>x. reads_only (r x)) \<Longrightarrow> reads_only (\<lambda>st. bind_st (q st) r)"
  unfolding reads_only_def bind_st_def by (metis (mono_tags, lifting) case_prod_beta old.sum.exhaust snd_conv sum.simps(5,6))

lemma reads_only_return: "reads_only (\<lambda>st. (f st, st))"
  by (simp add: reads_only_def)

lemma reads_only_say: "reads_only (\<lambda>st. (x, say ms st))"
  by (simp add: reads_only_def)

lemma reads_only_prompting: "reads_only (\<lambda>st. asking (prompting m st))"
  by (simp add: reads_only_def)

lemma reads_only_asking: "reads_only (\<lambda>st. asking (x, st))"
  by (simp add: reads_only_def)

lemmas reads_only_intros = reads_only_bind reads_only_return reads_only_say reads_only_prompting reads_only_asking

lemma reads_only_prod: "(\<And>a b. reads_only (r a b)) \<Longrightarrow> reads_only ((\<lambda>(a, b). r a b) ab)"
  by (cases ab) simp

lemma decide_operations_files: "reads_only (decide_operations loaded operations)"
proof (cases "pc_operations (lc_config loaded) = []")
  case True
  then show ?thesis unfolding decide_operations_def by (auto intro!: reads_only_intros)
next
  case False
  then show ?thesis unfolding decide_operations_def by (auto intro!: reads_only_intros reads_only_prod)
qed

lemma plan_configure_files:
  assumes "plan_configure tk loaded policy_path st = (r, st')"
  shows "rs_files st' = rs_files st"
proof -
  have "reads_only (\<lambda>st. bind_st (introspected, st) (\<lambda>(operations, base_urls) st1.
         bind_st (decide_operations loaded operations st1) (\<lambda>decisions st2.
         bind_st (rendered_configuration tk (lc_config loaded) decisions base_urls policy_path, st2) (\<lambda>config st3.
         (Inr (config, render_policy (tk_dump_rule tk) decisions (lc_policy loaded)), st3)))))" for introspected
    by (intro reads_only_bind reads_only_return reads_only_prod decide_operations_files)
  note this [unfolded reads_only_def, rule_format, of "wrap_error IntrospectFailed (introspect_upstreams (outside_of tk (rs_files st))
      (wo_ask (tk_world tk)) (wo_fuel (tk_world tk)) (lc_config loaded) (lc_base_dir loaded))" st]
  then show ?thesis using assms unfolding plan_configure_def Let_def by simp
qed

section \<open>Confirmed writes\<close>

text \<open>One document written to one path: the difference from the old text to exactly the new one was shown, the next line
  typed confirmed it, and no other file changed.\<close>

definition confirmed_write :: "toolkit \<Rightarrow> string \<Rightarrow> jobj \<Rightarrow> run_state \<Rightarrow> run_state \<Rightarrow> bool" where
  "confirmed_write tk path doc st st' \<longleftrightarrow>
     (\<exists>text fidelity line.
        render_text (tk_yaml tk) (realpath_of tk) (rs_files st) path doc = Inr (text, fidelity)
        \<and> rs_typed st = line # rs_typed st' \<and> str_lower (str_strip line) \<in> {[], ''y'', ''yes''}
        \<and> rs_said st' = rs_said st @ [Shown path fidelity (case map_of (rs_files st) (realpath_of tk path) of Some t \<Rightarrow> t | None \<Rightarrow> []) text]
        \<and> rs_files st' = AList.update (realpath_of tk path) text (rs_files st))"

lemma write_with_confirmation_cases:
  assumes "write_with_confirmation (tk_yaml tk) (realpath_of tk) stdin_prompter path doc st = (r, st')"
  shows "(r = Inr True \<and> confirmed_write tk path doc st st') \<or> (r \<noteq> Inr True \<and> rs_files st' = rs_files st)"
proof (cases "render_text (tk_yaml tk) (realpath_of tk) (rs_files st) path doc")
  case (Inl e)
  then show ?thesis using assms by (auto simp: write_with_confirmation_def)
next
  case (Inr tf)
  obtain new fidelity where tf: "tf = (new, fidelity)" by fastforce
  show ?thesis
  proof (cases "rs_typed st")
    case Nil
    then show ?thesis
      using assms by (auto simp: write_with_confirmation_def Inr tf prompting_def stdin_prompter_def stdin_confirm_def)
  next
    case (Cons line rest)
    then show ?thesis
      using assms Inr
      by (auto simp: write_with_confirmation_def tf prompting_def stdin_prompter_def stdin_confirm_def confirmed_write_def Let_def
          split: if_splits)
  qed
qed

lemma asking_write_cases:
  assumes "asking (write_with_confirmation (tk_yaml tk) (realpath_of tk) stdin_prompter path doc st) = (r, st')"
  shows "(r = Inr True \<and> confirmed_write tk path doc st st') \<or> (r \<noteq> Inr True \<and> rs_files st' = rs_files st)"
proof -
  obtain q st1 where w: "write_with_confirmation (tk_yaml tk) (realpath_of tk) stdin_prompter path doc st = (q, st1)" by fastforce
  then have "r = wrap_error ConfigureFailed q" "st' = st1" using assms by (auto simp: asking_def)
  then show ?thesis using write_with_confirmation_cases [OF w] by simp
qed

lemma unguarded_status: "(\<And>x st1. exit_status (fst (f x st1)) \<noteq> 2) \<Longrightarrow> exit_status (fst (unguarded m f)) \<noteq> 2"
  by (auto simp: unguarded_def split: prod.splits sum.splits)

lemma write_documents_status: "exit_status (fst (write_documents tk config_path policy_path docs st)) \<noteq> 2"
  unfolding write_documents_def
proof (rule unguarded_status)
  fix ok st1
  have "exit_status (fst (unguarded m (\<lambda>_ st3. (Done, st3)))) \<noteq> 2" for m :: "(cli_error + policy_config) \<times> run_state"
    by (rule unguarded_status) simp
  then have "exit_status (fst (unguarded m (\<lambda>ok st2. if \<not> ok then (Done, say [NotWritten ''config''] st2)
       else unguarded (check_written_policy tk (rs_files st2) policy_path, st2) (\<lambda>_ st3. (Done, st3))))) \<noteq> 2" for m
    by (intro unguarded_status) simp
  then show "exit_status (fst (if \<not> ok then (Done, say [NotWritten ''policy''] st1)
     else unguarded (asking (write_with_confirmation (tk_yaml tk) (realpath_of tk) stdin_prompter config_path (fst docs) st1)) (\<lambda>ok st2.
       if \<not> ok then (Done, say [NotWritten ''config''] st2)
       else unguarded (check_written_policy tk (rs_files st2) policy_path, st2) (\<lambda>_ st3. (Done, st3))))) \<noteq> 2"
    by simp
qed

lemma write_documents_cases:
  assumes "write_documents tk config_path policy_path docs st = (out, st')"
  shows "rs_files st' = rs_files st
    \<or> (\<exists>st1. confirmed_write tk policy_path (snd docs) st st1
         \<and> (rs_files st' = rs_files st1
            \<or> (\<exists>st2. confirmed_write tk config_path (fst docs) st1 st2 \<and> rs_files st' = rs_files st2)))"
proof -
  obtain r1 st1 where w1: "asking (write_with_confirmation (tk_yaml tk) (realpath_of tk) stdin_prompter policy_path (snd docs) st) = (r1, st1)"
    by fastforce
  obtain r2 st2 where w2: "asking (write_with_confirmation (tk_yaml tk) (realpath_of tk) stdin_prompter config_path (fst docs) st1) = (r2, st2)"
    by fastforce
  consider "r1 = Inr True" "r2 = Inr True" "rs_files st' = rs_files st2" | "r1 = Inr True" "r2 \<noteq> Inr True" "rs_files st' = rs_files st2"
    | "r1 \<noteq> Inr True" "rs_files st' = rs_files st1"
    using assms unfolding write_documents_def w1 unguarded_def
    by (cases r1; cases r2) (auto simp: w2 split: if_splits sum.splits)
  then show ?thesis
    using asking_write_cases [OF w1] asking_write_cases [OF w2] by cases auto
qed

lemma guarded_cases:
  assumes "guarded m f = (out, st')"
  obtains e st1 where "m = (Inl e, st1)" "out = (if is_config_error e then Refused e else Crashed e)" "st' = st1"
  | x st1 where "m = (Inr x, st1)" "f x st1 = (out, st')"
  using assms by (auto simp: guarded_def split: prod.splits sum.splits)

lemma load_from_state: "load_from tk path st = (r, st1) \<Longrightarrow> st1 = st"
  by (simp add: load_from_def)

lemma app_from_state: "app_from tk loaded st = (r, st1) \<Longrightarrow> st1 = st"
  by (simp add: app_from_def)

lemma serve_app_state: "serve_app tk loaded portal st = (out, st') \<Longrightarrow> st' = st \<and> exit_status out \<noteq> 2"
  by (auto simp: serve_app_def unguarded_def split: if_splits sum.splits)

lemma with_app_files:
  assumes "with_app tk path run st = (out, st')"
    and "\<And>loaded portal out st1. run loaded portal st = (out, st1) \<Longrightarrow> rs_files st1 = rs_files st"
  shows "rs_files st' = rs_files st"
  using assms(1) unfolding with_app_def
proof (rule guarded_cases)
  fix loaded st1
  assume l: "load_from tk path st = (Inr loaded, st1)" and r: "guarded (app_from tk loaded st1) (\<lambda>portal st2. run loaded portal st2) = (out, st')"
  show ?thesis
    using r by (rule guarded_cases) (use l assms(2) in \<open>auto dest!: load_from_state app_from_state\<close>)
qed (auto dest: load_from_state)

lemma run_configure_cases:
  assumes "run_configure tk config_path policy_arg st = (out, st')"
  obtains "rs_files st' = rs_files st"
  | loaded docs st1 where "load_from tk config_path st = (Inr loaded, st)"
      "plan_configure tk loaded (policy_path_for tk config_path policy_arg (lc_config loaded)) st = (Inr docs, st1)"
      "write_documents tk config_path (policy_path_for tk config_path policy_arg (lc_config loaded)) docs st1 = (out, st')"
  using assms unfolding run_configure_def Let_def
proof (rule guarded_cases)
  fix loaded st1
  assume l: "load_from tk config_path st = (Inr loaded, st1)"
    and r: "guarded (plan_configure tk loaded (policy_path_for tk config_path policy_arg (lc_config loaded)) st1)
      (write_documents tk config_path (policy_path_for tk config_path policy_arg (lc_config loaded))) = (out, st')"
  note st1 = load_from_state [OF l]
  show thesis
    using r by (rule guarded_cases) (use l st1 plan_configure_files that in \<open>auto\<close>)
qed (auto dest: load_from_state intro: that(1))

section \<open>Properties\<close>

text \<open>C6. Nothing is written that was not shown and confirmed: a command changes files only if it is \<open>configure\<close>, and then the
  policy first and the configuration after it; each write puts on disk exactly the text whose difference from the old one
  was just printed, after the operator's next line agreed, and a run that is refused with status 2 changes nothing.\<close>

theorem files_change_only_confirmed:
  assumes "main tk cmd st = (out, st')"
  shows "rs_files st' = rs_files st
     \<or> (exit_status out \<noteq> 2
        \<and> (\<exists>config policy loaded docs st1 st2.
             cmd = Configure config policy \<and> load_from tk (path_str config) st = (Inr loaded, st)
             \<and> plan_configure tk loaded (policy_path_for tk (path_str config) (map_option path_str policy) (lc_config loaded)) st = (Inr docs, st1)
             \<and> rs_files st1 = rs_files st
             \<and> confirmed_write tk (policy_path_for tk (path_str config) (map_option path_str policy) (lc_config loaded)) (snd docs) st1 st2
             \<and> (rs_files st' = rs_files st2
                \<or> (\<exists>st3. confirmed_write tk (path_str config) (fst docs) st2 st3 \<and> rs_files st' = rs_files st3))))"
proof (cases cmd)
  case (Configure config policy)
  then have "run_configure tk (path_str config) (map_option path_str policy) st = (out, st')" using assms by (simp add: main_def)
  then show ?thesis
  proof (rule run_configure_cases)
    fix loaded :: loaded_config and docs st1
    let ?policy = "policy_path_for tk (path_str config) (map_option path_str policy) (lc_config loaded)"
    assume p: "load_from tk (path_str config) st = (Inr loaded, st)" "plan_configure tk loaded ?policy st = (Inr docs, st1)"
      and w: "write_documents tk (path_str config) ?policy docs st1 = (out, st')"
    have "exit_status out \<noteq> 2" using write_documents_status [of tk "path_str config" ?policy docs st1] w by simp
    then show ?thesis
      using Configure p plan_configure_files [OF p(2)] write_documents_cases [OF w] by (cases docs) auto
  qed simp
next
  case (Serve config)
  then have "with_app tk (path_str config) (serve_app tk) st = (out, st')" using assms by (simp add: main_def)
  then show ?thesis using with_app_files serve_app_state by blast
next
  case (Validate config)
  then show ?thesis using assms unfolding main_def by (auto dest!: with_app_files)
qed

section \<open>The plan of a run\<close>

lemma introspect_loop_distinct:
  "introspect_loop one kus ops urls = Inr (ops', urls') \<Longrightarrow> distinct (map fst urls) \<Longrightarrow> distinct (map fst urls')"
proof (induction kus arbitrary: ops urls)
  case (Cons ku kus)
  obtain found url where "introspect_loop one kus (ops @ found) (AList.update (fst ku) url urls) = Inr (ops', urls')"
    using Cons.prems(1) by (rule introspect_loop_Cons)
  then show ?case using Cons.IH Cons.prems(2) by (simp add: distinct_update)
qed simp

lemma pin_base_urls_frame:
  "pin_base_urls dump ups urls rendered = Inr doc \<Longrightarrow> k \<noteq> ''upstreams'' \<Longrightarrow> map_of doc k = map_of rendered k"
  by (induction dump ups urls rendered rule: pin_base_urls.induct)
    (auto simp: update_conv' split: option.splits json.splits if_splits)

text \<open>The upstreams of the new document: those of the old, each with the base URL that was resolved for it.\<close>

definition pinned_value ::
    "(upstream_config \<Rightarrow> json) \<Rightarrow> (string, upstream_config) pydict \<Rightarrow> (string, string) pydict \<Rightarrow> jobj \<Rightarrow> string \<Rightarrow> json option" where
  "pinned_value dump ups urls d k =
     (case map_of urls k of
        None \<Rightarrow> map_of d k
      | Some url \<Rightarrow>
          if url \<noteq> [] then map_option (\<lambda>u. dump (u\<lparr>up_base_url := Some url\<rparr>)) (map_of ups k) else map_of d k)"

definition pinned :: "(upstream_config \<Rightarrow> json) \<Rightarrow> (string, upstream_config) pydict \<Rightarrow> (string, string) pydict \<Rightarrow> jobj \<Rightarrow> jobj \<Rightarrow> bool" where
  "pinned dump ups urls d d' \<longleftrightarrow> map fst d' = map fst d \<and> (\<forall>k \<in> fst ` set d. map_of d' k = pinned_value dump ups urls d k)"

lemma pinned_value_Cons:
  "k \<noteq> key \<Longrightarrow> pinned_value dump ups ((key, url) # urls) d k = pinned_value dump ups urls d k"
  by (simp add: pinned_value_def)

lemma pinned_value_update: "k \<noteq> key \<Longrightarrow> pinned_value dump ups urls (AList.update key v d) k = pinned_value dump ups urls d k"
  by (simp add: pinned_value_def update_conv' split: option.splits)

lemma pinned_value_fresh: "key \<notin> fst ` set urls \<Longrightarrow> pinned_value dump ups urls d key = map_of d key"
  by (simp add: pinned_value_def map_of_eq_None_iff [THEN iffD2])

lemma update_present: "k \<in> fst ` set d \<Longrightarrow> map fst (AList.update k v d) = map fst d"
  by (simp add: update_keys)

lemma pin_base_urls_pinned:
  "pin_base_urls dump ups urls rendered = Inr doc \<Longrightarrow> map_of rendered ''upstreams'' = Some (JObj d) \<Longrightarrow> distinct (map fst urls) \<Longrightarrow>
     \<exists>d'. map_of doc ''upstreams'' = Some (JObj d') \<and> pinned dump ups urls d d'"
proof (induction dump ups urls rendered arbitrary: d rule: pin_base_urls.induct)
  case (1 dump ups rendered)
  then show ?case by (auto simp: pinned_def pinned_value_def)
next
  case (2 dump ups key url urls rendered)
  show ?case
  proof (cases "key \<in> fst ` set d \<and> url \<noteq> []")
    case present: True
    then obtain u where u: "map_of ups key = Some u"
      and r: "pin_base_urls dump ups urls
        (AList.update ''upstreams'' (JObj (AList.update key (dump (u\<lparr>up_base_url := Some url\<rparr>)) d)) rendered) = Inr doc"
      using 2(3,4) by (auto split: option.splits)
    let ?d = "AList.update key (dump (u\<lparr>up_base_url := Some url\<rparr>)) d"
    obtain d' where d': "map_of doc ''upstreams'' = Some (JObj d')" "pinned dump ups urls ?d d'"
      using 2(1) [OF 2(4) refl present u r, of ?d] 2(5) by (auto simp: update_conv')
    have k: "map fst ?d = map fst d" using present by (simp add: update_present)
    have "map_of d' x = pinned_value dump ups ((key, url) # urls) d x" if x: "x \<in> fst ` set d" for x
    proof -
      have "x \<in> fst ` set ?d" using x k by (metis list.set_map)
      then have e: "map_of d' x = pinned_value dump ups urls ?d x" using d'(2) unfolding pinned_def by blast
      show ?thesis
      proof (cases "x = key")
        case True
        have "key \<notin> fst ` set urls" using 2(5) by simp
        then show ?thesis using e u present True by (simp add: pinned_value_fresh update_conv') (simp add: pinned_value_def)
      next
        case False
        then show ?thesis using e by (simp add: pinned_value_Cons pinned_value_update)
      qed
    qed
    then have "pinned dump ups ((key, url) # urls) d d'" using d'(2) k unfolding pinned_def by metis
    then show ?thesis using d'(1) by blast
  next
    case False
    then have r: "pin_base_urls dump ups urls rendered = Inr doc" using 2(3,4) by (auto split: if_splits)
    obtain d' where d': "map_of doc ''upstreams'' = Some (JObj d')" "pinned dump ups urls d d'"
      using 2(2) [OF 2(4) refl False r 2(4)] 2(5) by auto
    have "pinned_value dump ups ((key, url) # urls) d x = pinned_value dump ups urls d x" if "x \<in> fst ` set d" for x
    proof (cases "x = key")
      case True
      then have "key \<notin> fst ` set urls" "url = []" using 2(5) False that by simp_all
      then show ?thesis using True by (simp add: pinned_value_fresh) (simp add: pinned_value_def)
    qed (simp add: pinned_value_Cons)
    then have "pinned dump ups ((key, url) # urls) d d'" using d'(2) unfolding pinned_def by metis
    then show ?thesis using d'(1) by blast
  qed
qed

lemma rendered_configuration_Inr:
  assumes "rendered_configuration tk config decisions urls policy_path = Inr doc"
  obtains js where "mapM render_entry (rendered_decisions decisions) = Inr js"
    "pin_base_urls (tk_dump_upstream tk) (pc_upstreams config) urls
       (AList.update ''policy'' (JObj [(''file'', JStr policy_path)])
         (AList.update ''operations'' (JList js) (AList.update ''mode'' (JStr ''configured'') (tk_dump_config tk config)))) = Inr doc"
  using assms unfolding rendered_configuration_def render_config_def
  by (auto simp: bind_res_eq_Inr operations_of_def jget_def)

lemma decide_operations_ids:
  assumes "decide_operations loaded operations st = (Inr ds, st')"
  shows "decision_id ` set ds = op_id ` set operations"
proof (cases "pc_operations (lc_config loaded) = []")
  case True
  then obtain res st1 where "run_survey operations stdin_prompter [] (rs_typed st) = (Inr res, st1)" "ds = sr_decisions res"
    using assms by (auto simp: decide_operations_def bind_st_Inr asking_Inr prompting_Inr)
  then have "map od_operation ds = sort_key tag_for operations"
    using run_survey_decided [of operations stdin_prompter "[]" "rs_typed st" res st1]
    by (auto simp: list_all2_conv_all_nth decided_def intro!: nth_equalityI)
  then have "op_id ` od_operation ` set ds = op_id ` set operations" by (metis list.set_map set_sort)
  then show ?thesis by (simp add: decision_id_def image_image)
next
  case False
  then obtain previous res report rest where p: "decisions_from_config (lc_config loaded) (lc_policy loaded) = Inr previous"
    and r: "run_reconcile operations previous stdin_prompter (rs_typed st) = (Inr (res, report), rest)" and ds: "ds = sr_decisions res"
    using assms by (auto simp: decide_operations_def bind_st_Inr asking_Inr prompting_Inr)
  have df: "diff_operation_ids previous operations = Inr report" using r by (rule run_reconcile_Inr)
  have "set (map decision_id ds) = set (rr_unchanged report @ rr_new report @ rr_changed report)"
    using mset_eq_setD [OF reconcile_decisions(1) [OF r decisions_keyed [OF p]]] unfolding ds decision_id_def by simp
  then show ?thesis using report_partition(1,3) [OF df] by auto
qed

text \<open>Without one acceptance, only what the old configuration recorded is exposed.\<close>

lemma decide_operations_refused:
  assumes "decide_operations loaded operations st = (Inr ds, st')" "\<forall>line \<in> set (rs_typed st). refusal line"
    and "d \<in> set ds" "od_exposed d"
  shows "\<exists>previous. decisions_from_config (lc_config loaded) (lc_policy loaded) = Inr previous \<and> map_of previous (decision_id d) = Some d"
proof (cases "pc_operations (lc_config loaded) = []")
  case True
  then obtain res st1 where "run_survey operations stdin_prompter [] (rs_typed st) = (Inr res, st1)" "ds = sr_decisions res"
    using assms(1) by (auto simp: decide_operations_def bind_st_Inr asking_Inr prompting_Inr)
  then show ?thesis using run_survey_refused assms(2-4) by blast
next
  case False
  then obtain previous res report rest where p: "decisions_from_config (lc_config loaded) (lc_policy loaded) = Inr previous"
    and r: "run_reconcile operations previous stdin_prompter (rs_typed st) = (Inr (res, report), rest)" and ds: "ds = sr_decisions res"
    using assms(1) by (auto simp: decide_operations_def bind_st_Inr asking_Inr prompting_Inr)
  have "d \<in> set (lookup_all previous (rr_unchanged report))"
    using r assms(2-4) unfolding ds run_reconcile_def Let_def bind_st_Inr
    by (auto dest!: run_survey_refused split: if_splits)
  then obtain i where "map_of previous i = Some d" by (auto simp: lookup_all_def map_filter_def)
  then show ?thesis using p keyed_lookup [OF decisions_keyed [OF p]] unfolding decision_id_def by blast
qed

lemma plan_configure_Inr:
  assumes "plan_configure tk loaded policy_path st = (Inr (doc, pol), st')"
  obtains ops urls decisions where
    "introspect_upstreams (outside_of tk (rs_files st)) (wo_ask (tk_world tk)) (wo_fuel (tk_world tk)) (lc_config loaded) (lc_base_dir loaded)
       = Inr (ops, urls)"
    "decide_operations loaded ops st = (Inr decisions, st')"
    "rendered_configuration tk (lc_config loaded) decisions urls policy_path = Inr doc"
    "pol = render_policy (tk_dump_rule tk) decisions (lc_policy loaded)"
  using assms unfolding plan_configure_def Let_def by (auto simp: bind_st_Inr)

section \<open>How much a run asks\<close>

lemma length_lookup_all: "length (lookup_all d ks) \<le> length ks"
  by (simp add: lookup_all_def map_filter_def)

lemma surveyed_length:
  assumes "diff_operation_ids previous ops = Inr r"
  shows "length (lookup_all (by_op_id ops) (rr_new r @ rr_changed r)) \<le> length ops"
proof -
  note part = report_partition [OF assms]
  have "distinct (rr_new r @ rr_changed r)" using part(4) by auto
  then have "length (rr_new r @ rr_changed r) = card (set (rr_new r @ rr_changed r))" by (simp only: distinct_card)
  also have "\<dots> \<le> card (op_id ` set ops)" by (rule card_mono) (use part(1,3) in auto)
  also have "\<dots> \<le> length ops" by (metis card_length length_map list.set_map)
  finally show ?thesis using length_lookup_all order_trans by blast
qed

text \<open>A part of a run for whose questions \<open>n\<close> typed lines are enough: it never meets the end of the input.\<close>

definition enough :: "nat \<Rightarrow> (cli_error + 'a) \<times> run_state \<Rightarrow> run_state \<Rightarrow> bool" where
  "enough n m st \<longleftrightarrow>
     fst m \<noteq> Inl (ConfigureFailed EndOfInput) \<and> (\<forall>x. fst m = Inr x \<longrightarrow> length (rs_typed st) \<le> length (rs_typed (snd m)) + n)"

lemma enough_survey:
  assumes "5 * length ops \<le> length (rs_typed st)"
  shows "enough (5 * length ops) (asking (prompting (run_survey ops stdin_prompter defaults) st)) st"
proof -
  have "answered_by length (5 * length ops) (run_survey ops stdin_prompter defaults)" by (rule terminal.survey_answered)
  then show ?thesis
    using assms unfolding answered_by_def enough_def by (fastforce simp: asking_def prompting_def wrap_error_def)
qed

lemma diff_not_eof: "diff_operation_ids previous ops \<noteq> Inl EndOfInput"
  by (auto simp: diff_operation_ids_def Let_def bind_res_eq_Inl compare_ids_def binding_equal_def
      dest!: mapM_eq_Inl_ex split: option.splits binding.splits)

lemma collect_not_eof: "collect_decisions policy es ds \<noteq> Inl EndOfInput"
  by (induction es arbitrary: ds)
    (auto simp: bind_res_eq_Inl decision_of_entry_def fallback_effect_def Let_def split: binding_entry.splits option.splits sum.splits)

lemma enough_reconcile:
  assumes "5 * length ops \<le> length (rs_typed st)"
  shows "enough (5 * length ops) (asking (prompting (run_reconcile ops previous stdin_prompter) st)) st"
proof (cases "diff_operation_ids previous ops")
  case (Inl e)
  then show ?thesis
    using diff_not_eof [of previous ops] by (simp add: run_reconcile_def enough_def asking_def prompting_def wrap_error_def)
next
  case (Inr r)
  let ?ops = "lookup_all (by_op_id ops) (rr_new r @ rr_changed r)"
  let ?defaults = "List.map_filter (\<lambda>i. map_option (Pair i) (map_of previous i)) (rr_changed r)"
  have l: "length ?ops \<le> length ops" using Inr by (rule surveyed_length)
  have "answered_by length (5 * length ?ops) (\<lambda>st. if ?ops \<noteq> [] then run_survey ?ops stdin_prompter ?defaults st
      else (Inr \<lparr>sr_decisions = [], sr_warnings = []\<rparr>, st))"
    by (intro answered_by_if answered_by_return terminal.survey_answered)
  then have "answered_by length (5 * length ops) (run_reconcile ops previous stdin_prompter)"
    unfolding run_reconcile_def Let_def Inr bind_st_simps
    by (rule answered_by_bind [where m = 0]) (use l in \<open>simp_all add: answered_by_return\<close>)
  then show ?thesis
    using assms unfolding answered_by_def enough_def by (fastforce simp: asking_def prompting_def wrap_error_def)
qed

lemma enough_bind:
  assumes "enough n m st" "\<And>x st1. m = (Inr x, st1) \<Longrightarrow> length (rs_typed st) \<le> length (rs_typed st1) + n \<Longrightarrow> enough 0 (f x st1) st1"
  shows "enough n (bind_st m f) st"
proof (cases m)
  case (Pair r st1)
  show ?thesis
  proof (cases r)
    case (Inl e)
    then show ?thesis using assms(1) Pair by (simp add: enough_def)
  next
    case (Inr x)
    have l: "length (rs_typed st) \<le> length (rs_typed st1) + n" using assms(1) Pair Inr by (simp add: enough_def)
    then have "enough 0 (f x st1) st1" using assms(2) Pair Inr by simp
    then show ?thesis using Pair Inr l unfolding enough_def by fastforce
  qed
qed

lemma enough_decide:
  assumes "5 * length ops \<le> length (rs_typed st)"
  shows "enough (5 * length ops) (decide_operations loaded ops st) st"
proof (cases "pc_operations (lc_config loaded) = []")
  case True
  have "enough (5 * length ops) (bind_st (asking (prompting (run_survey ops stdin_prompter []) st))
      (\<lambda>result st1. (Inr (sr_decisions result), st1))) st"
    by (rule enough_bind [OF enough_survey [OF assms]]) (simp add: enough_def)
  then show ?thesis using True by (simp add: decide_operations_def)
next
  case False
  show ?thesis
  proof (cases "decisions_from_config (lc_config loaded) (lc_policy loaded)")
    case (Inl e)
    have "e \<noteq> EndOfInput" using Inl collect_not_eof unfolding decisions_from_config_def by metis
    then show ?thesis using False Inl by (simp add: decide_operations_def asking_def wrap_error_def enough_def)
  next
    case (Inr previous)
    have "enough (5 * length ops) (bind_st (asking (prompting (run_reconcile ops previous stdin_prompter) st))
        (\<lambda>(result, report) st2. (Inr (sr_decisions result), say (report_messages report) st2))) st"
      by (rule enough_bind [OF enough_reconcile [OF assms]]) (auto simp: enough_def)
    then show ?thesis using False Inr by (simp add: decide_operations_def asking_def wrap_error_def)
  qed
qed

lemma rendered_configuration_not_eof: "rendered_configuration tk config decisions urls policy_path \<noteq> Inl (ConfigureFailed EndOfInput)"
proof -
  have p: "pin_base_urls dump ups us rendered \<noteq> Inl (ConfigureFailed EndOfInput)" for dump ups us rendered
    by (induction dump ups us rendered rule: pin_base_urls.induct) (auto split: option.splits json.splits if_splits)
  have r: "render_config ds name us mode \<noteq> Inl EndOfInput" for ds name us mode
    by (auto simp: render_config_def bind_res_eq_Inl render_entry_def Let_def dest!: mapM_eq_Inl_ex split: binding.splits)
  show ?thesis
    using p r by (auto simp: rendered_configuration_def bind_res_eq_Inl wrap_error_def split: sum.splits)
qed

lemma plan_not_eof:
  assumes "introspect_upstreams (outside_of tk (rs_files st)) (wo_ask (tk_world tk)) (wo_fuel (tk_world tk)) (lc_config loaded) (lc_base_dir loaded)
      = Inr (ops, urls)"
    and "5 * length ops \<le> length (rs_typed st)"
  shows "enough (5 * length ops) (plan_configure tk loaded policy_path st) st"
proof -
  have f: "enough 0 (bind_st (rendered_configuration tk (lc_config loaded) ds urls policy_path, st2) (\<lambda>config st3.
         (Inr (config, render_policy (tk_dump_rule tk) ds (lc_policy loaded)), st3))) st2" for ds st2
    using rendered_configuration_not_eof [of tk "lc_config loaded" ds urls policy_path]
    by (cases "rendered_configuration tk (lc_config loaded) ds urls policy_path") (auto simp: enough_def)
  show ?thesis
    using enough_bind [OF enough_decide [OF assms(2)] f] by (simp add: plan_configure_def Let_def assms(1) wrap_error_def)
qed

lemma write_not_eof:
  assumes "asking (write_with_confirmation (tk_yaml tk) (realpath_of tk) stdin_prompter path doc st) = (r, st')"
    and "rs_typed st \<noteq> []"
  shows "r \<noteq> Inl (ConfigureFailed EndOfInput) \<and> (\<forall>x. r = Inr x \<longrightarrow> length (rs_typed st) \<le> Suc (length (rs_typed st')))"
proof -
  obtain line rest where t: "rs_typed st = line # rest" using assms(2) by (cases "rs_typed st") auto
  have n: "render_text (tk_yaml tk) (realpath_of tk) (rs_files st) path doc \<noteq> Inl EndOfInput"
    by (auto simp: render_text_def Let_def split: option.splits sum.splits)
  show ?thesis
    using assms(1) n t
    by (cases "render_text (tk_yaml tk) (realpath_of tk) (rs_files st) path doc")
      (auto simp: write_with_confirmation_def asking_def prompting_def stdin_prompter_def stdin_confirm_def Let_def wrap_error_def
        split: if_splits prod.splits)
qed

lemma check_written_not_eof: "check_written_policy tk fs path \<noteq> Inl (ConfigureFailed EndOfInput)"
  by (auto simp: check_written_policy_def Let_def wrap_error_def split: sum.splits)

lemma write_documents_not_eof:
  assumes "2 \<le> length (rs_typed st)"
  shows "fst (write_documents tk config_path policy_path docs st) \<noteq> Crashed (ConfigureFailed EndOfInput)"
proof -
  obtain r1 st1 where w1: "asking (write_with_confirmation (tk_yaml tk) (realpath_of tk) stdin_prompter policy_path (snd docs) st) = (r1, st1)"
    by fastforce
  obtain r2 st2 where w2: "asking (write_with_confirmation (tk_yaml tk) (realpath_of tk) stdin_prompter config_path (fst docs) st1) = (r2, st2)"
    by fastforce
  have "rs_typed st \<noteq> []" using assms by auto
  note r1 = write_not_eof [OF w1 this]
  show ?thesis
  proof (cases r1)
    case (Inl e)
    then show ?thesis using r1 by (simp add: write_documents_def w1 unguarded_def)
  next
    case (Inr ok)
    then have "rs_typed st1 \<noteq> []" using r1 assms by auto
    note r2 = write_not_eof [OF w2 this]
    show ?thesis
      using Inr r2 check_written_not_eof [of tk "rs_files st2" policy_path]
      by (cases r2) (auto simp: write_documents_def w1 w2 unguarded_def split: sum.splits)
  qed
qed

section \<open>Properties of the commands\<close>

text \<open>C9. What \<open>configure\<close> plans to write is what was decided in this run and nothing else: \<open>decisions\<close> are the answers of
  \<open>decide_operations\<close> to the operations the upstreams have now, one for each; the operations written are the entries of exactly the
  exposed ones, so neither a declined nor a removed operation stays, and when every line typed refuses, an
  operation is written only if the old configuration recorded it; the policy is rendered from the same decisions;
  the mode becomes \<open>configured\<close>, which serves nothing else; each upstream keeps its dump but for the resolved base URL;
  every other key of the loaded configuration survives untouched.\<close>

theorem configure_plan:
  assumes "plan_configure tk loaded policy_path st = (Inr (doc, pol), st')"
  shows "\<exists>ops urls decisions js.
     introspect_upstreams (outside_of tk (rs_files st)) (wo_ask (tk_world tk)) (wo_fuel (tk_world tk)) (lc_config loaded) (lc_base_dir loaded)
       = Inr (ops, urls)
     \<and> decide_operations loaded ops st = (Inr decisions, st')
     \<and> decision_id ` set decisions = op_id ` set ops
     \<and> ((\<forall>line \<in> set (rs_typed st). refusal line) \<longrightarrow>
          (\<forall>d \<in> set (rendered_decisions decisions). \<exists>previous.
             decisions_from_config (lc_config loaded) (lc_policy loaded) = Inr previous \<and> map_of previous (decision_id d) = Some d))
     \<and> mapM render_entry (rendered_decisions decisions) = Inr js
     \<and> map_of doc ''operations'' = Some (JList js) \<and> map_of doc ''mode'' = Some (JStr ''configured'')
     \<and> map_of doc ''policy'' = Some (JObj [(''file'', JStr policy_path)])
     \<and> (\<forall>k. k \<notin> {''operations'', ''mode'', ''policy'', ''upstreams''} \<longrightarrow> map_of doc k = map_of (tk_dump_config tk (lc_config loaded)) k)
     \<and> (\<forall>d. map_of (tk_dump_config tk (lc_config loaded)) ''upstreams'' = Some (JObj d) \<longrightarrow>
          (\<exists>d'. map_of doc ''upstreams'' = Some (JObj d')
             \<and> pinned (tk_dump_upstream tk) (pc_upstreams (lc_config loaded)) urls d d'))
     \<and> pol = render_policy (tk_dump_rule tk) decisions (lc_policy loaded)"
proof -
  obtain ops urls decisions where i: "introspect_upstreams (outside_of tk (rs_files st)) (wo_ask (tk_world tk)) (wo_fuel (tk_world tk))
        (lc_config loaded) (lc_base_dir loaded) = Inr (ops, urls)"
    and d: "decide_operations loaded ops st = (Inr decisions, st')"
    and r: "rendered_configuration tk (lc_config loaded) decisions urls policy_path = Inr doc"
    and p: "pol = render_policy (tk_dump_rule tk) decisions (lc_policy loaded)"
    using assms by (rule plan_configure_Inr)
  let ?dump = "tk_dump_config tk (lc_config loaded)"
  obtain js where js: "mapM render_entry (rendered_decisions decisions) = Inr js"
    and pin: "pin_base_urls (tk_dump_upstream tk) (pc_upstreams (lc_config loaded)) urls
       (AList.update ''policy'' (JObj [(''file'', JStr policy_path)])
         (AList.update ''operations'' (JList js) (AList.update ''mode'' (JStr ''configured'') ?dump))) = Inr doc"
    using r by (rule rendered_configuration_Inr)
  note frame = pin_base_urls_frame [OF pin]
  have dist: "distinct (map fst urls)" using introspect_loop_distinct [OF i [unfolded introspect_upstreams_def]] by simp
  have ups: "\<forall>d. map_of ?dump ''upstreams'' = Some (JObj d) \<longrightarrow>
      (\<exists>d'. map_of doc ''upstreams'' = Some (JObj d') \<and> pinned (tk_dump_upstream tk) (pc_upstreams (lc_config loaded)) urls d d')"
    using pin_base_urls_pinned [OF pin] dist by (simp add: update_conv')
  have keys: "map_of doc ''operations'' = Some (JList js)" "map_of doc ''mode'' = Some (JStr ''configured'')"
    "map_of doc ''policy'' = Some (JObj [(''file'', JStr policy_path)])"
    using frame by (simp_all add: update_conv')
  have other: "\<forall>k. k \<notin> {''operations'', ''mode'', ''policy'', ''upstreams''} \<longrightarrow> map_of doc k = map_of ?dump k"
    using frame by (simp add: update_conv')
  have refused: "(\<forall>line \<in> set (rs_typed st). refusal line) \<longrightarrow>
      (\<forall>d \<in> set (rendered_decisions decisions). \<exists>previous.
         decisions_from_config (lc_config loaded) (lc_policy loaded) = Inr previous \<and> map_of previous (decision_id d) = Some d)"
    using decide_operations_refused [OF d] by (simp add: set_rendered)
  show ?thesis
    by (rule exI [of _ ops], rule exI [of _ urls], rule exI [of _ decisions], rule exI [of _ js])
      (intro conjI i d decide_operations_ids [OF d] refused js keys other ups p)
qed

text \<open>C14. \<open>configure\<close> always comes to an end: with five lines typed per introspected operation and two for the files, no question
  is left without an answer, so the run never dies at the end of the input.\<close>

theorem configure_comes_to_an_end:
  assumes "load_from tk (path_str config) st = (Inr loaded, st)"
    and "introspect_upstreams (outside_of tk (rs_files st)) (wo_ask (tk_world tk)) (wo_fuel (tk_world tk)) (lc_config loaded) (lc_base_dir loaded)
      = Inr (ops, urls)"
    and "5 * length ops + 2 \<le> length (rs_typed st)"
  shows "fst (main tk (Configure config policy) st) \<noteq> Crashed (ConfigureFailed EndOfInput)"
proof -
  let ?p = "policy_path_for tk (path_str config) (map_option path_str policy) (lc_config loaded)"
  have plan: "enough (5 * length ops) (plan_configure tk loaded ?p st) st" by (rule plan_not_eof [OF assms(2)]) (use assms(3) in simp)
  have m: "main tk (Configure config policy) st = guarded (plan_configure tk loaded ?p st) (\<lambda>docs st2. write_documents tk (path_str config) ?p docs st2)"
    by (simp add: main_def run_configure_def assms(1) guarded_def Let_def)
  show ?thesis
  proof (cases "plan_configure tk loaded ?p st")
    case (Pair r st1)
    show ?thesis
    proof (cases r)
      case (Inl e)
      then show ?thesis using plan Pair unfolding m by (simp add: guarded_def enough_def)
    next
      case (Inr docs)
      then have "2 \<le> length (rs_typed st1)" using plan Pair assms(3) by (simp add: enough_def)
      then show ?thesis using Pair Inr write_documents_not_eof unfolding m by (simp add: guarded_def)
    qed
  qed
qed

text \<open>C13. \<open>validate\<close> predicts \<open>serve\<close>: on the same files it lists exactly the tools that \<open>serve\<close> would serve and fails the same
  way when \<open>serve\<close> fails, with one exception, the HTTP settings, which only \<open>serve\<close> computes.\<close>

theorem validate_predicts_serve:
  "case main tk (Serve config) st of
     (Serving portal http, st1) \<Rightarrow>
       main tk (Validate config) st = (Done, say (map (\<lambda>t. ToolLine (mt_name t) (mt_title t)) (invoker_tools portal)) st1)
   | (Crashed (HttpFailed e), st1) \<Rightarrow> fst (main tk (Validate config) st) = Done
   | (out, st1) \<Rightarrow> main tk (Validate config) st = (out, st1)"
proof -
  obtain r st1 where l: "load_from tk (path_str config) st = (r, st1)" by fastforce
  show ?thesis
  proof (cases r)
    case (Inl e)
    then show ?thesis using l by (auto simp: main_def with_app_def guarded_def load_from_def wrap_error_def split: sum.splits)
  next
    case (Inr loaded)
    obtain r2 st2 where a: "app_from tk loaded st1 = (r2, st2)" by fastforce
    show ?thesis
    proof (cases r2)
      case (Inl e)
      then show ?thesis using l Inr a by (auto simp: main_def with_app_def guarded_def app_from_def wrap_error_def split: sum.splits)
    next
      case (Inr portal)
      then show ?thesis
        using l \<open>r = Inr loaded\<close> a
        by (auto simp: main_def with_app_def guarded_def serve_app_def unguarded_def wrap_error_def split: sum.splits)
    qed
  qed
qed

text \<open>An HTTP server never runs less protected than it was configured: when \<open>serve\<close> serves over HTTP, the configuration was
  loaded and validated, the loaded policy is the one in force, and either the SDK is given the configured issuer,
  audience and scopes and a verifier that knows no key set yet, or authentication is off and the server binds loopback or was
  told by name to go without.\<close>

theorem http_serving_protected:
  assumes "main tk (Serve config) st = (Serving portal (Some h), st')"
  shows "\<exists>l inbound. load_from tk (path_str config) st = (Inr l, st) \<and> inbound = au_inbound (pc_auth (lc_config l))
     \<and> sv_transport (pc_server (lc_config l)) = HttpServer
     \<and> iv_policy portal = (case lc_policy l of Some p \<Rightarrow> p | None \<Rightarrow> \<lparr>po_unmatched = Allow, po_rules = []\<rparr>)
     \<and> (if ia_enabled inbound
        then \<exists>issuer audience. ia_issuer inbound = Some issuer \<and> ia_audience inbound = Some audience \<and> tk_auth_ok tk issuer audience
               \<and> ha_auth h = Some (issuer, audience, if ia_required_scopes inbound = [] then None else Some (ia_required_scopes inbound))
               \<and> ha_verifier h = Some unresolved_verifier
        else hs_host (sv_http (pc_server (lc_config l))) \<in> set LOOPBACK_HOSTS \<or> ia_allow_unauthenticated_http inbound)"
proof -
  obtain l where l: "load_from tk (path_str config) st = (Inr l, st)"
    and a: "build_app ((tk_world tk)\<lparr>wo_outside := outside_of tk (rs_files st)\<rparr>) l = Inr portal"
    and t: "sv_transport (pc_server (lc_config l)) = HttpServer"
    and h: "build_http_app (ou_bracket_ok (outside_of tk (rs_files st))) (tk_auth_ok tk) (tk_idle tk) (tk_sessions tk) (lc_config l) = Inr h"
    using assms unfolding main_def with_app_def
    by (auto simp: guarded_def load_from_def app_from_def serve_app_def unguarded_def wrap_error_def
        split: sum.splits if_splits) (metis transport_kind.exhaust)
  obtain c0 where v: "validate_portal c0 = Inr (lc_config l)"
    using l by (auto simp: load_from_def wrap_error_def split: sum.splits elim: load_config_Inr)
  have "unauthenticated_http_ok (lc_config l)" by (rule portal_validators_Inr(5) [OF validate_portal_Inr(1) [OF v]])
  then have u: "\<not> ia_enabled (au_inbound (pc_auth (lc_config l))) \<Longrightarrow>
      hs_host (sv_http (pc_server (lc_config l))) \<in> set LOOPBACK_HOSTS \<or> ia_allow_unauthenticated_http (au_inbound (pc_auth (lc_config l)))"
    using t by (auto simp: unauthenticated_http_ok_def)
  have p: "iv_policy portal = (case lc_policy l of Some p \<Rightarrow> p | None \<Rightarrow> \<lparr>po_unmatched = Allow, po_rules = []\<rparr>)"
    using a by (rule build_app_Inr)
  have "\<exists>issuer audience. ia_issuer inbound = Some issuer \<and> ia_audience inbound = Some audience \<and> tk_auth_ok tk issuer audience
               \<and> ha_auth h = Some (issuer, audience, if ia_required_scopes inbound = [] then None else Some (ia_required_scopes inbound))
               \<and> ha_verifier h = Some unresolved_verifier"
    if "ia_enabled inbound" "inbound = au_inbound (pc_auth (lc_config l))" for inbound
    using h that by (auto simp: build_http_app_def Let_def bind_res_eq_Inr auth_settings_def split: option.splits if_splits)
  then show ?thesis using l t p u by (intro exI [of _ l] exI [of _ "au_inbound (pc_auth (lc_config l))"]) simp
qed

section \<open>A run\<close>

fun is_ok :: "('e + 'a) \<times> 's \<Rightarrow> bool" where
  "is_ok (Inl _, _) = False"
| "is_ok (Inr _, _) = True"

definition sample_toolkit :: toolkit where
  "sample_toolkit =
     \<lparr>tk_world = sample_world\<lparr>wo_outside := sample_api_outside\<lparr>ou_yaml := (\<lambda>_. Inr (JObj []))\<rparr>\<rparr>,
      tk_environ = (\<lambda>_. None), tk_parse = (\<lambda>_. Inr sample_introspect_config),
      tk_parse_policy = (\<lambda>_. Inr \<lparr>po_unmatched = Allow, po_rules = []\<rparr>),
      tk_dump_config = (\<lambda>_. [(''version'', JStr ''1''), (''mode'', JStr ''introspect-safe''),
                            (''upstreams'', JObj [(''up'', JObj [(''timeout_ms'', JInt 5)])])]),
      tk_dump_upstream = (\<lambda>u. JObj [(''base_url'', JStr (own_base_url u)), (''timeout_ms'', JInt 5)]),
      tk_dump_rule = (\<lambda>_. JNull), tk_yaml = \<lparr>yo_dump = (\<lambda>_. ''new policy''), yo_update = (\<lambda>_ _. Inr ''new config'')\<rparr>,
      tk_auth_ok = (\<lambda>_ _. True), tk_idle = 1800, tk_sessions = 9\<rparr>"

definition sample_start :: run_state where
  "sample_start =
     \<lparr>rs_files = [(''/etc/portal/portal.yaml'', ''config''), (''/etc/portal/api.json'', ''api'')],
      rs_typed = ['' Y'', [], ''yes''], rs_said = []\<rparr>"

definition sample_end :: run_state where
  "sample_end = snd (main sample_toolkit (Configure ''/etc//portal/./portal.yaml'' None) sample_start)"

lemma sample_end_files:
  "rs_files sample_end = [(''/etc/portal/portal.yaml'', ''new config''), (''/etc/portal/api.json'', ''api''), (''/etc/portal/policy.yaml'', ''new policy'')]"
  by code_simp

theorem files_change_only_confirmed_witness:
  "\<exists>doc st1 st2 path. confirmed_write sample_toolkit path doc st1 st2 \<and> rs_files st1 = rs_files sample_start"
proof -
  obtain out where m: "main sample_toolkit (Configure ''/etc//portal/./portal.yaml'' None) sample_start = (out, sample_end)"
    unfolding sample_end_def by (metis prod.collapse)
  have "rs_files sample_end \<noteq> rs_files sample_start" using sample_end_files by (simp add: sample_start_def)
  then show ?thesis using files_change_only_confirmed [OF m] by blast
qed

definition sample_loaded_run :: loaded_config where
  "sample_loaded_run =
     \<lparr>lc_config = sample_introspect_config\<lparr>pc_upstreams := map (\<lambda>(k, u). (k, u\<lparr>up_max_total_ms := Some 15000\<rparr>)) (pc_upstreams sample_introspect_config)\<rparr>,
      lc_base_dir = ''/etc/portal'', lc_secrets = [], lc_policy = None\<rparr>"

lemma sample_plan: "is_ok (plan_configure sample_toolkit sample_loaded_run ''/etc/portal/policy.yaml'' sample_start)"
  by code_simp

theorem configure_plan_witness:
  "\<exists>doc pol st'. plan_configure sample_toolkit sample_loaded_run ''/etc/portal/policy.yaml'' sample_start = (Inr (doc, pol), st')
     \<and> map_of doc ''version'' = Some (JStr ''1'') \<and> map_of doc ''mode'' = Some (JStr ''configured'')"
proof -
  obtain doc pol st' where p: "plan_configure sample_toolkit sample_loaded_run ''/etc/portal/policy.yaml'' sample_start = (Inr (doc, pol), st')"
    using sample_plan by (auto elim!: is_ok.elims)
  have "map_of (tk_dump_config sample_toolkit (lc_config sample_loaded_run)) ''version'' = Some (JStr ''1'')"
    by (simp add: sample_toolkit_def)
  moreover have "map_of doc ''version'' = map_of (tk_dump_config sample_toolkit (lc_config sample_loaded_run)) ''version''"
    "map_of doc ''mode'' = Some (JStr ''configured'')"
    using configure_plan [OF p] by (elim exE conjE, simp)+
  ultimately show ?thesis using p by auto
qed

definition sample_patient :: run_state where
  "sample_patient = sample_start\<lparr>rs_typed := [''n'', ''n'', [], [], [], [], []]\<rparr>"

lemma sample_patient_loads:
  "load_from sample_toolkit (path_str ''/etc//portal/./portal.yaml'') sample_patient = (Inr sample_loaded_run, sample_patient)"
  by code_simp

lemma sample_introspects:
  "introspect_upstreams (outside_of sample_toolkit (rs_files sample_patient)) (wo_ask (tk_world sample_toolkit)) (wo_fuel (tk_world sample_toolkit))
     (lc_config sample_loaded_run) (lc_base_dir sample_loaded_run) = Inr ([sample_openapi_op], [(''up'', ''https://api'')])"
  by code_simp

theorem configure_comes_to_an_end_witness:
  "fst (main sample_toolkit (Configure ''/etc//portal/./portal.yaml'' None) sample_patient) \<noteq> Crashed (ConfigureFailed EndOfInput)"
  by (rule configure_comes_to_an_end [OF sample_patient_loads sample_introspects]) (simp add: sample_patient_def)

text \<open>A server over HTTP.\<close>

definition sample_server :: toolkit where
  "sample_server =
     sample_toolkit\<lparr>tk_world := sample_world\<lparr>wo_outside := sample_api_outside\<lparr>ou_yaml := (\<lambda>_. Inr (JObj [(''client_secret'', JStr ''${env:S}'')]))\<rparr>\<rparr>,
       tk_environ := [''S'' \<mapsto> ''s''], tk_parse := (\<lambda>_. Inr (sample_app_config\<lparr>pc_policy_file := None\<rparr>))\<rparr>"

definition sample_server_loaded :: loaded_config where
  "sample_server_loaded =
     \<lparr>lc_config = sample_app_config\<lparr>pc_policy_file := None\<rparr>, lc_base_dir = ''/etc/portal'', lc_secrets = [(''${env:S}'', ''s'')], lc_policy = None\<rparr>"

lemma sample_server_loads:
  "load_from sample_server (path_str ''/etc/portal/portal.yaml'') sample_start = (Inr sample_server_loaded, sample_start)"
  by code_simp

lemma sample_server_builds: "\<exists>portal. build_app w sample_server_loaded = Inr portal"
proof -
  let ?c = "sample_app_config\<lparr>pc_policy_file := None\<rparr>"
  have ex: "explicit_operations ?c = Inr [sample_explicit_op]" using sample_app_explicit by (simp add: explicit_operations_def)
  have ts: "build_toolset [sample_explicit_op] ?c = Inr (iv_toolset sample_app)" by code_simp
  have who: "\<exists>who. default_principal ?c = Inr who"
    by (simp add: default_principal_def sample_app_config_def sample_explicit_config_def sample_portal_defs)
  have m: "pc_mode ?c = Configured" by (simp add: sample_app_config_def)
  have ups: "pc_upstreams ?c = [(''u'', sample_upstream\<lparr>up_max_total_ms := Some 15000\<rparr>)]"
    by (simp add: sample_app_config_def sample_explicit_config_def sample_validated_def)
  have "\<exists>ts. mapM (build_transport w [(''${env:S}'', ''s'')] ops urls) (pc_upstreams ?c) = Inr ts" for ops urls
    by (rule build_transports_total)
      (auto simp: ups credential_source_for_def exchange_source_def sample_upstream_def sample_outbound_def)
  then show ?thesis
    using who by (auto simp: build_app_def sample_server_loaded_def introspected_part_def m ex sample_merge ts lift_config_def lift_registry_def)
qed

lemma sample_http_settings:
  "\<exists>h. build_http_app (\<lambda>_. True) (\<lambda>_ _. True) 1800 9 (lc_config sample_server_loaded) = Inr h"
  "build_http_app (\<lambda>_. True) (\<lambda>_ _. False) 1800 9 (lc_config sample_server_loaded) = Inl (AuthSettingsInvalid ''portal'')"
proof -
  have "audience_hosts (\<lambda>_. True) ''portal'' = Inr []" by code_simp
  then show "\<exists>h. build_http_app (\<lambda>_. True) (\<lambda>_ _. True) 1800 9 (lc_config sample_server_loaded) = Inr h"
    "build_http_app (\<lambda>_. True) (\<lambda>_ _. False) 1800 9 (lc_config sample_server_loaded) = Inl (AuthSettingsInvalid ''portal'')"
    by (auto simp: build_http_app_def allowed_hosts_of_def auth_settings_def Let_def sample_server_loaded_def sample_app_config_def
        sample_explicit_config_def sample_portal_defs)
qed

lemma sample_serve:
  assumes "load_from tk (path_str config) st = (Inr sample_server_loaded, st)"
  shows "\<exists>portal. main tk (Serve config) st = serve_app tk sample_server_loaded portal st
     \<and> fst (main tk (Validate config) st) = Done"
proof -
  obtain portal where "build_app ((tk_world tk)\<lparr>wo_outside := outside_of tk (rs_files st)\<rparr>) sample_server_loaded = Inr portal"
    using sample_server_builds by blast
  then show ?thesis using assms by (auto simp: main_def with_app_def guarded_def app_from_def wrap_error_def)
qed

lemma sample_server_transport: "sv_transport (pc_server (lc_config sample_server_loaded)) \<noteq> Stdio"
  by code_simp

lemma sample_server_tools:
  "ou_bracket_ok (outside_of sample_server fs) = (\<lambda>_. True)" "tk_auth_ok sample_server = (\<lambda>_ _. True)"
  "tk_idle sample_server = 1800" "tk_sessions sample_server = 9"
  by (simp_all add: outside_of_def sample_server_def sample_toolkit_def sample_api_outside_def sample_outside_def)

theorem http_serving_protected_witness:
  "\<exists>portal h. main sample_server (Serve ''/etc/portal/portal.yaml'') sample_start = (Serving portal (Some h), sample_start)
     \<and> iv_policy portal = \<lparr>po_unmatched = Allow, po_rules = []\<rparr>"
proof -
  obtain portal where p: "main sample_server (Serve ''/etc/portal/portal.yaml'') sample_start = serve_app sample_server sample_server_loaded portal sample_start"
    using sample_serve [OF sample_server_loads] by blast
  obtain h where h: "build_http_app (\<lambda>_. True) (\<lambda>_ _. True) 1800 9 (lc_config sample_server_loaded) = Inr h"
    using sample_http_settings(1) by blast
  have "main sample_server (Serve ''/etc/portal/portal.yaml'') sample_start = (Serving portal (Some h), sample_start)"
    unfolding p serve_app_def by (simp add: sample_server_transport sample_server_tools h unguarded_def wrap_error_def)
  moreover from http_serving_protected [OF this] sample_server_loads
  have "iv_policy portal = (case lc_policy sample_server_loaded of Some p \<Rightarrow> p | None \<Rightarrow> \<lparr>po_unmatched = Allow, po_rules = []\<rparr>)" by simp
  ultimately show ?thesis by (auto simp: sample_server_loaded_def)
qed

section \<open>What goes wrong\<close>

text \<open>A relative \<open>--policy\<close> is written as it was given, below the working directory, and is read back from the configuration's
  directory.\<close>

lemma relative_policy_elsewhere:
  "policy_path_for sample_toolkit ''/etc/portal/portal.yaml'' (Some ''rules.yaml'') sample_introspect_config = ''rules.yaml''
   \<and> resolve_path ''/etc/portal'' ''rules.yaml'' = ''/etc/portal/rules.yaml''"
  by code_simp

text \<open>An issuer or audience that is not a URL is a configuration error that \<open>main\<close> does not catch, and \<open>validate\<close> does not find.\<close>

lemma http_settings_escape:
  "fst (main (sample_server\<lparr>tk_auth_ok := (\<lambda>_ _. False)\<rparr>) (Serve ''/etc/portal/portal.yaml'') sample_start)
     = Crashed (HttpFailed (AuthSettingsInvalid ''portal''))
   \<and> fst (main (sample_server\<lparr>tk_auth_ok := (\<lambda>_ _. False)\<rparr>) (Validate ''/etc/portal/portal.yaml'') sample_start) = Done
   \<and> is_config_error (HttpFailed (AuthSettingsInvalid ''portal''))"
proof -
  let ?tk = "sample_server\<lparr>tk_auth_ok := (\<lambda>_ _. False)\<rparr>"
  have o: "outside_of ?tk fs = outside_of sample_server fs" for fs by (simp add: outside_of_def)
  then have l: "load_from ?tk (path_str ''/etc/portal/portal.yaml'') sample_start = (Inr sample_server_loaded, sample_start)"
    using sample_server_loads by (simp add: load_from_def)
  obtain portal where p: "main ?tk (Serve ''/etc/portal/portal.yaml'') sample_start = serve_app ?tk sample_server_loaded portal sample_start"
    "fst (main ?tk (Validate ''/etc/portal/portal.yaml'') sample_start) = Done"
    using sample_serve [OF l] by blast
  show ?thesis
    unfolding p serve_app_def
    by (simp add: sample_server_transport sample_server_tools o sample_http_settings(2) unguarded_def wrap_error_def)
qed

section \<open>From a run to the next server\<close>

text \<open>C7. What the operator declined is never served: take the operations document that a run of \<open>configure\<close> planned from its
  decisions, and any configuration in \<open>configured\<close> mode that reads those operations. Every tool of a portal built from it
  is one of the exposed decisions, with its id and upstream. Pydantic is the hypothesis \<open>reads_back\<close>.\<close>

theorem declined_never_served:
  assumes "decide_operations loaded ops st = (Inr ds, st')"
    and "rendered_configuration tk (lc_config loaded) ds urls policy_path = Inr doc"
    and "map_of doc ''operations'' = Some (JList js)" and "reads_back read (rendered_decisions ds)"
    and "pc_operations (lc_config l) = map read js" and "pc_mode (lc_config l) = Configured"
    and "build_app w l = Inr portal" and "op \<in> set (ts_operations (iv_toolset portal))"
  shows "op_id op \<in> op_id ` set ops
     \<and> (\<exists>d \<in> set ds. od_exposed d \<and> op_id op = decision_id d \<and> op_upstream op = op_upstream (od_operation d))"
proof -
  obtain js' where "mapM render_entry (rendered_decisions ds) = Inr js'"
    and pin: "pin_base_urls (tk_dump_upstream tk) (pc_upstreams (lc_config loaded)) urls
       (AList.update ''policy'' (JObj [(''file'', JStr policy_path)])
         (AList.update ''operations'' (JList js') (AList.update ''mode'' (JStr ''configured'') (tk_dump_config tk (lc_config loaded))))) = Inr doc"
    using assms(2) by (rule rendered_configuration_Inr)
  moreover have "js' = js" using pin_base_urls_frame [OF pin, of "''operations''"] assms(3) by (simp add: update_conv')
  ultimately have entries: "pc_operations (lc_config l) = map (\<lambda>d. entry_of_decision d (http_part (op_binding (od_operation d)))) (rendered_decisions ds)"
    using map_read assms(4,5) by simp
  obtain introspected base_urls explicit operations where i: "introspected_part w l = Inr (introspected, base_urls)"
    and e: "explicit_operations (lc_config l) = Inr explicit" and m: "merge_operations introspected explicit = Inr operations"
    and t: "build_toolset operations (lc_config l) = Inr (iv_toolset portal)"
    using assms(7) by (rule build_app_Inr)
  obtain op0 where op0: "op0 \<in> set operations" "op_id op = op_id op0" "op_upstream op = op_upstream op0"
    using served_from [OF t assms(8)] by blast
  have "introspected = []" using i assms(6) by (simp add: introspected_part_def)
  then have "op0 \<in> set explicit" using merged_from [OF m op0(1)] by simp
  then obtain d where d: "d \<in> set ds" "od_exposed d" "op_id op0 = decision_id d" "op_upstream op0 = op_upstream (od_operation d)"
    using explicit_from [OF e] unfolding entries
    by (fastforce simp: set_rendered entry_of_decision_def decision_id_def Let_def)
  moreover have "decision_id d \<in> op_id ` set ops" using decide_operations_ids [OF assms(1)] d(1) by blast
  ultimately show ?thesis using op0 by auto
qed

definition sample_shy :: run_state where
  "sample_shy = sample_start\<lparr>rs_typed := [''y'']\<rparr>"

definition sample_pets :: loaded_config where
  "sample_pets =
     \<lparr>lc_config = sample_app_config\<lparr>pc_policy_file := None,
        pc_upstreams := [(''up'', sample_upstream)],
        pc_operations := [entry_of_decision (accept_one [] sample_openapi_op) (http_part (op_binding sample_openapi_op))]\<rparr>,
      lc_base_dir = ''/etc/portal'', lc_secrets = [(''${env:S}'', ''s'')], lc_policy = None\<rparr>"

definition sample_accepted_pet :: operation_decision where
  "sample_accepted_pet = accept_one [] sample_openapi_op"

definition sample_pet_doc :: jobj where
  "sample_pet_doc =
     (case rendered_configuration sample_toolkit (lc_config sample_loaded_run) [sample_accepted_pet] [(''up'', ''https://api'')] ''policy.yaml'' of
        Inr doc \<Rightarrow> doc | Inl _ \<Rightarrow> [])"

definition sample_pet_json :: json where
  "sample_pet_json = (case render_entry sample_accepted_pet of Inr j \<Rightarrow> j | Inl _ \<Rightarrow> JNull)"

definition sample_pet_back :: operation_entry where
  "sample_pet_back = entry_of_decision sample_accepted_pet (http_part (op_binding (od_operation sample_accepted_pet)))"

lemma sample_pets_toolset:
  "\<exists>explicit ts. explicit_operations (lc_config sample_pets) = Inr explicit \<and> merge_operations [] explicit = Inr explicit
     \<and> build_toolset explicit (lc_config sample_pets) = Inr ts \<and> map op_id (ts_operations ts) = [''getPet'']"
proof -
  obtain explicit where e: "explicit_operations (lc_config sample_pets) = Inr explicit"
    and m: "merge_operations [] explicit = Inr explicit"
    and t: "(case build_toolset explicit (lc_config sample_pets) of Inr ts \<Rightarrow> map op_id (ts_operations ts) = [''getPet''] | Inl _ \<Rightarrow> False)"
  proof
    let ?e = "case explicit_operations (lc_config sample_pets) of Inr ex \<Rightarrow> ex | Inl _ \<Rightarrow> []"
    show "explicit_operations (lc_config sample_pets) = Inr ?e" by code_simp
    show "merge_operations [] ?e = Inr ?e" by code_simp
    show "case build_toolset ?e (lc_config sample_pets) of Inr ts \<Rightarrow> map op_id (ts_operations ts) = [''getPet''] | Inl _ \<Rightarrow> False"
      by code_simp
  qed
  then show ?thesis by (auto split: sum.splits)
qed

lemma sample_pets_builds: "\<exists>portal. build_app w sample_pets = Inr portal \<and> map op_id (ts_operations (iv_toolset portal)) = [''getPet'']"
proof -
  obtain explicit and ts :: toolset where e: "explicit_operations (lc_config sample_pets) = Inr explicit" "merge_operations [] explicit = Inr explicit"
    "build_toolset explicit (lc_config sample_pets) = Inr ts" "map op_id (ts_operations ts) = [''getPet'']"
    using sample_pets_toolset by (elim exE conjE)
  have who: "\<exists>who. default_principal (lc_config sample_pets) = Inr who"
    by (simp add: sample_pets_def default_principal_def sample_app_config_def sample_explicit_config_def sample_portal_defs)
  have m: "pc_mode (lc_config sample_pets) = Configured" by (simp add: sample_pets_def sample_app_config_def)
  have ups: "pc_upstreams (lc_config sample_pets) = [(''up'', sample_upstream)]" "lc_secrets sample_pets = [(''${env:S}'', ''s'')]"
    by (simp_all add: sample_pets_def)
  have "\<exists>tr. mapM (build_transport w [(''${env:S}'', ''s'')] ops urls) [(''up'', sample_upstream)] = Inr tr" for ops urls
    by (rule build_transports_total)
      (auto simp: credential_source_for_def exchange_source_def sample_upstream_def sample_outbound_def)
  then obtain tr where "mapM (build_transport w [(''${env:S}'', ''s'')] (ts_operations ts) (configured_base_urls (lc_config sample_pets)))
      [(''up'', sample_upstream)] = Inr tr" by blast
  then show ?thesis
    using who e by (auto simp: build_app_def introspected_part_def m ups lift_config_def lift_registry_def)
qed

theorem declined_never_served_witness:
  "\<exists>portal op. build_app sample_world sample_pets = Inr portal \<and> op \<in> set (ts_operations (iv_toolset portal))
     \<and> op_id op = decision_id sample_accepted_pet \<and> od_exposed sample_accepted_pet"
proof -
  have d: "decide_operations sample_loaded_run [sample_openapi_op] sample_shy = (Inr [sample_accepted_pet], sample_shy\<lparr>rs_typed := []\<rparr>)"
    by code_simp
  have r: "rendered_configuration sample_toolkit (lc_config sample_loaded_run) [sample_accepted_pet] [(''up'', ''https://api'')] ''policy.yaml''
      = Inr sample_pet_doc" by code_simp
  have o: "map_of sample_pet_doc ''operations'' = Some (JList [sample_pet_json])" by code_simp
  have x: "od_exposed sample_accepted_pet" by code_simp
  have b: "reads_back (\<lambda>_. sample_pet_back) (rendered_decisions [sample_accepted_pet])"
    using x by (simp add: reads_back_def rendered_decisions_def sample_pet_back_def)
  have e: "pc_operations (lc_config sample_pets) = map (\<lambda>_. sample_pet_back) [sample_pet_json]"
    by (simp add: sample_pets_def sample_pet_back_def sample_accepted_pet_def accept_one_def)
  have m: "pc_mode (lc_config sample_pets) = Configured" by (simp add: sample_pets_def sample_app_config_def)
  obtain portal op where p: "build_app sample_world sample_pets = Inr portal" "op \<in> set (ts_operations (iv_toolset portal))"
    using sample_pets_builds by (metis list.set_intros(1) list.simps(9) map_eq_Cons_D)
  show ?thesis
    using declined_never_served [OF d r o b e m p] p x by auto
qed

end
