(* ===== verification/TokenCache.thy ===== *)
theory TokenCache
  imports Prelude PyStr
begin

text \<open>
  The token cache (\<open>auth/token_cache.py\<close>) under concurrent callers. Coroutines interleave at
  \<open>await\<close> only, so a step is what one task does between two of them: \<open>begin_call\<close> up to the lock or
  the fetch, \<open>wake_up\<close> when the lock is handed over, \<open>finish_fetch\<close> from the answer of \<open>fetch\<close> to the
  return. A lock is an object with an identity, a holder and a queue, as in \<open>asyncio\<close>: a released lock is
  not \<open>locked()\<close> until the task it woke runs, and a newcomer queues behind the waiters. Cancellation
  is not modelled. \<open>cs_minted\<close> and \<open>cs_dropped\<close> are history: the tokens fetched so far, and
  whether a lock was ever dropped while tasks were queued on it.
\<close>

record cached_token =
  ct_value :: string
  ct_expires_at :: rat

datatype task =
    Idle
  | Waiting string nat
  | Fetching string nat
  | Returned string string
  | Raised

record cache_state =
  cs_now :: rat
  cs_entries :: "(string, cached_token) pydict"
  cs_locks :: "(string, nat) pydict"
  cs_next :: nat
  cs_holder :: "nat \<Rightarrow> nat option"
  cs_queue :: "nat \<Rightarrow> nat list"
  cs_tasks :: "nat \<Rightarrow> task"
  cs_minted :: "(string \<times> string) list"
  cs_dropped :: bool

section \<open>Steps\<close>

definition fresh_value :: "cache_state \<Rightarrow> string \<Rightarrow> string option" where
  "fresh_value s key =
     (case map_of (cs_entries s) key of
        Some e \<Rightarrow> if ct_expires_at e > cs_now s then Some (ct_value e) else None
      | None \<Rightarrow> None)"

definition lock_for :: "string \<Rightarrow> cache_state \<Rightarrow> nat \<times> cache_state" where
  "lock_for key s =
     (case map_of (cs_locks s) key of
        Some l \<Rightarrow> (l, s)
      | None \<Rightarrow> (cs_next s, s\<lparr>cs_locks := AList.update key (cs_next s) (cs_locks s), cs_next := cs_next s + 1\<rparr>))"

definition set_task :: "nat \<Rightarrow> task \<Rightarrow> cache_state \<Rightarrow> cache_state" where
  "set_task t x s = s\<lparr>cs_tasks := (cs_tasks s)(t := x)\<rparr>"

definition set_holder :: "nat \<Rightarrow> nat option \<Rightarrow> cache_state \<Rightarrow> cache_state" where
  "set_holder l h s = s\<lparr>cs_holder := (cs_holder s)(l := h)\<rparr>"

text \<open>Inside \<open>async with\<close>: the entry is read again before fetching.\<close>

definition enter_lock :: "nat \<Rightarrow> string \<Rightarrow> nat \<Rightarrow> cache_state \<Rightarrow> cache_state" where
  "enter_lock t key l s =
     (case fresh_value s key of
        Some v \<Rightarrow> set_holder l None (set_task t (Returned key v) s)
      | None \<Rightarrow> set_holder l (Some t) (set_task t (Fetching key l) s))"

definition begin_call :: "nat \<Rightarrow> string \<Rightarrow> cache_state \<Rightarrow> cache_state" where
  "begin_call t key s =
     (case fresh_value s key of
        Some v \<Rightarrow> set_task t (Returned key v) s
      | None \<Rightarrow>
          let (l, s1) = lock_for key s
          in if cs_holder s1 l = None \<and> cs_queue s1 l = [] then enter_lock t key l s1
             else set_task t (Waiting key l) (s1\<lparr>cs_queue := (cs_queue s1)(l := cs_queue s1 l @ [t])\<rparr>))"

definition wake_up :: "nat \<Rightarrow> cache_state \<Rightarrow> cache_state" where
  "wake_up t s =
     (case cs_tasks s t of
        Waiting key l \<Rightarrow>
          (case cs_queue s l of
             t' # rest \<Rightarrow>
               if t' = t \<and> cs_holder s l = None
               then enter_lock t key l (s\<lparr>cs_queue := (cs_queue s)(l := rest)\<rparr>) else s
           | [] \<Rightarrow> s)
      | _ \<Rightarrow> s)"

definition expired_keys :: "string \<Rightarrow> cache_state \<Rightarrow> string list" where
  "expired_keys exclude s =
     map fst (filter (\<lambda>(k, e). k \<noteq> exclude \<and> ct_expires_at e \<le> cs_now s) (cs_entries s))"

definition droppable :: "string list \<Rightarrow> cache_state \<Rightarrow> string \<times> nat \<Rightarrow> bool" where
  "droppable expired s kl = (fst kl \<in> set expired \<and> cs_holder s (snd kl) = None)"

definition purge_expired :: "string \<Rightarrow> cache_state \<Rightarrow> cache_state" where
  "purge_expired exclude s =
     (let expired = expired_keys exclude s
      in s\<lparr>cs_entries := filter (\<lambda>(k, _). k \<notin> set expired) (cs_entries s),
           cs_locks := filter (\<lambda>kl. \<not> droppable expired s kl) (cs_locks s),
           cs_dropped := cs_dropped s
             \<or> list_ex (\<lambda>kl. droppable expired s kl \<and> cs_queue s (snd kl) \<noteq> []) (cs_locks s)\<rparr>)"

definition finish_fetch :: "nat \<Rightarrow> (string \<times> rat) option \<Rightarrow> cache_state \<Rightarrow> cache_state" where
  "finish_fetch t result s =
     (case cs_tasks s t of
        Fetching key l \<Rightarrow>
          (case result of
             None \<Rightarrow> set_holder l None (set_task t Raised s)
           | Some (token, ttl) \<Rightarrow>
               let s1 = s\<lparr>cs_entries := AList.update key \<lparr>ct_value = token, ct_expires_at = cs_now s + ttl\<rparr> (cs_entries s),
                          cs_minted := (key, token) # cs_minted s\<rparr>
               in set_holder l None (set_task t (Returned key token) (purge_expired key s1)))
      | _ \<Rightarrow> s)"

definition tick :: "rat \<Rightarrow> cache_state \<Rightarrow> cache_state" where
  "tick d s = s\<lparr>cs_now := cs_now s + d\<rparr>"

definition empty_cache :: cache_state where
  "empty_cache =
     \<lparr>cs_now = 0, cs_entries = [], cs_locks = [], cs_next = 0, cs_holder = (\<lambda>_. None), cs_queue = (\<lambda>_. []),
      cs_tasks = (\<lambda>_. Idle), cs_minted = [], cs_dropped = False\<rparr>"

inductive cache_step :: "cache_state \<Rightarrow> cache_state \<Rightarrow> bool" where
  step_begin: "cs_tasks s t = Idle \<Longrightarrow> cache_step s (begin_call t key s)"
| step_wake: "cache_step s (wake_up t s)"
| step_finish: "cache_step s (finish_fetch t result s)"
| step_tick: "0 \<le> d \<Longrightarrow> cache_step s (tick d s)"

inductive reachable :: "cache_state \<Rightarrow> bool" where
  reach_empty: "reachable empty_cache"
| reach_step: "reachable s \<Longrightarrow> cache_step s s' \<Longrightarrow> reachable s'"

section \<open>Frame\<close>

lemma set_task_sel [simp]:
  "cs_tasks (set_task t x s) = (cs_tasks s)(t := x)" "cs_now (set_task t x s) = cs_now s"
  "cs_entries (set_task t x s) = cs_entries s" "cs_locks (set_task t x s) = cs_locks s"
  "cs_next (set_task t x s) = cs_next s" "cs_holder (set_task t x s) = cs_holder s"
  "cs_queue (set_task t x s) = cs_queue s" "cs_minted (set_task t x s) = cs_minted s"
  "cs_dropped (set_task t x s) = cs_dropped s"
  by (simp_all add: set_task_def)

lemma set_holder_sel [simp]:
  "cs_tasks (set_holder l h s) = cs_tasks s" "cs_now (set_holder l h s) = cs_now s"
  "cs_entries (set_holder l h s) = cs_entries s" "cs_locks (set_holder l h s) = cs_locks s"
  "cs_next (set_holder l h s) = cs_next s" "cs_holder (set_holder l h s) = (cs_holder s)(l := h)"
  "cs_queue (set_holder l h s) = cs_queue s" "cs_minted (set_holder l h s) = cs_minted s"
  "cs_dropped (set_holder l h s) = cs_dropped s"
  by (simp_all add: set_holder_def)

lemma purge_sel [simp]:
  "cs_tasks (purge_expired k s) = cs_tasks s" "cs_now (purge_expired k s) = cs_now s"
  "cs_next (purge_expired k s) = cs_next s" "cs_holder (purge_expired k s) = cs_holder s"
  "cs_queue (purge_expired k s) = cs_queue s" "cs_minted (purge_expired k s) = cs_minted s"
  by (simp_all add: purge_expired_def Let_def)

section \<open>Invariants\<close>

definition holds_lock :: "cache_state \<Rightarrow> bool" where
  "holds_lock s \<longleftrightarrow>
     (\<forall>t k l. cs_tasks s t = Fetching k l \<longrightarrow> cs_holder s l = Some t)
     \<and> (\<forall>t k l. cs_tasks s t = Waiting k l \<longrightarrow> t \<in> set (cs_queue s l))"

definition from_fetch :: "cache_state \<Rightarrow> bool" where
  "from_fetch s \<longleftrightarrow>
     (\<forall>(k, e) \<in> set (cs_entries s). (k, ct_value e) \<in> set (cs_minted s))
     \<and> (\<forall>t k v. cs_tasks s t = Returned k v \<longrightarrow> (k, v) \<in> set (cs_minted s))"

text \<open>While no lock has been dropped under a waiter, everybody works with the lock the key has now.\<close>

definition current_lock :: "cache_state \<Rightarrow> bool" where
  "current_lock s \<longleftrightarrow>
     (\<not> cs_dropped s \<longrightarrow>
        (\<forall>t k l. cs_tasks s t = Fetching k l \<or> cs_tasks s t = Waiting k l \<longrightarrow> map_of (cs_locks s) k = Some l))"

lemma lock_for_sel:
  assumes "lock_for key s = (l, s1)"
  shows "cs_tasks s1 = cs_tasks s" "cs_now s1 = cs_now s" "cs_entries s1 = cs_entries s"
    "cs_holder s1 = cs_holder s" "cs_queue s1 = cs_queue s" "cs_minted s1 = cs_minted s" "cs_dropped s1 = cs_dropped s"
    "map_of (cs_locks s1) k = (if k = key then Some l else map_of (cs_locks s) k)"
    "map_of (cs_locks s) key = Some l0 \<Longrightarrow> l = l0"
  using assms by (auto simp: lock_for_def update_conv' split: option.splits)

lemma fresh_minted:
  assumes "from_fetch s" "fresh_value s key = Some v"
  shows "(key, v) \<in> set (cs_minted s)"
  using assms by (auto simp: from_fetch_def fresh_value_def split: option.splits if_splits dest!: map_of_SomeD)

subsection \<open>Locks are held by their fetchers\<close>

text \<open>A task that leaves the lock it holds, or one it found free.\<close>

lemma holds_lock_release:
  assumes "holds_lock s" "cs_holder s l \<in> {None, Some t}"
    and "cs_tasks s' = (cs_tasks s)(t := x)" "x \<in> {Raised, Returned k v}"
    and "cs_holder s' = (cs_holder s)(l := None)" "cs_queue s' = cs_queue s"
  shows "holds_lock s'"
  unfolding holds_lock_def
proof (intro conjI allI impI)
  fix t' k' l'
  assume "cs_tasks s' t' = Fetching k' l'"
  then have "t' \<noteq> t" "cs_tasks s t' = Fetching k' l'" using assms(3,4) by (auto split: if_splits)
  then have "cs_holder s l' = Some t'" using assms(1) by (simp add: holds_lock_def)
  then show "cs_holder s' l' = Some t'" using assms(2,5) \<open>t' \<noteq> t\<close> by auto
next
  fix t' k' l'
  assume "cs_tasks s' t' = Waiting k' l'"
  then have "cs_tasks s t' = Waiting k' l'" using assms(3,4) by (auto split: if_splits)
  then show "t' \<in> set (cs_queue s' l')" using assms(1,6) by (simp add: holds_lock_def)
qed

lemma holds_lock_enter:
  assumes "holds_lock (set_task t Idle s)" "cs_holder s l = None"
  shows "holds_lock (enter_lock t key l s)"
proof (cases "fresh_value s key")
  case None
  have "t' = t" if "cs_tasks s t' = Fetching k' l" for t' k'
  proof (rule ccontr)
    assume "t' \<noteq> t"
    then have "cs_tasks (set_task t Idle s) t' = Fetching k' l" using that by simp
    then have "cs_holder (set_task t Idle s) l = Some t'" using assms(1) unfolding holds_lock_def by blast
    then show False using assms(2) by simp
  qed
  then show ?thesis using assms(1) None by (auto simp: enter_lock_def holds_lock_def split: if_splits)
next
  case (Some v)
  show ?thesis
    by (rule holds_lock_release [OF assms(1), of l t _ "Returned key v" key v]) (use assms(2) Some in \<open>simp_all add: enter_lock_def\<close>)
qed

lemma set_task_id: "cs_tasks s t = x \<Longrightarrow> set_task t x s = s"
  by (simp add: set_task_def fun_upd_idem)

lemma holds_lock_begin:
  assumes "holds_lock s" "cs_tasks s t = Idle"
  shows "holds_lock (begin_call t key s)"
proof (cases "fresh_value s key")
  case (Some v)
  then show ?thesis using assms by (auto simp: begin_call_def holds_lock_def)
next
  case None
  obtain l s1 where l: "lock_for key s = (l, s1)" by (cases "lock_for key s")
  note f = lock_for_sel [OF l]
  have h: "holds_lock s1" using assms(1) f(1,4,5) by (simp add: holds_lock_def)
  have id: "set_task t Idle s1 = s1"
    using assms(2) f(1) by (simp add: set_task_id)
  show ?thesis
  proof (cases "cs_holder s1 l = None \<and> cs_queue s1 l = []")
    case True
    then show ?thesis using holds_lock_enter [of t s1 l key] h None l id by (simp add: begin_call_def)
  next
    case False
    then have "begin_call t key s = set_task t (Waiting key l) (s1\<lparr>cs_queue := (cs_queue s1)(l := cs_queue s1 l @ [t])\<rparr>)"
      using None l by (auto simp: begin_call_def)
    then show ?thesis using h by (auto simp: holds_lock_def)
  qed
qed

lemma wake_up_cases:
  obtains "wake_up t s = s"
  | k l rest where "cs_tasks s t = Waiting k l" "cs_queue s l = t # rest" "cs_holder s l = None"
      "wake_up t s = enter_lock t k l (s\<lparr>cs_queue := (cs_queue s)(l := rest)\<rparr>)"
proof (cases "\<exists>k l rest. cs_tasks s t = Waiting k l \<and> cs_queue s l = t # rest \<and> cs_holder s l = None")
  case True
  then show thesis using that(2) by (auto simp: wake_up_def)
next
  case False
  then have "wake_up t s = s" by (auto simp: wake_up_def split: task.splits list.splits)
  then show thesis by (rule that(1))
qed

lemma finish_fetch_cases:
  obtains "finish_fetch t result s = s"
  | k l where "cs_tasks s t = Fetching k l" "result = None"
      "finish_fetch t result s = set_holder l None (set_task t Raised s)"
  | k l token ttl where "cs_tasks s t = Fetching k l" "result = Some (token, ttl)"
      "finish_fetch t result s = set_holder l None (set_task t (Returned k token)
         (purge_expired k (s\<lparr>cs_entries := AList.update k \<lparr>ct_value = token, ct_expires_at = cs_now s + ttl\<rparr> (cs_entries s),
                            cs_minted := (k, token) # cs_minted s\<rparr>)))"
  by (cases "cs_tasks s t"; cases result) (auto simp: finish_fetch_def Let_def)

lemma holds_lock_wake:
  assumes "holds_lock s"
  shows "holds_lock (wake_up t s)"
proof (cases rule: wake_up_cases [of t s])
  case (2 k l rest)
  let ?s = "s\<lparr>cs_queue := (cs_queue s)(l := rest)\<rparr>"
  have "holds_lock (set_task t Idle ?s)"
    unfolding holds_lock_def
  proof (intro conjI allI impI)
    fix t' k' l'
    assume "cs_tasks (set_task t Idle ?s) t' = Waiting k' l'"
    then have "t' \<noteq> t" "cs_tasks s t' = Waiting k' l'" by (auto split: if_splits)
    moreover from this have "t' \<in> set (cs_queue s l')" using assms by (auto simp: holds_lock_def)
    ultimately show "t' \<in> set (cs_queue (set_task t Idle ?s) l')" using 2(2) by auto
  qed (use assms in \<open>auto simp: holds_lock_def split: if_splits\<close>)
  then show ?thesis using holds_lock_enter [of t ?s l k] 2 by simp
qed (use assms in simp)

lemma holds_lock_finish:
  assumes "holds_lock s"
  shows "holds_lock (finish_fetch t result s)"
proof (cases rule: finish_fetch_cases [of t result s])
  case (2 k l)
  then have "cs_holder s l = Some t" using assms by (simp add: holds_lock_def)
  then show ?thesis by (intro holds_lock_release [OF assms, of l t _ Raised]) (simp_all add: 2(3))
next
  case (3 k l token ttl)
  then have "cs_holder s l = Some t" using assms by (simp add: holds_lock_def)
  then show ?thesis by (intro holds_lock_release [OF assms, of l t _ "Returned k token" k token]) (simp_all add: 3(3))
qed (use assms in simp)

lemma reachable_invariant:
  assumes "reachable s" and "P empty_cache"
    and "\<And>s t key. P s \<Longrightarrow> cs_tasks s t = Idle \<Longrightarrow> P (begin_call t key s)"
    and "\<And>s t. P s \<Longrightarrow> P (wake_up t s)"
    and "\<And>s t result. P s \<Longrightarrow> P (finish_fetch t result s)"
    and "\<And>s d. P s \<Longrightarrow> 0 \<le> d \<Longrightarrow> P (tick d s)"
  shows "P s"
  using assms(1)
proof (induction rule: reachable.induct)
  case (reach_step s s')
  from reach_step(2) show ?case by cases (use reach_step.IH assms in blast)+
qed (rule assms(2))

lemma reachable_holds_lock: "reachable s \<Longrightarrow> holds_lock s"
  by (erule reachable_invariant)
    (simp_all add: holds_lock_begin holds_lock_wake holds_lock_finish, simp_all add: holds_lock_def empty_cache_def tick_def)

subsection \<open>Every token comes from a fetch for its key\<close>

lemma from_fetch_holder [simp]: "from_fetch (set_holder l h s) = from_fetch s"
  by (simp add: from_fetch_def)

lemma from_fetch_task:
  "from_fetch s \<Longrightarrow> (\<And>k v. x = Returned k v \<Longrightarrow> (k, v) \<in> set (cs_minted s)) \<Longrightarrow> from_fetch (set_task t x s)"
  by (auto simp: from_fetch_def)

lemma from_fetch_enter:
  assumes "from_fetch s"
  shows "from_fetch (enter_lock t key l s)"
proof (cases "fresh_value s key")
  case (Some v)
  then show ?thesis
    using fresh_minted [OF assms Some] by (auto simp: enter_lock_def intro: from_fetch_task [OF assms])
qed (auto simp: enter_lock_def intro: from_fetch_task [OF assms])

lemma from_fetch_begin:
  assumes "from_fetch s"
  shows "from_fetch (begin_call t key s)"
proof (cases "fresh_value s key")
  case (Some v)
  then show ?thesis
    using fresh_minted [OF assms Some] by (auto simp: begin_call_def intro: from_fetch_task [OF assms])
next
  case None
  obtain l s1 where l: "lock_for key s = (l, s1)" by (cases "lock_for key s")
  have s1: "from_fetch s1" using assms lock_for_sel(1,3,6) [OF l] by (simp add: from_fetch_def)
  then have "from_fetch (s1\<lparr>cs_queue := q\<rparr>)" for q by (simp add: from_fetch_def)
  then show ?thesis using None l s1 by (auto simp: begin_call_def intro: from_fetch_enter from_fetch_task)
qed

lemma from_fetch_wake: "from_fetch s \<Longrightarrow> from_fetch (wake_up t s)"
proof (cases rule: wake_up_cases [of t s])
  case (2 k l rest)
  assume "from_fetch s"
  then have "from_fetch (s\<lparr>cs_queue := (cs_queue s)(l := rest)\<rparr>)" by (simp add: from_fetch_def)
  then show ?thesis using 2 from_fetch_enter by simp
qed simp

lemma set_update_subset: "set (AList.update k e d) \<subseteq> insert (k, e) (set d)"
  by (induction d) auto

lemma from_fetch_finish:
  assumes "from_fetch s"
  shows "from_fetch (finish_fetch t result s)"
proof (cases rule: finish_fetch_cases [of t result s])
  case (3 k l token ttl)
  then show ?thesis
    using assms set_update_subset [of k "\<lparr>ct_value = token, ct_expires_at = cs_now s + ttl\<rparr>" "cs_entries s"]
    by (fastforce simp: from_fetch_def purge_expired_def Let_def)
qed (use assms in \<open>auto simp: from_fetch_def\<close>)

lemma reachable_from_fetch: "reachable s \<Longrightarrow> from_fetch s"
  by (erule reachable_invariant)
    (simp_all add: from_fetch_begin from_fetch_wake from_fetch_finish, simp_all add: from_fetch_def empty_cache_def tick_def)

subsection \<open>Nobody fetches behind a lost lock\<close>

lemma current_lock_enter:
  assumes "current_lock s" "map_of (cs_locks s) key = Some l \<or> cs_dropped s"
  shows "current_lock (enter_lock t key l s)"
  using assms by (auto simp: current_lock_def enter_lock_def split: option.splits)

lemma current_lock_begin:
  assumes "current_lock s"
  shows "current_lock (begin_call t key s)"
proof (cases "fresh_value s key")
  case (Some v)
  then show ?thesis using assms by (auto simp: begin_call_def current_lock_def)
next
  case None
  obtain l s1 where l: "lock_for key s = (l, s1)" by (cases "lock_for key s")
  note f = lock_for_sel [OF l]
  have s1: "current_lock s1"
    using assms f(1,7,9) unfolding current_lock_def f(8) by (metis option.inject)
  moreover have "map_of (cs_locks s1) key = Some l" by (simp add: f(8))
  moreover from this s1 have "current_lock (set_task t (Waiting key l) (s1\<lparr>cs_queue := q\<rparr>))" for q
    by (auto simp: current_lock_def)
  ultimately show ?thesis using None l by (auto simp: begin_call_def intro: current_lock_enter)
qed

lemma current_lock_wake:
  assumes "current_lock s"
  shows "current_lock (wake_up t s)"
proof (cases rule: wake_up_cases [of t s])
  case (2 k l rest)
  have "current_lock (s\<lparr>cs_queue := (cs_queue s)(l := rest)\<rparr>)"
    using assms by (simp add: current_lock_def)
  moreover have "map_of (cs_locks s) k = Some l \<or> cs_dropped s"
    using assms 2(1) by (auto simp: current_lock_def)
  ultimately show ?thesis using current_lock_enter 2(4) by simp
qed (use assms in simp)

text \<open>A purge keeps the lock of everybody at work, or records that it dropped one under a waiter.\<close>

lemma purge_keeps_lock:
  assumes "holds_lock s" "cs_tasks s t = Fetching k l \<or> cs_tasks s t = Waiting k l"
    and "map_of (cs_locks s) k = Some l" and "distinct (map fst (cs_locks s))"
    and "\<not> cs_dropped (purge_expired x s)"
  shows "map_of (cs_locks (purge_expired x s)) k = Some l"
proof -
  have kl: "(k, l) \<in> set (cs_locks s)" using assms(3) by (rule map_of_SomeD)
  have "cs_holder s l \<noteq> None \<or> cs_queue s l \<noteq> []"
    using assms(1,2) unfolding holds_lock_def by (metis empty_iff list.set(1) option.distinct(1))
  then have "\<not> droppable (expired_keys x s) s (k, l)"
    using assms(5) kl by (auto simp: purge_expired_def Let_def list_ex_iff droppable_def)
  then have "(k, l) \<in> set (cs_locks (purge_expired x s))"
    using kl by (simp add: purge_expired_def Let_def)
  moreover have "distinct (map fst (cs_locks (purge_expired x s)))"
    using assms(4) by (simp add: purge_expired_def Let_def distinct_map_filter)
  ultimately show ?thesis by simp
qed

lemma current_lock_finish:
  assumes "current_lock s" "holds_lock s" "distinct (map fst (cs_locks s))"
  shows "current_lock (finish_fetch t result s)"
proof (cases rule: finish_fetch_cases [of t result s])
  case (2 k l)
  then show ?thesis using assms(1) by (auto simp: current_lock_def)
next
  case (3 k l token ttl)
  let ?s = "s\<lparr>cs_entries := AList.update k \<lparr>ct_value = token, ct_expires_at = cs_now s + ttl\<rparr> (cs_entries s),
               cs_minted := (k, token) # cs_minted s\<rparr>"
  have h: "holds_lock ?s" using assms(2) by (simp add: holds_lock_def)
  show ?thesis
    unfolding current_lock_def
  proof (intro impI allI)
    fix t' k' l'
    assume d: "\<not> cs_dropped (finish_fetch t result s)"
      and w: "cs_tasks (finish_fetch t result s) t' = Fetching k' l' \<or> cs_tasks (finish_fetch t result s) t' = Waiting k' l'"
    have w': "cs_tasks ?s t' = Fetching k' l' \<or> cs_tasks ?s t' = Waiting k' l'"
      using w by (auto simp: 3(3) split: if_splits)
    have d': "\<not> cs_dropped (purge_expired k ?s)" "\<not> cs_dropped s"
      using d by (auto simp: 3(3) purge_expired_def Let_def)
    have "map_of (cs_locks ?s) k' = Some l'"
      using assms(1) d'(2) w' unfolding current_lock_def by auto
    then show "map_of (cs_locks (finish_fetch t result s)) k' = Some l'"
      using purge_keeps_lock [OF h w' _ _ d'(1)] assms(3) by (simp add: 3(3))
  qed
qed (use assms in simp)

lemma distinct_locks_step:
  "distinct (map fst (cs_locks s)) \<Longrightarrow> distinct (map fst (cs_locks (enter_lock t key l s)))"
  "distinct (map fst (cs_locks s)) \<Longrightarrow> distinct (map fst (cs_locks (begin_call t key s)))"
  "distinct (map fst (cs_locks s)) \<Longrightarrow> distinct (map fst (cs_locks (wake_up t s)))"
  "distinct (map fst (cs_locks s)) \<Longrightarrow> distinct (map fst (cs_locks (finish_fetch t result s)))"
proof -
  show enter: "distinct (map fst (cs_locks s)) \<Longrightarrow> distinct (map fst (cs_locks (enter_lock t key l s)))" for s l
    by (simp add: enter_lock_def split: option.splits)
  show "distinct (map fst (cs_locks s)) \<Longrightarrow> distinct (map fst (cs_locks (begin_call t key s)))"
    by (auto simp: begin_call_def lock_for_def Let_def distinct_update intro: enter split: option.splits)
  show "distinct (map fst (cs_locks s)) \<Longrightarrow> distinct (map fst (cs_locks (wake_up t s)))"
    by (cases rule: wake_up_cases [of t s]) (simp_all add: enter_lock_def split: option.splits)
  show "distinct (map fst (cs_locks s)) \<Longrightarrow> distinct (map fst (cs_locks (finish_fetch t result s)))"
    by (cases rule: finish_fetch_cases [of t result s]) (simp_all add: purge_expired_def Let_def distinct_map_filter)
qed

lemma reachable_current_lock: "reachable s \<Longrightarrow> holds_lock s \<and> current_lock s \<and> distinct (map fst (cs_locks s))"
proof (erule reachable_invariant)
  show "holds_lock empty_cache \<and> current_lock empty_cache \<and> distinct (map fst (cs_locks empty_cache))"
    by (simp add: empty_cache_def holds_lock_def current_lock_def)
  show "holds_lock (tick d s) \<and> current_lock (tick d s) \<and> distinct (map fst (cs_locks (tick d s)))"
    if "holds_lock s \<and> current_lock s \<and> distinct (map fst (cs_locks s))" for s d
  proof -
    have "holds_lock (tick d s) = holds_lock s" "current_lock (tick d s) = current_lock s" "cs_locks (tick d s) = cs_locks s"
      by (simp_all add: tick_def holds_lock_def current_lock_def)
    then show ?thesis using that by simp
  qed
qed (simp_all add: holds_lock_begin holds_lock_wake holds_lock_finish current_lock_begin current_lock_wake
      current_lock_finish distinct_locks_step)

section \<open>Properties\<close>

text \<open>C32. Tokens never cross keys: in every reachable state of the cache, under any interleaving of callers,
  fetches, failures and expiry, a token handed to a caller of a key was obtained by a fetch for
  that very key.\<close>

theorem cache_no_crosstalk:
  assumes "reachable s" and "cs_tasks s t = Returned key token"
  shows "(key, token) \<in> set (cs_minted s)"
  using reachable_from_fetch [OF assms(1)] assms(2) by (auto simp: from_fetch_def)

text \<open>C33. Single flight: as long as no lock has been dropped while callers were queued on it, at most one
  fetch per key is in flight, whatever the interleaving.\<close>

theorem cache_single_flight:
  assumes "reachable s" and "\<not> cs_dropped s"
    and "cs_tasks s t = Fetching key l" and "cs_tasks s t' = Fetching key l'"
  shows "t = t'"
proof -
  have inv: "holds_lock s" "current_lock s" using reachable_current_lock [OF assms(1)] by simp_all
  then have "l = l'" using assms(2-4) unfolding current_lock_def by (metis option.inject)
  then show ?thesis using inv(1) assms(3,4) unfolding holds_lock_def by (metis option.inject)
qed

text \<open>The run that breaks it: a token that expires at once, a waiter that has not run yet, and the
  purge of another key's fetch.\<close>

definition race_start :: cache_state where
  "race_start = begin_call 2 ''B'' (begin_call 1 ''A'' (begin_call 0 ''A'' empty_cache))"

definition race_purged :: cache_state where
  "race_purged = finish_fetch 2 (Some (''b'', 300)) (finish_fetch 0 (Some (''a'', 0)) race_start)"

definition race_state :: cache_state where
  "race_state = wake_up 1 (begin_call 3 ''A'' race_purged)"

lemmas race_defs =
  race_start_def race_purged_def race_state_def begin_call_def finish_fetch_def wake_up_def enter_lock_def
  lock_for_def fresh_value_def purge_expired_def expired_keys_def droppable_def empty_cache_def

lemma race_reachable: "reachable race_state"
proof -
  have "reachable race_start" unfolding race_start_def
    by (intro reach_step [OF _ step_begin] reach_empty) (simp_all add: race_defs)
  then have "reachable race_purged" unfolding race_purged_def
    by (intro reach_step [OF _ step_finish])
  then have "reachable (begin_call 3 ''A'' race_purged)"
    by (rule reach_step [OF _ step_begin]) (simp add: race_defs Let_def)
  then show ?thesis unfolding race_state_def by (rule reach_step [OF _ step_wake])
qed

text \<open>Single flight fails without that proviso: a reachable state has two tasks fetching the same key at
  once, because a lock with a task queued on it is not \<open>locked()\<close> between its release and the task's
  turn, and the purge of another key drops it then.\<close>

theorem cache_single_flight_broken:
  "\<exists>s t t' key l l'. reachable s \<and> t \<noteq> t' \<and> cs_tasks s t = Fetching key l \<and> cs_tasks s t' = Fetching key l'"
proof (intro exI conjI)
  show "reachable race_state" by (rule race_reachable)
  show "(3::nat) \<noteq> 1" by simp
  show "cs_tasks race_state 3 = Fetching ''A'' 2" "cs_tasks race_state 1 = Fetching ''A'' 0"
    by code_simp+
qed

theorem cache_no_crosstalk_witness: "(''A'', ''a'') \<in> set (cs_minted race_state)"
proof (rule cache_no_crosstalk [OF race_reachable])
  show "cs_tasks race_state 0 = Returned ''A'' ''a''" by code_simp
qed

theorem cache_single_flight_witness: "(0 :: nat) = 0 \<and> \<not> cs_dropped race_start"
proof
  have r: "reachable race_start" unfolding race_start_def
    by (intro reach_step [OF _ step_begin] reach_empty) (simp_all add: race_defs)
  show d: "\<not> cs_dropped race_start" by code_simp
  have f: "cs_tasks race_start 0 = Fetching ''A'' 0" by code_simp
  show "(0 :: nat) = 0" by (rule cache_single_flight [OF r d f f])
qed

end
