(* ===== verification/Sha256Vector.thy ===== *)
theory Sha256Vector
  imports Sha256
begin

text \<open>
  The FIPS 180-4 test vector for the three bytes \<open>abc\<close>, evaluated by the kernel: the digits that
  \<open>_suffix("abc")\<close> takes. Kept apart because the evaluation takes most of a minute.
\<close>

lemma sha256_abc_prefix: "take 6 (sha256_hexdigest ''abc'') = ''ba7816''"
  by code_simp

end
