(* ===== verification/Spec2Isabelle.thy ===== *)
theory Spec2Isabelle
  imports Cli TokenCache Sha256Vector
begin

text \<open>
  MCP portal: a model of \<open>src/src/mcp_portal\<close> and the theorems that make it correct.

  The program. A portal reads a configuration, learns operations of upstream APIs (explicit entries, OpenAPI documents,
  GraphQL schemas), turns them into tools with a name, an input schema and an effect, and serves them over MCP. Each call
  is validated, authorized by a policy over RFC 9396 authorization details, given a credential, built into a request and sent
  with retries. \<open>configure\<close> is the interactive run that asks the operator what to expose and writes configuration and policy.

  How the parts interact. \<open>cli.main\<close> calls \<open>load_config\<close>, then \<open>build_app\<close>, which calls \<open>introspect_upstreams\<close>, the
  explicit source, \<open>merge_operations\<close> and \<open>build_toolset\<close>, and makes one transport per upstream. The servers hand calls to
  \<open>ToolInvoker.call\<close>, which asks the policy engine and runs the transport. \<open>configure\<close> goes from the introspected operations
  through the survey or the reconcile to rendering and writing.

  Conventions. A class is a record with the class's fields, an enumeration a datatype, a dictionary an association list in insertion
  order (\<open>pydict\<close>, updated by \<open>AList.update\<close>). Every \<open>raise\<close>, failed assertion and uncaught exception is a value of an error
  datatype (\<open>Inl\<close>); a handler is a case on it. State is passed explicitly; integers of Python are \<open>int\<close>, times \<open>rat\<close>, JSON
  values the datatype \<open>json\<close>, with a float as its value and its text. A string is a list of characters, each a code point from 0 to
  255 (Latin-1): \<open>utf8_encode\<close>, \<open>quote\<close>, \<open>str_lower\<close> and \<open>dumps_str\<close> treat it so, and text above U+00FF is not modelled as a string.
  Only request bodies are bytes, and tool results are lists of code points of any size. All definitions of the model compute.

  Theories, by layer, with what their lemmas show.

  \<^item> \<open>Prelude\<close>, \<open>PyStr\<close>, \<open>PyJson\<close>, \<open>JsonText\<close>, \<open>UrlParts\<close>: the two result monads, dictionaries (locale \<open>dict_store\<close>), Python's string
    functions, percent-encoding and its inverse, \<open>json.dumps\<close> and a reference reader of what it writes, \<open>urlsplit\<close>.
  \<^item> \<open>Operations\<close>, \<open>Classify\<close> (\<open>operations.py\<close>, \<open>classify.py\<close>): the data model and the effect of a method.
  \<^item> \<open>Rar\<close>, \<open>Fnmatch\<close>, \<open>Matching\<close>, \<open>Policy\<close> (\<open>auth/rar.py\<close>, \<open>policy.py\<close>, \<open>config/policy.py\<close>): coverage of details (locale
    \<open>coverage\<close>), matching (locale \<open>op_matcher\<close>, interpreted for the policy and the registry), evaluation, dead rules.
  \<^item> \<open>Sha256\<close>, \<open>Sha256Vector\<close>, \<open>Naming\<close>, \<open>Registry\<close> (\<open>naming.py\<close>, \<open>registry.py\<close>): the digest suffix is SHA-256 on
    32-bit words; naming fails only for duplicate ids or names that really coincide, and its names are valid, at most the limit
    long and distinct; classification, posture, selection and the tool set.
  \<^item> \<open>Flatten\<close>, \<open>BuildRequest\<close> (\<open>sources/flatten.py\<close>, \<open>transports/http.py\<close>): argument names, input schemas and the request
    of a call; its method, host and path template are those of the operation, a server reads back exactly the supplied query
    parameters, and arguments that satisfy the schema build.
  \<^item> \<open>TransportCommon\<close>, \<open>Transports\<close> (\<open>transports\<close>): executions with retries, waits and a total budget over an environment of
    attempts; locale \<open>transport_adapter\<close>, interpreted for HTTP and GraphQL, bounds attempts and time.
  \<^item> \<open>ConfigModels\<close>, \<open>Loader\<close>, \<open>LoadConfig\<close> (\<open>config\<close>): fields, validators, secrets, denylist, loading.
  \<^item> \<open>Explicit\<close>, \<open>Dialect\<close>, \<open>Refs\<close>, \<open>OpenApiDocument\<close>, \<open>OpenApi\<close>, \<open>GraphQlSchema\<close>, \<open>GraphQlSource\<close>, \<open>Introspect\<close> (\<open>sources\<close>,
    \<open>introspect.py\<close>): reference resolution refines the relation \<open>expands\<close>, cutting circular references only, the 3.0 dialect keeps the values a schema accepts,
    selection sets select what the schema has, and both introspecting sources agree with the explicit one.
  \<^item> \<open>TokenCache\<close>, \<open>Outbound\<close>, \<open>Principal\<close>, \<open>Inbound\<close> (\<open>auth\<close>): the cache as a step relation over any number of tasks, with
    reachability invariants; token requests (locale \<open>credential_source\<close>); verified tokens and principals.
  \<^item> \<open>Invoker\<close>, \<open>App\<close>, \<open>Startup\<close>, \<open>ServerHttp\<close> (\<open>server\<close>, \<open>app.py\<close>): one call end to end, the wiring, from file to served
    tools, whose headers no argument sets, and the verifier of the HTTP server as a step relation: its keys are keys its endpoint listed.
  \<^item> \<open>Survey\<close>, \<open>Reconcile\<close>, \<open>Render\<close> (\<open>configure\<close>): the questions and their answers (locales
    \<open>quiet_prompter\<close> and, for both prompters, \<open>bounded_prompter\<close>), the difference to
    a recorded run, the documents written. \<open>Cli\<close> (\<open>cli.py\<close>): the commands over the files and the lines typed; files change
    only as shown and confirmed, and what was declined is served by no portal built from what was written.

  Parameters. Code that is not under \<open>src\<close> is an argument, and what is assumed of it is a hypothesis of the theorem that
  needs it: the file system and network (records \<open>outside\<close>, \<open>world\<close>, \<open>attempt_env\<close>), Pydantic's structural parsing and dumping
  (\<open>parse\<close>, \<open>reads_back\<close>, \<open>reads_rules_back\<close>), \<open>ruamel.yaml\<close>, \<open>jsonschema\<close> (\<open>validator\<close>), \<open>pyjwt\<close> (\<open>token_outside\<close>),
  the MCP SDK (that the token of a request was accepted by the server's verifier, \<open>accepted\<close>).

  Bounds and fuel. Recursions end structurally or by a proved measure. The only fuel is the depth of references that \<open>resolve\<close>
  follows (\<open>wo_fuel\<close>). The code keeps no such count: it stops at a reference that is already open, so when finitely many
  documents are reachable the depth never exceeds their (document, reference) pairs, and theory \<open>Refs\<close> proves that this much fuel never runs out. An execution makes at most
  three attempts; a survey reads at most five lines per operation, and a whole \<open>configure\<close> two more.

  Not modelled. \<open>config/schema.py\<close> (Pydantic's generated schema) and the checks Pydantic derives from field types; \<open>argparse\<close>, logging
  and closing clients; the SDK's routing, sessions and streams, and uvicorn; the layout of a printed difference; mock services,
  examples and tests. Text with characters above U+00FF.
  Directories, permissions and text encodings of files are left out: a file exists and is readable, or does not exist.
  Python's hash function and clocks are parameters, and no two steps of the event loop overlap except in \<open>TokenCache\<close>.

  What modelling showed is kept as lemmas next to the code they are about: \<open>Render.owned_rule_dropped\<close>,
  \<open>Render.read_only_requirement_dropped\<close>, \<open>Render.bracket_id_not_matched\<close>, \<open>Reconcile.graphql_entry_skipped\<close>, \<open>Cli.relative_policy_elsewhere\<close>,
  \<open>Cli.http_settings_escape\<close>, \<open>ServerHttp.ipv6_audience_unbracketed\<close>, \<open>TokenCache.cache_single_flight_broken\<close>,
  \<open>Refs.resolve_leaves_reference\<close>, \<open>Refs.cached_cut\<close>, \<open>BuildRequest.nested_brace_substituted_twice\<close>,
  \<open>BuildRequest.undeclared_required_refused\<close>, \<open>Dialect.example_property_renamed\<close>, \<open>Dialect.nullable_loses_strict_bound\<close>,
  \<open>GraphQlSource.union_without_selection\<close>.
\<close>

end
